(* ===== verification/Prelude.thy ===== *)
theory Prelude
  imports Main "HOL-Library.Word" "HOL-Library.Code_Target_Nat"
begin

unbundle bit_operations_syntax

text \<open>
  Shared vocabulary of the development: the machine integer types of
  \<^verbatim>\<open>include/kernel/types.h\<close>, the error codes of \<^verbatim>\<open>include/kernel/errno.h\<close>, the result
  type of fallible operations, and the generic facts on words, lists and
  counting that the component theories use.
\<close>

section \<open>Types\<close>

type_synonym u8 = "8 word"
type_synonym u16 = "16 word"
type_synonym u32 = "32 word"
type_synonym u64 = "64 word"

datatype (plugins del: quickcheck_random quickcheck_exhaustive quickcheck_bounded_forall
    quickcheck_full_exhaustive quickcheck_narrowing) errno =
    EPERM | ENOENT | ESRCH | EINTR | EIO | ENXIO | E2BIG | ENOEXEC | EBADF | ECHILD
  | EAGAIN | ENOMEM | EACCES | EFAULT | ENOTBLK | EBUSY | EEXIST | EXDEV | ENODEV | ENOTDIR
  | EISDIR | EINVAL | ENFILE | EMFILE | ENOTTY | ETXTBSY | EFBIG | ENOSPC | ESPIPE | EROFS
  | EMLINK | EPIPE | EDOM | ERANGE | EDEADLK | ENAMETOOLONG | ENOLCK | ENOSYS | ENOTEMPTY
  | ELOOP | ETIMEOUT | ENOMSG | EBADMSG | ENOTSUP | EOVERFLOW

text \<open>
  A function of the source that returns \<open>-E...\<close> on failure and a value on success
  returns \<open>Inl E...\<close> or \<open>Inr v\<close> in the model.
\<close>

type_synonym 'a res = "errno + 'a"

text \<open>Addition of two 64-bit unsigned values (\<open>uint64_t\<close>, \<open>uintptr_t\<close>, \<open>size_t\<close>) kept as naturals.\<close>

definition add64 :: "nat \<Rightarrow> nat \<Rightarrow> nat" where
  "add64 a b = (a + b) mod 2 ^ 64"

definition PAGE_SIZE :: nat where
  "PAGE_SIZE = 4096"

definition PAGE_SHIFT :: nat where
  "PAGE_SHIFT = 12"

text \<open>Open flags of \<^verbatim>\<open>include/fs/vfs.h\<close>; \<open>has_flag\<close> is the test \<open>flags & f\<close>.\<close>

definition O_ACCMODE :: int where "O_ACCMODE = 0x0003"
definition O_RDONLY :: int where "O_RDONLY = 0x0000"
definition O_WRONLY :: int where "O_WRONLY = 0x0001"
definition O_RDWR :: int where "O_RDWR = 0x0002"
definition O_APPEND :: int where "O_APPEND = 0x0008"
definition O_CREAT :: int where "O_CREAT = 0x0200"
definition O_TRUNC :: int where "O_TRUNC = 0x0400"

definition has_flag :: "int \<Rightarrow> int \<Rightarrow> bool" where
  "has_flag flags f \<longleftrightarrow> flags AND f \<noteq> 0"

definition rdonly :: "int \<Rightarrow> bool" where
  "rdonly flags \<longleftrightarrow> flags AND O_ACCMODE = O_RDONLY"

text \<open>\<open>is_pow2 n\<close>: \<open>n\<close> is a power of two, as alignments in the source are.\<close>

definition is_pow2 :: "nat \<Rightarrow> bool" where
  "is_pow2 n \<longleftrightarrow> n \<noteq> 0 \<and> n AND (n - 1) = 0"

section \<open>Fact collections\<close>

named_theorems inv_intros \<open>invariants kept by the operations of the components\<close>
named_theorems frame_simps \<open>what an operation leaves unchanged\<close>

section \<open>Generic facts\<close>

lemma card_insert_below:
  assumes "finite A" and "x \<notin> A"
  shows "card (insert x A) = Suc (card A)"
  using assms by simp

lemma div_mod_eq_imp_eq:
  fixes a b n :: nat
  assumes "a div n = b div n" and "a mod n = b mod n"
  shows "a = b"
  using assms by (metis div_mult_mod_eq)

lemma bit_u8_exp:
  fixes i j :: nat
  assumes "i < 8"
  shows "bit (2 ^ i :: u8) j \<longleftrightarrow> j = i"
  using assms by (auto simp: bit_exp_iff possible_bit_def)

lemma and_u8_mask_nonzero:
  fixes w :: u8
  assumes "i < 8"
  shows "w AND push_bit i 1 \<noteq> 0 \<longleftrightarrow> bit w i"
  using assms by (simp add: bit_iff_odd_drop_bit and_exp_eq_0_iff_not_bit)

lemma find_SomeD: "find P xs = Some x \<Longrightarrow> x \<in> set xs \<and> P x"
  by (auto simp: find_Some_iff)

lemma u8_inc_noteq_0: "w \<noteq> (0xff :: u8) \<Longrightarrow> w + 1 \<noteq> 0"
proof
  assume "w \<noteq> 0xff" and "w + 1 = 0"
  then have "w = - 1" by (simp add: eq_neg_iff_add_eq_0)
  with \<open>w \<noteq> 0xff\<close> show False by simp
qed

lemma unat_u8_inc: "w \<noteq> (0xff :: u8) \<Longrightarrow> unat (w + 1) = unat w + 1"
  using u8_inc_noteq_0 [of w] by (simp add: unatSuc add.commute)

lemma unat_u8_dec: "w \<noteq> (0 :: u8) \<Longrightarrow> unat (w - 1) = unat w - 1"
  by (simp add: unat_minus_one)

lemma and_pow2_minus_1: "(a :: nat) AND (2 ^ k - 1) = a mod 2 ^ k"
  by (simp add: take_bit_eq_mod [symmetric] take_bit_eq_mask mask_eq_exp_minus_1)

end
