(* ===== verification/Fifo.thy ===== *)
theory Fifo
  imports Prelude
begin

text \<open>
  The contract of a bounded byte queue shared by several producers and consumers,
  as the pipe ring provides it: a get hands out a prefix of the
  contents, a put appends the prefix of its argument that it accepts, and any other
  operation leaves the contents alone.  The history lemma is proved once here, for
  every interleaving.
\<close>

datatype ('a, 'k) fifo_event = Fifo_get nat | Fifo_put "'a list" | Fifo_aux 'k

fun fifo_step ::
    "(nat \<Rightarrow> 's \<Rightarrow> 'a list \<times> 's) \<Rightarrow> ('a list \<Rightarrow> 's \<Rightarrow> nat \<times> 's) \<Rightarrow> ('k \<Rightarrow> 's \<Rightarrow> 's) \<Rightarrow>
     ('a, 'k) fifo_event \<Rightarrow> 's \<times> 'a list \<times> 'a list \<Rightarrow> 's \<times> 'a list \<times> 'a list" where
  "fifo_step get put aux (Fifo_get n) (s, rd, wr) = (let (bs, t) = get n s in (t, rd @ bs, wr))"
| "fifo_step get put aux (Fifo_put bs) (s, rd, wr) = (let (n, t) = put bs s in (t, rd, wr @ take n bs))"
| "fifo_step get put aux (Fifo_aux k) (s, rd, wr) = (aux k s, rd, wr)"

text \<open>\<open>fifo_run\<close> collects, in order, the bytes all consumers got and all producers had accepted.\<close>

definition fifo_run ::
    "(nat \<Rightarrow> 's \<Rightarrow> 'a list \<times> 's) \<Rightarrow> ('a list \<Rightarrow> 's \<Rightarrow> nat \<times> 's) \<Rightarrow> ('k \<Rightarrow> 's \<Rightarrow> 's) \<Rightarrow>
     ('a, 'k) fifo_event list \<Rightarrow> 's \<Rightarrow> 's \<times> 'a list \<times> 'a list" where
  "fifo_run get put aux evs s = fold (fifo_step get put aux) evs (s, [], [])"

locale byte_fifo =
  fixes inv :: "'s \<Rightarrow> bool"
    and contents :: "'s \<Rightarrow> 'a list"
    and capacity :: nat
    and get :: "nat \<Rightarrow> 's \<Rightarrow> 'a list \<times> 's"
    and put :: "'a list \<Rightarrow> 's \<Rightarrow> nat \<times> 's"
    and aux :: "'k \<Rightarrow> 's \<Rightarrow> 's"
  assumes bounded: "inv s \<Longrightarrow> length (contents s) \<le> capacity"
    and get_queue: "inv s \<Longrightarrow> get n s = (bs, t) \<Longrightarrow>
      inv t \<and> bs = take n (contents s) \<and> contents t = drop n (contents s)"
    and put_queue: "inv s \<Longrightarrow> put bs s = (n, t) \<Longrightarrow>
      inv t \<and> n \<le> length bs \<and> contents t = contents s @ take n bs"
    and aux_queue: "inv s \<Longrightarrow> inv (aux k s) \<and> contents (aux k s) = contents s"
begin

lemma step_history:
  assumes "inv s" and "fifo_step get put aux e (s, rd, wr) = (t, rd', wr')"
  shows "inv t \<and> (\<exists>r w. rd' = rd @ r \<and> wr' = wr @ w \<and> contents s @ w = r @ contents t)"
proof (cases e)
  case (Fifo_get n)
  with assms get_queue [of s n] show ?thesis
    by (auto simp: Let_def split: prod.splits)
next
  case (Fifo_put bs)
  with assms put_queue [of s bs] show ?thesis
    by (auto simp: Let_def split: prod.splits)
next
  case (Fifo_aux k)
  with assms aux_queue [of s k] show ?thesis by auto
qed

lemma fold_history:
  assumes "inv s" and "fold (fifo_step get put aux) evs (s, rd, wr) = (t, rd', wr')"
  shows "inv t \<and> (\<exists>r w. rd' = rd @ r \<and> wr' = wr @ w \<and> contents s @ w = r @ contents t)"
  using assms
proof (induction evs arbitrary: s rd wr)
  case Nil
  then show ?case by simp
next
  case (Cons e evs)
  obtain s1 rd1 wr1 where s1: "fifo_step get put aux e (s, rd, wr) = (s1, rd1, wr1)"
    by (cases "fifo_step get put aux e (s, rd, wr)")
  from step_history [OF Cons.prems(1) this] obtain r w
    where 1: "inv s1" "rd1 = rd @ r" "wr1 = wr @ w" "contents s @ w = r @ contents s1" by blast
  from Cons.prems(2) s1 have "fold (fifo_step get put aux) evs (s1, rd1, wr1) = (t, rd', wr')"
    by simp
  from Cons.IH [OF 1(1) this] obtain r' w'
    where 2: "inv t" "rd' = rd1 @ r'" "wr' = wr1 @ w'" "contents s1 @ w' = r' @ contents t" by blast
  have "contents s @ w @ w' = (r @ r') @ contents t"
    using 1(4) 2(4) by (metis append.assoc)
  with 1 2 show ?case by (metis append.assoc)
qed

lemma run_history:
  assumes "inv s" and "fifo_run get put aux evs s = (t, rd, wr)"
  shows "inv t \<and> contents s @ wr = rd @ contents t \<and> length (contents t) \<le> capacity"
  using fold_history [of s evs "[]" "[]" t rd wr] assms bounded by (auto simp: fifo_run_def)

end

end
