(* ===== verification/Pipe.thy ===== *)
theory Pipe
  imports Fifo
begin

text \<open>
  Anonymous pipes, \<^verbatim>\<open>src/proc/pipe.c\<close>: a ring buffer of \<open>PIPE_BUFFER_SIZE\<close> bytes with
  counts of open read and write descriptors.  Each pass of the loops of
  \<open>pipe_read\<close> and \<open>pipe_write\<close> runs under the pipe's lock and is one atomic step;
  between two passes the caller yields and other processes may change the pipe.
  The ring refines a queue of bytes.
\<close>

section \<open>State\<close>

definition PIPE_BUFFER_SIZE :: nat where
  "PIPE_BUFFER_SIZE = 4096"

definition PIPE_MAX_PIPES :: nat where
  "PIPE_MAX_PIPES = 16"

record pipe =
  p_buffer :: "nat \<Rightarrow> u8"
  p_read_pos :: nat
  p_write_pos :: nat
  p_data_size :: nat
  p_readers :: int
  p_writers :: int
  p_in_use :: bool

section \<open>Operations\<close>

definition pipe_adjust :: "bool \<Rightarrow> int \<Rightarrow> pipe \<Rightarrow> pipe" where
  "pipe_adjust reader delta p =
    (let p1 = (if reader then p\<lparr>p_readers := max 0 (p_readers p + delta)\<rparr>
               else p\<lparr>p_writers := max 0 (p_writers p + delta)\<rparr>)
     in if p_readers p1 = 0 \<and> p_writers p1 = 0 then p1\<lparr>p_in_use := False\<rparr> else p1)"

definition pipe_close_read :: "pipe \<Rightarrow> pipe" where
  "pipe_close_read = pipe_adjust True (- 1)"

definition pipe_close_write :: "pipe \<Rightarrow> pipe" where
  "pipe_close_write = pipe_adjust False (- 1)"

text \<open>The copy loops: \<open>ring_get n\<close> takes \<open>n\<close> bytes out, \<open>ring_put bs\<close> puts \<open>bs\<close> in.\<close>

fun ring_get :: "nat \<Rightarrow> pipe \<Rightarrow> u8 list \<times> pipe" where
  "ring_get 0 p = ([], p)"
| "ring_get (Suc n) p =
    (let b = p_buffer p (p_read_pos p);
         (bs, q) = ring_get n (p\<lparr>p_read_pos := (p_read_pos p + 1) mod PIPE_BUFFER_SIZE\<rparr>)
     in (b # bs, q))"

fun ring_put :: "u8 list \<Rightarrow> pipe \<Rightarrow> pipe" where
  "ring_put [] p = p"
| "ring_put (b # bs) p =
    ring_put bs (p\<lparr>p_buffer := (p_buffer p)(p_write_pos p := b),
                   p_write_pos := (p_write_pos p + 1) mod PIPE_BUFFER_SIZE\<rparr>)"

text \<open>
  One pass of the read loop: the call returns (\<open>Some\<close>) with the bytes copied, or has
  to wait (\<open>None\<close>).  End of file is the empty list.
\<close>

definition pipe_read_pass :: "nat \<Rightarrow> pipe \<Rightarrow> u8 list option \<times> pipe" where
  "pipe_read_pass count p =
    (if p_data_size p \<noteq> 0
     then let n = min count (p_data_size p);
              (bs, q) = ring_get n p
          in (Some bs, q\<lparr>p_data_size := p_data_size q - n\<rparr>)
     else if p_writers p \<le> 0 then (Some [], p)
     else (None, p))"

text \<open>
  What happens around a \<open>scheduler_yield\<close>: whether the caller has a deliverable signal
  when it is about to yield, and what the other processes do to the pipe meanwhile.
\<close>

type_synonym pipe_env = "(bool \<times> (pipe \<Rightarrow> pipe)) list"

text \<open>
  \<open>pipe_read\<close>: the result \<open>None\<close> means that the call is still waiting when the
  recorded scheduling \<open>env\<close> ends.
\<close>

fun pipe_read_loop :: "pipe_env \<Rightarrow> nat \<Rightarrow> pipe \<Rightarrow> (u8 list res \<times> pipe) option" where
  "pipe_read_loop [] count p =
    (case pipe_read_pass count p of
       (Some bs, q) \<Rightarrow> Some (Inr bs, q)
     | (None, q) \<Rightarrow> None)"
| "pipe_read_loop ((interrupted, others) # env) count p =
    (case pipe_read_pass count p of
       (Some bs, q) \<Rightarrow> Some (Inr bs, q)
     | (None, q) \<Rightarrow>
         if interrupted then Some (Inl EINTR, q)
         else pipe_read_loop env count (others q))"

definition pipe_read :: "pipe_env \<Rightarrow> nat \<Rightarrow> pipe \<Rightarrow> (u8 list res \<times> pipe) option" where
  "pipe_read env count p =
    (if count = 0 then Some (Inr [], p) else pipe_read_loop env count p)"

text \<open>One pass of the write loop, with \<open>bs\<close> the bytes not yet written.\<close>

datatype write_pass = No_readers | Wrote nat | Full

definition pipe_write_pass :: "u8 list \<Rightarrow> pipe \<Rightarrow> write_pass \<times> pipe" where
  "pipe_write_pass bs p =
    (if p_readers p \<le> 0 then (No_readers, p)
     else let space = PIPE_BUFFER_SIZE - p_data_size p
          in if space \<noteq> 0
             then let n = min (length bs) space;
                      q = ring_put (take n bs) p
                  in (Wrote n, q\<lparr>p_data_size := p_data_size q + n\<rparr>)
             else (Full, p))"

lemma pipe_write_pass_progress:
  "(Wrote n, q) = pipe_write_pass bs p \<Longrightarrow> bs \<noteq> [] \<Longrightarrow> 0 < n \<and> n \<le> length bs"
  by (auto simp: pipe_write_pass_def Let_def split: if_splits)

text \<open>
  \<open>pipe_write\<close>: the Boolean of the result says whether the caller is sent \<open>SIGPIPE\<close>.
\<close>

function pipe_write_loop ::
    "pipe_env \<Rightarrow> u8 list \<Rightarrow> nat \<Rightarrow> pipe \<Rightarrow> (nat res \<times> bool \<times> pipe) option" where
  "pipe_write_loop env bs tot p =
    (if tot < length bs
     then case pipe_write_pass (drop tot bs) p of
            (No_readers, q) \<Rightarrow>
              (if tot \<noteq> 0 then Some (Inr tot, False, q) else Some (Inl EPIPE, True, q))
          | (Wrote n, q) \<Rightarrow> pipe_write_loop env bs (tot + n) q
          | (Full, q) \<Rightarrow>
              (case env of
                 [] \<Rightarrow> None
               | (interrupted, others) # env' \<Rightarrow>
                   if interrupted
                   then Some (if tot \<noteq> 0 then Inr tot else Inl EINTR, False, q)
                   else pipe_write_loop env' bs tot (others q))
     else Some (Inr tot, False, p))"
  by pat_completeness auto

termination
  by (relation "measure (\<lambda>(env, bs, tot, p). length env + (length bs - tot))")
    (auto dest!: pipe_write_pass_progress)

definition pipe_write :: "pipe_env \<Rightarrow> u8 list \<Rightarrow> pipe \<Rightarrow> (nat res \<times> bool \<times> pipe) option" where
  "pipe_write env bs p = pipe_write_loop env bs 0 p"

text \<open>The pool of pipes and \<open>pipe_alloc\<close>.\<close>

definition pipe_fresh :: pipe where
  "pipe_fresh = \<lparr>p_buffer = (\<lambda>_. 0), p_read_pos = 0, p_write_pos = 0, p_data_size = 0,
                 p_readers = 1, p_writers = 1, p_in_use = True\<rparr>"

definition pipe_alloc :: "(nat \<Rightarrow> pipe) \<Rightarrow> nat option \<times> (nat \<Rightarrow> pipe)" where
  "pipe_alloc pipes =
    (case find (\<lambda>i. \<not> p_in_use (pipes i)) [0..<PIPE_MAX_PIPES] of
       None \<Rightarrow> (None, pipes)
     | Some i \<Rightarrow> (Some i, pipes(i := pipe_fresh)))"

section \<open>Abstraction and invariant\<close>

definition pipe_contents :: "pipe \<Rightarrow> u8 list" where
  "pipe_contents p =
    map (\<lambda>i. p_buffer p ((p_read_pos p + i) mod PIPE_BUFFER_SIZE)) [0..<p_data_size p]"

definition pipe_inv :: "pipe \<Rightarrow> bool" where
  "pipe_inv p \<longleftrightarrow>
     p_read_pos p < PIPE_BUFFER_SIZE \<and> p_data_size p \<le> PIPE_BUFFER_SIZE \<and>
     p_write_pos p = (p_read_pos p + p_data_size p) mod PIPE_BUFFER_SIZE \<and>
     0 \<le> p_readers p \<and> 0 \<le> p_writers p"

text \<open>
  The passes as a bounded queue: what a reader gets, how many bytes a writer has
  accepted, and descriptors of either end being duplicated (+1) or closed (-1).
\<close>

definition pipe_get :: "nat \<Rightarrow> pipe \<Rightarrow> u8 list \<times> pipe" where
  "pipe_get n p =
    (case pipe_read_pass n p of (Some bs, q) \<Rightarrow> (bs, q) | (None, q) \<Rightarrow> ([], q))"

definition pipe_put :: "u8 list \<Rightarrow> pipe \<Rightarrow> nat \<times> pipe" where
  "pipe_put bs p =
    (case pipe_write_pass bs p of (Wrote n, q) \<Rightarrow> (n, q) | (_, q) \<Rightarrow> (0, q))"

definition pipe_aux :: "bool \<times> int \<Rightarrow> pipe \<Rightarrow> pipe" where
  "pipe_aux k p = pipe_adjust (fst k) (snd k) p"

text \<open>The pipe a waiting call sees after the others have run \<open>k\<close> times.\<close>

definition env_state :: "pipe_env \<Rightarrow> nat \<Rightarrow> pipe \<Rightarrow> pipe" where
  "env_state env k p = fold (\<lambda>e. snd e) (take k env) p"

text \<open>A call has nothing to return in this state: no data, but a writer is left.\<close>

definition must_wait :: "pipe \<Rightarrow> bool" where
  "must_wait p \<longleftrightarrow> p_data_size p = 0 \<and> 0 < p_writers p"

text \<open>The other side only consumes: it keeps the invariant and the read end and drops a prefix.\<close>

definition consumer :: "(pipe \<Rightarrow> pipe) \<Rightarrow> bool" where
  "consumer f \<longleftrightarrow> (\<forall>p. pipe_inv p \<longrightarrow>
     pipe_inv (f p) \<and> p_readers (f p) = p_readers p \<and>
     (\<exists>k. pipe_contents (f p) = drop k (pipe_contents p)))"

text \<open>
  What a write of \<open>bs\<close>, resumed at offset \<open>tot\<close>, has achieved when it returns \<open>r\<close>: the
  bytes up to some \<open>n\<close> are in the queue, in order, behind what was there and less
  what the readers took; a short count or \<open>-EINTR\<close> is due to a signal.
\<close>

definition delivers ::
    "pipe_env \<Rightarrow> u8 list \<Rightarrow> nat \<Rightarrow> pipe \<Rightarrow> nat res \<Rightarrow> bool \<Rightarrow> pipe \<Rightarrow> bool" where
  "delivers env bs tot p r sig q \<longleftrightarrow>
    (\<exists>n k. pipe_inv q \<and> \<not> sig \<and> tot \<le> n \<and> n \<le> length bs \<and>
      pipe_contents q = drop k (pipe_contents p @ drop tot (take n bs)) \<and>
      (r = Inr n \<and> (n = length bs \<or> (0 < n \<and> (\<exists>e \<in> set env. fst e))) \<or>
       r = Inl EINTR \<and> n = 0 \<and> (\<exists>e \<in> set env. fst e)))"

definition ring_put1 :: "u8 \<Rightarrow> pipe \<Rightarrow> pipe" where
  "ring_put1 b p = p\<lparr>p_buffer := (p_buffer p)(p_write_pos p := b),
     p_write_pos := (p_write_pos p + 1) mod PIPE_BUFFER_SIZE, p_data_size := p_data_size p + 1\<rparr>"

definition ring_get1 :: "pipe \<Rightarrow> pipe" where
  "ring_get1 p = p\<lparr>p_read_pos := (p_read_pos p + 1) mod PIPE_BUFFER_SIZE,
     p_data_size := p_data_size p - 1\<rparr>"

section \<open>The ring refines a queue\<close>

lemma pbs_pos [simp]: "0 < PIPE_BUFFER_SIZE"
  by (simp add: PIPE_BUFFER_SIZE_def)

lemma mod_ring_neq:
  fixes r i d n :: nat
  assumes "i < d" and "d < n"
  shows "(r + i) mod n \<noteq> (r + d) mod n"
proof
  assume "(r + i) mod n = (r + d) mod n"
  then have "n dvd d - i"
    using assms(1) by (metis add_diff_cancel_left le_add2 mod_eq_dvd_iff_nat nat_add_left_cancel_le
        nat_less_le)
  with assms show False by (auto dest: dvd_imp_le)
qed

lemma ring_put_frame [simp]:
  "p_read_pos (ring_put bs p) = p_read_pos p"
  "p_data_size (ring_put bs p) = p_data_size p"
  "p_readers (ring_put bs p) = p_readers p"
  "p_writers (ring_put bs p) = p_writers p"
  "p_in_use (ring_put bs p) = p_in_use p"
  by (induction bs p rule: ring_put.induct) auto

lemma pipe_update_order:
  "p\<lparr>p_data_size := d, p_buffer := f, p_write_pos := w\<rparr> =
   p\<lparr>p_buffer := f, p_write_pos := w, p_data_size := d\<rparr>"
  "p\<lparr>p_data_size := d, p_read_pos := r\<rparr> = p\<lparr>p_read_pos := r, p_data_size := d\<rparr>"
  by (cases p; simp)+

lemma ring_put_data_size:
  "ring_put bs (p\<lparr>p_data_size := d\<rparr>) = (ring_put bs p)\<lparr>p_data_size := d\<rparr>"
  by (induction bs p rule: ring_put.induct) (auto simp: pipe_update_order)

lemma ring_put1_queue:
  assumes "pipe_inv p" and "p_data_size p < PIPE_BUFFER_SIZE"
  shows "pipe_inv (ring_put1 b p)" and "pipe_contents (ring_put1 b p) = pipe_contents p @ [b]"
proof -
  show "pipe_inv (ring_put1 b p)"
    using assms by (auto simp: pipe_inv_def ring_put1_def mod_simps)
  show "pipe_contents (ring_put1 b p) = pipe_contents p @ [b]"
    using assms mod_ring_neq [of _ "p_data_size p" PIPE_BUFFER_SIZE "p_read_pos p"]
    by (auto simp: pipe_contents_def ring_put1_def pipe_inv_def)
qed

lemma ring_put_queue:
  assumes "pipe_inv p" and "p_data_size p + length bs \<le> PIPE_BUFFER_SIZE"
  shows "pipe_inv ((ring_put bs p)\<lparr>p_data_size := p_data_size p + length bs\<rparr>) \<and>
    pipe_contents ((ring_put bs p)\<lparr>p_data_size := p_data_size p + length bs\<rparr>) = pipe_contents p @ bs"
  using assms
proof (induction bs arbitrary: p)
  case Nil
  then show ?case by simp
next
  case (Cons b bs)
  have "ring_put (b # bs) p\<lparr>p_data_size := p_data_size p + length (b # bs)\<rparr> =
      ring_put bs (ring_put1 b p)\<lparr>p_data_size := p_data_size (ring_put1 b p) + length bs\<rparr>"
    by (simp add: ring_put1_def ring_put_data_size)
  with Cons.IH [of "ring_put1 b p"] ring_put1_queue [of p b] Cons.prems show ?case
    by (simp add: ring_put1_def)
qed

lemma ring_get1_queue:
  assumes "pipe_inv p" and "0 < p_data_size p"
  shows "pipe_inv (ring_get1 p)"
    and "pipe_contents p = p_buffer p (p_read_pos p) # pipe_contents (ring_get1 p)"
proof -
  show "pipe_inv (ring_get1 p)"
    using assms by (cases "p_data_size p") (auto simp: pipe_inv_def ring_get1_def mod_simps)
  have "[0..<p_data_size p] = 0 # map Suc [0..<p_data_size p - 1]"
    using assms(2) by (simp add: upt_conv_Cons map_Suc_upt)
  then show "pipe_contents p = p_buffer p (p_read_pos p) # pipe_contents (ring_get1 p)"
    using assms by (simp add: pipe_contents_def ring_get1_def pipe_inv_def comp_def mod_simps)
qed

lemma ring_get_data_size:
  "ring_get n (p\<lparr>p_data_size := d\<rparr>) = (fst (ring_get n p), (snd (ring_get n p))\<lparr>p_data_size := d\<rparr>)"
  by (induction n p rule: ring_get.induct)
    (auto simp: Let_def pipe_update_order split: prod.splits)

lemma ring_get_frame [simp]:
  "p_data_size (snd (ring_get n p)) = p_data_size p"
  "p_readers (snd (ring_get n p)) = p_readers p"
  "p_writers (snd (ring_get n p)) = p_writers p"
  "p_in_use (snd (ring_get n p)) = p_in_use p"
  "length (fst (ring_get n p)) = n"
  by (induction n p rule: ring_get.induct) (auto simp: Let_def split: prod.splits)

lemma ring_get_queue:
  assumes "pipe_inv p" and "n \<le> p_data_size p" and "ring_get n p = (bs, q)"
  shows "pipe_inv (q\<lparr>p_data_size := p_data_size p - n\<rparr>) \<and>
    pipe_contents p = bs @ pipe_contents (q\<lparr>p_data_size := p_data_size p - n\<rparr>)"
  using assms
proof (induction n arbitrary: p bs q)
  case 0
  then show ?case by simp
next
  case (Suc n)
  obtain cs r where cr: "ring_get n (ring_get1 p) = (cs, r)" by (cases "ring_get n (ring_get1 p)")
  have "p\<lparr>p_read_pos := (p_read_pos p + 1) mod PIPE_BUFFER_SIZE\<rparr> =
      (ring_get1 p)\<lparr>p_data_size := p_data_size p\<rparr>"
    by (simp add: ring_get1_def)
  with cr Suc.prems(3) have "bs = p_buffer p (p_read_pos p) # cs" "q = r\<lparr>p_data_size := p_data_size p\<rparr>"
    by (auto simp: ring_get_data_size Let_def)
  with Suc.IH [OF _ _ cr] ring_get1_queue [of p] Suc.prems(1,2) show ?case
    by (simp add: ring_get1_def)
qed

lemma pipe_contents_length [simp]: "length (pipe_contents p) = p_data_size p"
  by (simp add: pipe_contents_def)

lemma pipe_read_pass_queue:
  assumes inv: "pipe_inv p" and r: "pipe_read_pass n p = (r, q)"
  shows "pipe_inv q \<and> pipe_contents q = drop n (pipe_contents p) \<and>
    (r = None \<longleftrightarrow> pipe_contents p = [] \<and> 0 < p_writers p) \<and>
    (r = None \<or> r = Some (take n (pipe_contents p)))"
proof (cases "p_data_size p = 0")
  case True
  then have "pipe_contents p = []" by (simp add: pipe_contents_def)
  with True assms show ?thesis by (auto simp: pipe_read_pass_def split: if_splits)
next
  case False
  define m where "m = min n (p_data_size p)"
  obtain bs s where g: "ring_get m p = (bs, s)" by (cases "ring_get m p")
  have len: "length bs = m" using ring_get_frame(5) [of m p] g by simp
  have "p_data_size s = p_data_size p" using ring_get_frame(1) [of m p] g by simp
  then have q: "r = Some bs" "q = s\<lparr>p_data_size := p_data_size p - m\<rparr>"
    using r False g by (auto simp: pipe_read_pass_def Let_def m_def)
  have s: "pipe_inv q" "pipe_contents p = bs @ pipe_contents q"
    using ring_get_queue [OF inv _ g] by (auto simp: q m_def)
  have "p_data_size p \<le> n \<Longrightarrow> pipe_contents q = []"
    using q(2) by (simp add: m_def pipe_contents_def)
  then have "take n (pipe_contents p) = bs \<and> drop n (pipe_contents p) = pipe_contents q"
    using len s(2) by (cases "n \<le> p_data_size p") (simp_all add: m_def min_def)
  moreover have "pipe_contents p \<noteq> []" using False by (metis length_0_conv pipe_contents_length)
  ultimately show ?thesis using s(1) q(1) by simp
qed

lemma pipe_write_pass_queue:
  assumes inv: "pipe_inv p" and w: "pipe_write_pass bs p = (w, q)"
  shows "pipe_inv q \<and>
    (case w of
       No_readers \<Rightarrow> p_readers p = 0 \<and> q = p
     | Full \<Rightarrow> 0 < p_readers p \<and> p_data_size p = PIPE_BUFFER_SIZE \<and> q = p
     | Wrote n \<Rightarrow> 0 < p_readers p \<and> n = min (length bs) (PIPE_BUFFER_SIZE - p_data_size p) \<and>
         pipe_contents q = pipe_contents p @ take n bs)"
proof -
  have "p_data_size p \<le> PIPE_BUFFER_SIZE" using inv by (simp add: pipe_inv_def)
  then show ?thesis
    using w inv ring_put_queue [of p "take (PIPE_BUFFER_SIZE - p_data_size p) bs"]
    by (auto simp: pipe_write_pass_def pipe_inv_def Let_def min_def split: if_splits)
qed

lemma pipe_adjust_queue:
  "pipe_inv p \<Longrightarrow> pipe_inv (pipe_adjust reader d p)"
  "pipe_contents (pipe_adjust reader d p) = pipe_contents p"
  by (auto simp: pipe_adjust_def pipe_inv_def pipe_contents_def Let_def)

interpretation pipe_fifo: byte_fifo pipe_inv pipe_contents PIPE_BUFFER_SIZE pipe_get pipe_put pipe_aux
proof
  fix p q :: pipe and bs :: "u8 list" and n :: nat and k :: "bool \<times> int"
  assume inv: "pipe_inv p"
  show "length (pipe_contents p) \<le> PIPE_BUFFER_SIZE" using inv by (simp add: pipe_inv_def)
  show "pipe_inv (pipe_aux k p) \<and> pipe_contents (pipe_aux k p) = pipe_contents p"
    using inv by (simp add: pipe_aux_def pipe_adjust_queue)
  show "pipe_get n p = (bs, q) \<Longrightarrow>
      pipe_inv q \<and> bs = take n (pipe_contents p) \<and> pipe_contents q = drop n (pipe_contents p)"
    using pipe_read_pass_queue [OF inv, of n]
    by (auto simp: pipe_get_def split: prod.splits option.splits)
  show "pipe_put bs p = (n, q) \<Longrightarrow>
      pipe_inv q \<and> n \<le> length bs \<and> pipe_contents q = pipe_contents p @ take n bs"
    using pipe_write_pass_queue [OF inv, of bs]
    by (auto simp: pipe_put_def split: prod.splits write_pass.splits)
qed

section \<open>Properties\<close>

lemma pipe_inv_fresh [simp]: "pipe_inv pipe_fresh" "pipe_contents pipe_fresh = []"
  by (simp_all add: pipe_inv_def pipe_fresh_def pipe_contents_def)

lemma pass_waits: "fst (pipe_read_pass n p) = None \<longleftrightarrow> must_wait p"
  by (auto simp: pipe_read_pass_def must_wait_def Let_def split: prod.splits)

lemma pass_waits_eq: "must_wait p \<Longrightarrow> pipe_read_pass n p = (None, p)"
  by (simp add: pipe_read_pass_def must_wait_def)

lemma env_state_Cons: "env_state (e # env) (Suc k) p = env_state env k (snd e p)"
  by (simp add: env_state_def)

lemma pipe_read_loop_result:
  assumes "pipe_read_loop env n p = Some (r, q)"
  shows "\<exists>k \<le> length env. (\<forall>j < k. must_wait (env_state env j p) \<and> \<not> fst (env ! j)) \<and>
    (if must_wait (env_state env k p)
     then r = Inl EINTR \<and> q = env_state env k p \<and> k < length env \<and> fst (env ! k)
     else \<exists>bs. r = Inr bs \<and> pipe_read_pass n (env_state env k p) = (Some bs, q))"
  using assms
proof (induction env n p rule: pipe_read_loop.induct)
  case (1 n p)
  then show ?case
    using pass_waits [of n p]
    by (auto simp: env_state_def split: prod.splits option.splits)
next
  case (2 interrupted others env n p)
  show ?case
  proof (cases "must_wait p \<and> \<not> interrupted")
    case True
    then have "pipe_read_loop env n (others p) = Some (r, q)"
      using "2.prems" by (simp add: pass_waits_eq)
    from "2.IH" [OF pass_waits_eq [symmetric] refl _ this] True
    obtain k where k: "k \<le> length env"
      "\<forall>j < k. must_wait (env_state env j (others p)) \<and> \<not> fst (env ! j)"
      "if must_wait (env_state env k (others p))
       then r = Inl EINTR \<and> q = env_state env k (others p) \<and> k < length env \<and> fst (env ! k)
       else \<exists>bs. r = Inr bs \<and> pipe_read_pass n (env_state env k (others p)) = (Some bs, q)"
      by auto
    have "must_wait (env_state ((interrupted, others) # env) j p) \<and>
        \<not> fst (((interrupted, others) # env) ! j)" if "j < Suc k" for j
      using that k(2) True by (cases j) (auto simp: env_state_Cons, simp_all add: env_state_def)
    with k show ?thesis by (intro exI [of _ "Suc k"]) (auto simp: env_state_Cons)
  next
    case False
    then show ?thesis
      using "2.prems" pass_waits [of n p] pass_waits_eq [of p n]
      by (intro exI [of _ 0]) (auto simp: env_state_def split: prod.splits option.splits)
  qed
qed

lemma pipe_read_loop_blocks:
  "pipe_read_loop env n p = None \<longleftrightarrow>
    (\<forall>j \<le> length env. must_wait (env_state env j p)) \<and> (\<forall>e \<in> set env. \<not> fst e)"
proof (induction env n p rule: pipe_read_loop.induct)
  case (1 n p)
  then show ?case
    using pass_waits [of n p] by (auto simp: env_state_def split: prod.splits option.splits)
next
  case (2 interrupted others env n p)
  have all: "(\<forall>j \<le> Suc m. P j) \<longleftrightarrow> P 0 \<and> (\<forall>j \<le> m. P (Suc j))" for P and m :: nat
    by (metis Suc_le_mono le0 not0_implies_Suc)
  show ?case
  proof (cases "must_wait p \<and> \<not> interrupted")
    case True
    then show ?thesis
      using "2.IH" [OF pass_waits_eq [symmetric] refl]
      by (simp add: pass_waits_eq all env_state_Cons) (simp add: env_state_def)
  next
    case False
    then show ?thesis
      using pass_waits [of n p] pass_waits_eq [of p n]
      by (auto simp: env_state_def intro!: exI [of _ 0] split: prod.splits option.splits)
  qed
qed

declare pipe_write_loop.simps [simp del]

lemma drop_append_min: "drop k c @ x = drop (min k (length c)) (c @ x)"
  by (simp add: min_def)

lemma drop_take_split:
  assumes "tot \<le> m" and "m \<le> n"
  shows "take (m - tot) (drop tot bs) @ drop m (take n bs) = drop tot (take n bs)"
proof -
  have "n - tot = (m - tot) + (n - m)" using assms by simp
  then have "take (n - tot) (drop tot bs) =
      take (m - tot) (drop tot bs) @ take (n - m) (drop (m - tot) (drop tot bs))"
    by (simp only: take_add)
  then show ?thesis using assms by (simp add: drop_take)
qed

lemma pipe_write_loop_rules:
  "length bs \<le> tot \<Longrightarrow> pipe_write_loop env bs tot p = Some (Inr tot, False, p)"
  "tot < length bs \<Longrightarrow> pipe_write_pass (drop tot bs) p = (No_readers, q) \<Longrightarrow>
     pipe_write_loop env bs tot p =
       (if tot \<noteq> 0 then Some (Inr tot, False, q) else Some (Inl EPIPE, True, q))"
  "tot < length bs \<Longrightarrow> pipe_write_pass (drop tot bs) p = (Wrote n, q) \<Longrightarrow>
     pipe_write_loop env bs tot p = pipe_write_loop env bs (tot + n) q"
  "tot < length bs \<Longrightarrow> pipe_write_pass (drop tot bs) p = (Full, q) \<Longrightarrow>
     pipe_write_loop [] bs tot p = None"
  "tot < length bs \<Longrightarrow> pipe_write_pass (drop tot bs) p = (Full, q) \<Longrightarrow>
     pipe_write_loop ((i, f) # env) bs tot p =
       (if i then Some (if tot \<noteq> 0 then Inr tot else Inl EINTR, False, q)
        else pipe_write_loop env bs tot (f q))"
  by (subst pipe_write_loop.simps, simp)+

lemma delivers_wrote:
  assumes "delivers env bs (tot + m) p1 r sig q"
    and "pipe_contents p1 = pipe_contents p @ take m (drop tot bs)"
  shows "delivers env bs tot p r sig q"
proof -
  from assms(1) obtain n k where nk: "tot + m \<le> n" "n \<le> length bs" "pipe_inv q" "\<not> sig"
    "pipe_contents q = drop k (pipe_contents p1 @ drop (tot + m) (take n bs))"
    "r = Inr n \<and> (n = length bs \<or> (0 < n \<and> (\<exists>e \<in> set env. fst e))) \<or>
     r = Inl EINTR \<and> n = 0 \<and> (\<exists>e \<in> set env. fst e)"
    unfolding delivers_def by blast
  have "take m (drop tot bs) @ drop (tot + m) (take n bs) = drop tot (take n bs)"
    using drop_take_split [of tot "tot + m" n bs] nk(1) by simp
  then have "pipe_contents q = drop k (pipe_contents p @ drop tot (take n bs))"
    using nk(5) assms(2) by simp
  with nk show ?thesis unfolding delivers_def by (intro exI [of _ n] exI [of _ k] conjI) auto
qed

lemma delivers_consumed:
  assumes "delivers env bs tot (f p) r sig q" and "pipe_contents (f p) = drop k0 (pipe_contents p)"
  shows "delivers ((i, f) # env) bs tot p r sig q"
proof -
  from assms(1) obtain n k where nk: "tot \<le> n" "n \<le> length bs" "pipe_inv q" "\<not> sig"
    "pipe_contents q = drop k (pipe_contents (f p) @ drop tot (take n bs))"
    "r = Inr n \<and> (n = length bs \<or> (0 < n \<and> (\<exists>e \<in> set env. fst e))) \<or>
     r = Inl EINTR \<and> n = 0 \<and> (\<exists>e \<in> set env. fst e)"
    unfolding delivers_def by blast
  have "pipe_contents q =
      drop (k + min k0 (length (pipe_contents p))) (pipe_contents p @ drop tot (take n bs))"
    unfolding nk(5) assms(2) drop_append_min [of k0] by simp
  with nk show ?thesis unfolding delivers_def
    by (intro exI [of _ n] exI [of _ "k + min k0 (length (pipe_contents p))"] conjI) auto
qed

lemma delivers_now:
  assumes "pipe_inv p" and "tot \<le> length bs"
    and "tot = length bs \<and> r = Inr tot \<or> (\<exists>e \<in> set env. fst e) \<and> r = (if tot \<noteq> 0 then Inr tot else Inl EINTR)"
  shows "delivers env bs tot p r False p"
  unfolding delivers_def using assms
  by - (rule exI [of _ tot], rule exI [of _ 0], auto split: if_splits)

lemma write_loop_delivers:
  assumes "pipe_write_loop env bs tot p = Some (r, sig, q)"
    and "pipe_inv p" and "0 < p_readers p" and "\<forall>e \<in> set env. consumer (snd e)" and "tot \<le> length bs"
  shows "delivers env bs tot p r sig q"
  using assms
proof (induction "length env + (length bs - tot)" arbitrary: env tot p rule: less_induct)
  case less
  show ?case
  proof (cases "tot = length bs")
    case True
    with less.prems show ?thesis by (auto simp: pipe_write_loop_rules(1) intro: delivers_now)
  next
    case False
    with less.prems(5) have lt: "tot < length bs" by simp
    obtain w p1 where w: "pipe_write_pass (drop tot bs) p = (w, p1)"
      by (cases "pipe_write_pass (drop tot bs) p")
    note pass = pipe_write_pass_queue [OF less.prems(2) w]
    show ?thesis
    proof (cases w)
      case No_readers
      with pass less.prems(3) show ?thesis by simp
    next
      case (Wrote m)
      have m: "0 < m" "m \<le> length bs - tot" "0 < p_readers p1"
        using pipe_write_pass_progress [OF w [unfolded Wrote, symmetric]] lt pass Wrote w
        by (auto simp: pipe_write_pass_def Let_def split: if_splits)
      have "delivers env bs (tot + m) p1 r sig q"
        by (rule less.hyps) (use less.prems lt w Wrote m pass in \<open>auto simp: pipe_write_loop_rules(3)\<close>)
      then show ?thesis using pass Wrote by (auto intro: delivers_wrote)
    next
      case Full
      with w pass have full: "pipe_write_pass (drop tot bs) p = (Full, p)" by simp
      from less.prems(1) lt full obtain i f env' where env: "env = (i, f) # env'"
        by (cases env) (auto simp: pipe_write_loop_rules(4))
      show ?thesis
      proof (cases i)
        case True
        with less.prems lt full env show ?thesis
          by (auto simp: pipe_write_loop_rules(5) intro: delivers_now)
      next
        case False
        obtain k0 where f: "pipe_inv (f p)" "0 < p_readers (f p)"
          "pipe_contents (f p) = drop k0 (pipe_contents p)"
          using less.prems(2,3,4) env unfolding consumer_def by auto
        have "delivers env' bs tot (f p) r sig q"
          by (rule less.hyps) (use less.prems lt full env False f in \<open>auto simp: pipe_write_loop_rules(5)\<close>)
        then show ?thesis unfolding env by (rule delivers_consumed) (rule f)
      qed
    qed
  qed
qed

text \<open>
  (C8) Whatever the interleaving of reads, writes and descriptor changes on a new pipe,
  the bytes read so far followed by the bytes still buffered are exactly the
  bytes accepted from the writers, in order, and never more than the
  buffer size are buffered.
\<close>

theorem pipe_stream_history:
  "case fifo_run pipe_get pipe_put pipe_aux evs pipe_fresh of
     (q, rd, wr) \<Rightarrow> pipe_inv q \<and> wr = rd @ pipe_contents q \<and> length (pipe_contents q) \<le> PIPE_BUFFER_SIZE"
  using pipe_fifo.run_history [OF pipe_inv_fresh(1), of evs]
  by (cases "fifo_run pipe_get pipe_put pipe_aux evs pipe_fresh") simp

text \<open>
  (C9) A non-empty read waits exactly as long as the pipe is empty and a writer is left
  and no signal arrives; when it returns, it does so in the first state where that is
  not the case, with the first bytes of the queue (none only at end of file, when the
  last writer is gone), or with \<open>-EINTR\<close>.
\<close>

theorem pipe_read_outcome:
  assumes "0 < count" and "\<forall>k \<le> length env. pipe_inv (env_state env k p)"
  shows "case pipe_read env count p of
      None \<Rightarrow> (\<forall>k \<le> length env. must_wait (env_state env k p)) \<and> (\<forall>e \<in> set env. \<not> fst e)
    | Some (Inl e, q) \<Rightarrow> e = EINTR \<and> (\<exists>k < length env. fst (env ! k) \<and> q = env_state env k p)
    | Some (Inr bs, q) \<Rightarrow> (\<exists>k \<le> length env.
        (\<forall>j < k. must_wait (env_state env j p)) \<and> \<not> must_wait (env_state env k p) \<and>
        bs = take count (pipe_contents (env_state env k p)) \<and>
        pipe_contents q = drop count (pipe_contents (env_state env k p)) \<and>
        (bs = [] \<longleftrightarrow> p_data_size (env_state env k p) = 0 \<and> p_writers (env_state env k p) = 0))"
proof (cases "pipe_read_loop env count p")
  case None
  with assms(1) show ?thesis
    using pipe_read_loop_blocks [THEN iffD1, OF None] by (simp add: pipe_read_def)
next
  case (Some rq)
  obtain r q where rq: "rq = (r, q)" by (cases rq)
  from pipe_read_loop_result [OF Some [unfolded rq]] obtain k where k: "k \<le> length env"
    "\<forall>j < k. must_wait (env_state env j p)"
    "if must_wait (env_state env k p)
     then r = Inl EINTR \<and> q = env_state env k p \<and> k < length env \<and> fst (env ! k)
     else \<exists>bs. r = Inr bs \<and> pipe_read_pass count (env_state env k p) = (Some bs, q)"
    by blast
  show ?thesis
  proof (cases "must_wait (env_state env k p)")
    case True
    with k(3) Some rq assms(1) show ?thesis by (auto simp: pipe_read_def)
  next
    case False
    with k(3) obtain bs where bs: "r = Inr bs" "pipe_read_pass count (env_state env k p) = (Some bs, q)"
      by auto
    have inv: "pipe_inv (env_state env k p)" using assms(2) k(1) by simp
    from pipe_read_pass_queue [OF inv bs(2)]
    have "bs = take count (pipe_contents (env_state env k p))"
      "pipe_contents q = drop count (pipe_contents (env_state env k p))" by auto
    moreover have "bs = [] \<longleftrightarrow> p_data_size (env_state env k p) = 0 \<and> p_writers (env_state env k p) = 0"
      using calculation(1) False inv assms(1)
      by (auto simp: must_wait_def pipe_inv_def pipe_contents_def)
    ultimately show ?thesis
      using Some rq bs(1) k(1,2) False assms(1) by (auto simp: pipe_read_def)
  qed
qed

theorem pipe_read_outcome_witness:
  "pipe_read [(False, snd \<circ> pipe_put [7, 8])] 1 pipe_fresh \<noteq> None \<and>
   pipe_inv (env_state [(False, snd \<circ> pipe_put [7, 8])] 1 pipe_fresh)"
proof -
  have inv: "pipe_inv (snd (pipe_put [7, 8] pipe_fresh))"
    using pipe_fifo.put_queue [OF pipe_inv_fresh(1)] by (metis prod.collapse)
  have all: "(\<forall>k \<le> Suc 0. P k) \<longleftrightarrow> P 0 \<and> P (Suc 0)" for P :: "nat \<Rightarrow> bool"
    by (auto simp: le_Suc_eq)
  have "\<forall>k \<le> length [(False, snd \<circ> pipe_put [7, 8])].
      pipe_inv (env_state [(False, snd \<circ> pipe_put [7, 8])] k pipe_fresh)"
    using inv by (simp add: all env_state_def)
  from pipe_read_outcome [OF _ this, of 1] this show ?thesis
    by (auto simp: all env_state_def must_wait_def pipe_put_def pipe_write_pass_def pipe_fresh_def
        PIPE_BUFFER_SIZE_def split: option.splits)
qed



end
