(* ===== verification/Fd.thy ===== *)
theory Fd
  imports Prelude
begin

text \<open>
  File descriptor tables, \<^verbatim>\<open>src/proc/fd.c\<close>.  The pool of tables, the vnode reference
  counts and the state behind the vnode hooks form one record; the \<open>dup\<close> and
  \<open>release\<close> hooks of the vnodes are arguments.  The central fact is that the hooks are
  called once per descriptor slot gained and lost, so that a vnode that counts them
  knows how many descriptors refer to it.
\<close>

section \<open>State\<close>

definition FD_TABLE_SIZE :: nat where
  "FD_TABLE_SIZE = 256"

definition FD_TABLE_POOL_SIZE :: nat where
  "FD_TABLE_POOL_SIZE = 32"

record 'v fd_entry =
  fe_vnode :: 'v
  fe_flags :: int
  fe_offset :: int

text \<open>A slot whose \<open>vnode\<close> pointer is null is \<open>None\<close>.\<close>

type_synonym 'v fd_entries = "nat \<Rightarrow> 'v fd_entry option"

record ('v, 'w) fd_state =
  fd_tables :: "nat \<Rightarrow> 'v fd_entries"
  fd_table_used :: "nat \<Rightarrow> bool"
  fd_table_refcount :: "nat \<Rightarrow> nat"
  fd_vnode_refs :: "'v \<Rightarrow> nat"
  fd_world :: 'w

section \<open>Operations\<close>

definition fd_set_slot :: "nat \<Rightarrow> nat \<Rightarrow> 'v fd_entry option \<Rightarrow> ('v, 'w) fd_state \<Rightarrow> ('v, 'w) fd_state" where
  "fd_set_slot t fd x s = s\<lparr>fd_tables := (fd_tables s)(t := (fd_tables s t)(fd := x))\<rparr>"

definition fd_ref :: "'v \<Rightarrow> ('v, 'w) fd_state \<Rightarrow> ('v, 'w) fd_state" where
  "fd_ref v s = s\<lparr>fd_vnode_refs := (fd_vnode_refs s)(v := fd_vnode_refs s v + 1)\<rparr>"

definition fd_unref :: "'v \<Rightarrow> ('v, 'w) fd_state \<Rightarrow> ('v, 'w) fd_state" where
  "fd_unref v s =
    (if fd_vnode_refs s v \<noteq> 0
     then s\<lparr>fd_vnode_refs := (fd_vnode_refs s)(v := fd_vnode_refs s v - 1)\<rparr> else s)"

definition fd_notify :: "('v \<Rightarrow> 'w \<Rightarrow> 'w) \<Rightarrow> 'v \<Rightarrow> ('v, 'w) fd_state \<Rightarrow> ('v, 'w) fd_state" where
  "fd_notify hook v s = s\<lparr>fd_world := hook v (fd_world s)\<rparr>"

definition fd_table_create :: "('v, 'w) fd_state \<Rightarrow> nat option \<times> ('v, 'w) fd_state" where
  "fd_table_create s =
    (case find (\<lambda>i. \<not> fd_table_used s i) [0..<FD_TABLE_POOL_SIZE] of
       None \<Rightarrow> (None, s)
     | Some i \<Rightarrow> (Some i, s\<lparr>fd_table_used := (fd_table_used s)(i := True),
                           fd_tables := (fd_tables s)(i := (\<lambda>_. None)),
                           fd_table_refcount := (fd_table_refcount s)(i := 1)\<rparr>))"

definition fd_get :: "nat \<Rightarrow> int \<Rightarrow> ('v, 'w) fd_state \<Rightarrow> 'v fd_entry option" where
  "fd_get t fd s =
    (if fd < 0 \<or> fd \<ge> int FD_TABLE_SIZE then None else fd_tables s t (nat fd))"

definition fd_alloc :: "nat \<Rightarrow> 'v \<Rightarrow> int \<Rightarrow> ('v, 'w) fd_state \<Rightarrow> nat res \<times> ('v, 'w) fd_state" where
  "fd_alloc t vnode flags s =
    (case find (\<lambda>fd. fd_tables s t fd = None) [0..<FD_TABLE_SIZE] of
       None \<Rightarrow> (Inl EMFILE, s)
     | Some fd \<Rightarrow>
         (Inr fd, fd_ref vnode (fd_set_slot t fd
            (Some \<lparr>fe_vnode = vnode, fe_flags = flags, fe_offset = 0\<rparr>) s)))"

definition fd_put :: "('v \<Rightarrow> 'w \<Rightarrow> 'w) \<Rightarrow> nat \<Rightarrow> int \<Rightarrow> ('v, 'w) fd_state \<Rightarrow> ('v, 'w) fd_state" where
  "fd_put release t fd s =
    (case fd_get t fd s of
       None \<Rightarrow> s
     | Some e \<Rightarrow>
         fd_notify release (fe_vnode e) (fd_set_slot t (nat fd) None (fd_unref (fe_vnode e) s)))"

definition fd_install ::
    "('v \<Rightarrow> 'w \<Rightarrow> 'w) \<Rightarrow> nat \<Rightarrow> nat \<Rightarrow> 'v fd_entry \<Rightarrow> ('v, 'w) fd_state \<Rightarrow> ('v, 'w) fd_state" where
  "fd_install dup t fd e s =
    fd_notify dup (fe_vnode e) (fd_ref (fe_vnode e) (fd_set_slot t fd (Some e) s))"

definition fd_dup ::
    "('v \<Rightarrow> 'w \<Rightarrow> 'w) \<Rightarrow> ('v \<Rightarrow> 'w \<Rightarrow> 'w) \<Rightarrow> nat \<Rightarrow> int \<Rightarrow> int \<Rightarrow> ('v, 'w) fd_state \<Rightarrow>
     int res \<times> ('v, 'w) fd_state" where
  "fd_dup dup release t oldfd newfd s =
    (case fd_get t oldfd s of
       None \<Rightarrow> (Inl EBADF, s)
     | Some old \<Rightarrow>
         if newfd < 0 \<or> newfd \<ge> int FD_TABLE_SIZE then (Inl EBADF, s)
         else if oldfd = newfd then (Inr newfd, s)
         else (Inr newfd, fd_install dup t (nat newfd) old (fd_put release t newfd s)))"

definition fd_clone_slot ::
    "('v \<Rightarrow> 'w \<Rightarrow> 'w) \<Rightarrow> nat \<Rightarrow> nat \<Rightarrow> nat \<Rightarrow> ('v, 'w) fd_state \<Rightarrow> ('v, 'w) fd_state" where
  "fd_clone_slot dup source clone fd s =
    (case fd_tables s source fd of None \<Rightarrow> s | Some e \<Rightarrow> fd_install dup clone fd e s)"

definition fd_table_clone ::
    "('v \<Rightarrow> 'w \<Rightarrow> 'w) \<Rightarrow> nat \<Rightarrow> ('v, 'w) fd_state \<Rightarrow> nat option \<times> ('v, 'w) fd_state" where
  "fd_table_clone dup source s =
    (case fd_table_create s of
       (None, s1) \<Rightarrow> (None, s1)
     | (Some c, s1) \<Rightarrow> (Some c, fold (fd_clone_slot dup source c) [0..<FD_TABLE_SIZE] s1))"

definition fd_table_destroy ::
    "('v \<Rightarrow> 'w \<Rightarrow> 'w) \<Rightarrow> nat \<Rightarrow> ('v, 'w) fd_state \<Rightarrow> ('v, 'w) fd_state" where
  "fd_table_destroy release t s =
    (if t < FD_TABLE_POOL_SIZE
     then let s1 = fold (\<lambda>fd. fd_put release t (int fd)) [0..<FD_TABLE_SIZE] s
          in s1\<lparr>fd_tables := (fd_tables s1)(t := (\<lambda>_. None)),
                fd_table_refcount := (fd_table_refcount s1)(t := 0),
                fd_table_used := (fd_table_used s1)(t := False)\<rparr>
     else s)"

section \<open>Descriptor slots and the invariant\<close>

text \<open>The descriptor slots, over all tables, that refer to a vnode.\<close>

definition slot_set :: "'v \<Rightarrow> ('v, 'w) fd_state \<Rightarrow> (nat \<times> nat) set" where
  "slot_set v s = {(t, fd). t < FD_TABLE_POOL_SIZE \<and> fd < FD_TABLE_SIZE \<and>
                     (\<exists>e. fd_tables s t fd = Some e \<and> fe_vnode e = v)}"

definition slots :: "'v \<Rightarrow> ('v, 'w) fd_state \<Rightarrow> nat" where
  "slots v s = card (slot_set v s)"

text \<open>A table that is not in use has no descriptor.\<close>

definition fd_inv :: "('v, 'w) fd_state \<Rightarrow> bool" where
  "fd_inv s \<longleftrightarrow> (\<forall>t < FD_TABLE_POOL_SIZE. fd_table_used s t \<or> fd_tables s t = (\<lambda>_. None))"

text \<open>
  \<open>balanced winv count tracked\<close>: for the vnodes that count their descriptors, the count is
  the number of slots; \<open>winv\<close> is the invariant of the state behind the hooks.
\<close>

definition balanced :: "('w \<Rightarrow> bool) \<Rightarrow> ('w \<Rightarrow> 'v \<Rightarrow> nat) \<Rightarrow> ('v \<Rightarrow> bool) \<Rightarrow> ('v, 'w) fd_state \<Rightarrow> bool" where
  "balanced winv count tracked s \<longleftrightarrow>
     fd_inv s \<and> winv (fd_world s) \<and> (\<forall>v. tracked v \<longrightarrow> count (fd_world s) v = slots v s)"

definition refers :: "'v \<Rightarrow> 'v fd_entry option \<Rightarrow> bool" where
  "refers v x \<longleftrightarrow> (\<exists>e. x = Some e \<and> fe_vnode e = v)"

section \<open>Effect of the primitives\<close>

lemma fd_prim_simps [simp]:
  "fd_tables (fd_set_slot t fd x s) = (fd_tables s)(t := (fd_tables s t)(fd := x))"
  "fd_table_used (fd_set_slot t fd x s) = fd_table_used s"
  "fd_world (fd_set_slot t fd x s) = fd_world s"
  "fd_vnode_refs (fd_set_slot t fd x s) = fd_vnode_refs s"
  "fd_tables (fd_ref v s) = fd_tables s"
  "fd_table_used (fd_ref v s) = fd_table_used s"
  "fd_world (fd_ref v s) = fd_world s"
  "fd_tables (fd_unref v s) = fd_tables s"
  "fd_table_used (fd_unref v s) = fd_table_used s"
  "fd_world (fd_unref v s) = fd_world s"
  "fd_tables (fd_notify h v s) = fd_tables s"
  "fd_table_used (fd_notify h v s) = fd_table_used s"
  "fd_world (fd_notify h v s) = h v (fd_world s)"
  by (simp_all add: fd_set_slot_def fd_ref_def fd_unref_def fd_notify_def)

lemma slot_set_finite [simp]: "finite (slot_set v s)"
  by (rule finite_subset [of _ "{..<FD_TABLE_POOL_SIZE} \<times> {..<FD_TABLE_SIZE}"])
    (auto simp: slot_set_def)

lemma slots_tables: "fd_tables s = fd_tables s' \<Longrightarrow> slots v s = slots v s'"
  by (simp add: slots_def slot_set_def)

lemma slots_prim [simp]:
  "slots v (fd_ref u s) = slots v s"
  "slots v (fd_unref u s) = slots v s"
  "slots v (fd_notify h u s) = slots v s"
  by (rule slots_tables, simp)+

lemma slots_set_slot:
  assumes "t < FD_TABLE_POOL_SIZE" and "fd < FD_TABLE_SIZE"
  shows "slots v (fd_set_slot t fd x s) + of_bool (refers v (fd_tables s t fd)) =
         slots v s + of_bool (refers v x)"
proof -
  have set': "slot_set v (fd_set_slot t fd x s) =
      (if refers v x then insert (t, fd) (slot_set v s) else slot_set v s - {(t, fd)})"
    using assms by (auto simp: slot_set_def refers_def split: if_splits)
  have mem: "(t, fd) \<in> slot_set v s \<longleftrightarrow> refers v (fd_tables s t fd)"
    using assms by (auto simp: slot_set_def refers_def)
  then have "refers v (fd_tables s t fd) \<Longrightarrow> 0 < card (slot_set v s)"
    by (auto simp: card_gt_0_iff)
  with mem show ?thesis
    unfolding slots_def set' by (auto simp: card_insert_if card_Diff_singleton_if)
qed

lemma slots_pos:
  assumes "t < FD_TABLE_POOL_SIZE" and "fd < FD_TABLE_SIZE" and "fd_tables s t fd = Some e"
  shows "0 < slots (fe_vnode e) s"
proof -
  have "(t, fd) \<in> slot_set (fe_vnode e) s" using assms by (auto simp: slot_set_def)
  then show ?thesis by (auto simp: slots_def card_gt_0_iff)
qed

lemma fd_get_Some: "fd_get t fd s = Some e \<longleftrightarrow>
    0 \<le> fd \<and> fd < int FD_TABLE_SIZE \<and> fd_tables s t (nat fd) = Some e"
  by (auto simp: fd_get_def)

lemma fd_put_slot: "fd_tables (fd_put release t fd s) t' fd' =
    (if t' = t \<and> 0 \<le> fd \<and> fd < int FD_TABLE_SIZE \<and> fd' = nat fd then None else fd_tables s t' fd')"
  by (auto simp: fd_put_def fd_get_def split: option.splits)

lemma fd_put_used [simp]: "fd_table_used (fd_put release t fd s) = fd_table_used s"
  by (simp add: fd_put_def split: option.splits)

lemma fd_install_slot: "fd_tables (fd_install dup t fd e s) t' fd' =
    (if t' = t \<and> fd' = fd then Some e else fd_tables s t' fd')"
  by (auto simp: fd_install_def)

lemma fd_install_used [simp]: "fd_table_used (fd_install dup t fd e s) = fd_table_used s"
  by (simp add: fd_install_def)

lemma fd_table_create_cases:
  obtains (none) "fd_table_create s = (None, s)" "\<forall>i < FD_TABLE_POOL_SIZE. fd_table_used s i"
  | (some) i where "fd_table_create s = (Some i, s\<lparr>fd_table_used := (fd_table_used s)(i := True),
        fd_tables := (fd_tables s)(i := (\<lambda>_. None)),
        fd_table_refcount := (fd_table_refcount s)(i := 1)\<rparr>)"
      "i < FD_TABLE_POOL_SIZE" "\<not> fd_table_used s i"
proof (cases "find (\<lambda>i. \<not> fd_table_used s i) [0..<FD_TABLE_POOL_SIZE]")
  case None
  show ?thesis
  proof (rule none)
    show "fd_table_create s = (None, s)" by (simp add: fd_table_create_def None)
    show "\<forall>i < FD_TABLE_POOL_SIZE. fd_table_used s i" using None by (auto simp: find_None_iff)
  qed
next
  case (Some i)
  then show ?thesis by (intro some [of i]) (auto simp: fd_table_create_def dest!: find_SomeD)
qed

lemma fd_alloc_cases:
  obtains (full) "fd_alloc t v fl s = (Inl EMFILE, s)" "\<forall>fd < FD_TABLE_SIZE. fd_tables s t fd \<noteq> None"
  | (slot) fd where "fd_alloc t v fl s = (Inr fd, fd_ref v (fd_set_slot t fd
        (Some \<lparr>fe_vnode = v, fe_flags = fl, fe_offset = 0\<rparr>) s))"
      "fd < FD_TABLE_SIZE" "fd_tables s t fd = None" "\<forall>fd' < fd. fd_tables s t fd' \<noteq> None"
proof (cases "find (\<lambda>fd. fd_tables s t fd = None) [0..<FD_TABLE_SIZE]")
  case None
  show ?thesis
  proof (rule full)
    show "fd_alloc t v fl s = (Inl EMFILE, s)" by (simp add: fd_alloc_def None)
    show "\<forall>fd < FD_TABLE_SIZE. fd_tables s t fd \<noteq> None" using None by (auto simp: find_None_iff)
  qed
next
  case (Some fd)
  then obtain i where i: "i < FD_TABLE_SIZE" "fd = i" "fd_tables s t i = None"
    "\<forall>j < i. fd_tables s t j \<noteq> None"
    by (auto simp: find_Some_iff)
  show ?thesis by (rule slot [of fd]) (use i Some in \<open>auto simp: fd_alloc_def\<close>)
qed

lemma fd_alloc_slots:
  assumes "fd_alloc t u fl s = (Inr fd, s')" and "t < FD_TABLE_POOL_SIZE"
  shows "slots v s' = slots v s + of_bool (v = u) \<and> fd_world s' = fd_world s \<and>
    fd_table_used s' = fd_table_used s \<and> fd < FD_TABLE_SIZE \<and>
    fd_get t (int fd) s' = Some \<lparr>fe_vnode = u, fe_flags = fl, fe_offset = 0\<rparr> \<and>
    (fd_inv s \<longrightarrow> fd_table_used s t \<longrightarrow> fd_inv s')"
proof (cases rule: fd_alloc_cases [of t u fl s])
  case full
  with assms show ?thesis by simp
next
  case (slot fd')
  then show ?thesis
    using assms slots_set_slot [OF assms(2) slot(2), of v "Some \<lparr>fe_vnode = u, fe_flags = fl, fe_offset = 0\<rparr>" s]
    by (auto simp: refers_def fd_get_def fd_inv_def)
qed

lemma fd_put_slots:
  assumes "fd_get t fd s = Some e" and "t < FD_TABLE_POOL_SIZE"
  shows "slots v (fd_put release t fd s) + of_bool (v = fe_vnode e) = slots v s \<and>
    fd_world (fd_put release t fd s) = release (fe_vnode e) (fd_world s) \<and>
    (fd_inv s \<longrightarrow> fd_inv (fd_put release t fd s))"
proof -
  have fd: "nat fd < FD_TABLE_SIZE" and e: "fd_tables s t (nat fd) = Some e"
    using assms(1) by (auto simp: fd_get_Some)
  have "fd_inv s \<longrightarrow> fd_inv (fd_put release t fd s)"
    by (auto simp: fd_inv_def fd_put_slot fun_eq_iff)
  with slots_set_slot [OF assms(2) fd, of v None "fd_unref (fe_vnode e) s"] e assms(1) show ?thesis
    by (auto simp: fd_put_def refers_def)
qed

section \<open>Hooks that count descriptors\<close>

locale descriptor_hooks =
  fixes winv :: "'w \<Rightarrow> bool"
    and count :: "'w \<Rightarrow> 'v \<Rightarrow> nat"
    and tracked :: "'v \<Rightarrow> bool"
    and dup :: "'v \<Rightarrow> 'w \<Rightarrow> 'w"
    and release :: "'v \<Rightarrow> 'w \<Rightarrow> 'w"
  assumes dup_count: "winv w \<Longrightarrow> tracked u \<Longrightarrow> tracked v \<longrightarrow> 0 < count w v \<Longrightarrow>
      count (dup v w) u = count w u + of_bool (u = v)"
    and dup_winv: "winv w \<Longrightarrow> tracked v \<longrightarrow> 0 < count w v \<Longrightarrow> winv (dup v w)"
    and release_winv: "winv w \<Longrightarrow> winv (release v w)"
    and release_count: "winv w \<Longrightarrow> tracked u \<Longrightarrow> count (release v w) u = count w u - of_bool (u = v)"
begin

lemma put_balanced:
  assumes "balanced winv count tracked s" and "t < FD_TABLE_POOL_SIZE"
  shows "balanced winv count tracked (fd_put release t fd s)"
proof (cases "fd_get t fd s")
  case None
  with assms show ?thesis by (simp add: fd_put_def)
next
  case (Some e)
  then have fd: "nat fd < FD_TABLE_SIZE" and e: "fd_tables s t (nat fd) = Some e"
    by (auto simp: fd_get_Some)
  note eff = fd_put_slots [OF Some assms(2)]
  have "fd_inv (fd_put release t fd s)" using assms(1) eff by (simp add: balanced_def)
  moreover have "count (fd_world (fd_put release t fd s)) v = slots v (fd_put release t fd s)"
    if "tracked v" for v
    using eff [of v release] release_count [OF _ that, of "fd_world s" "fe_vnode e"] assms(1) that
    by (auto simp: balanced_def split: if_splits)
  moreover have "winv (fd_world (fd_put release t fd s))"
    using assms(1) Some by (auto simp: fd_put_def balanced_def intro: release_winv)
  ultimately show ?thesis by (simp add: balanced_def)
qed

lemma install_balanced:
  assumes "balanced winv count tracked s" and t: "t < FD_TABLE_POOL_SIZE" and fd: "fd < FD_TABLE_SIZE"
    and "fd_table_used s t" and "fd_tables s t fd = None" and "0 < slots (fe_vnode e) s"
  shows "balanced winv count tracked (fd_install dup t fd e s)"
proof -
  have "fd_inv (fd_install dup t fd e s)"
    using assms by (auto simp: balanced_def fd_inv_def fd_install_slot fun_eq_iff)
  moreover have "count (fd_world (fd_install dup t fd e s)) v = slots v (fd_install dup t fd e s)"
    if "tracked v" for v
    using slots_set_slot [OF t fd, of v "Some e" s] assms(1,5) that
      dup_count [OF _ that, of "fd_world s" "fe_vnode e"] assms(6)
    by (auto simp: fd_install_def balanced_def refers_def split: if_splits)
  moreover have "winv (fd_world (fd_install dup t fd e s))"
    using assms(1,6) by (auto simp: fd_install_def balanced_def intro: dup_winv)
  ultimately show ?thesis by (simp add: balanced_def)
qed

lemma dup_balanced:
  assumes "balanced winv count tracked s" and "t < FD_TABLE_POOL_SIZE" and "fd_table_used s t"
  shows "balanced winv count tracked (snd (fd_dup dup release t oldfd newfd s))"
proof (cases "fd_get t oldfd s")
  case (Some e)
  show ?thesis
  proof (cases "newfd < 0 \<or> newfd \<ge> int FD_TABLE_SIZE \<or> oldfd = newfd")
    case False
    have "fd_tables (fd_put release t newfd s) t (nat oldfd) = Some e" "nat oldfd < FD_TABLE_SIZE"
      using Some False by (auto simp: fd_put_slot fd_get_Some)
    then have "0 < slots (fe_vnode e) (fd_put release t newfd s)"
      using slots_pos assms(2) by blast
    then have "balanced winv count tracked (fd_install dup t (nat newfd) e (fd_put release t newfd s))"
      using False assms by (intro install_balanced put_balanced) (auto simp: fd_put_slot)
    with False Some show ?thesis by (auto simp: fd_dup_def)
  qed (use Some assms in \<open>auto simp: fd_dup_def\<close>)
qed (use assms in \<open>simp add: fd_dup_def\<close>)

lemma create_balanced:
  assumes "balanced winv count tracked s"
  shows "balanced winv count tracked (snd (fd_table_create s))"
proof (cases rule: fd_table_create_cases [of s])
  case none
  with assms show ?thesis by simp
next
  case (some i)
  then have "fd_tables s i = (\<lambda>_. None)" using assms by (auto simp: balanced_def fd_inv_def)
  then have "(fd_tables s)(i := (\<lambda>_. None)) = fd_tables s" by (simp add: fun_upd_idem)
  with some assms show ?thesis
    by (auto simp: balanced_def fd_inv_def slots_def slot_set_def)
qed

lemma clone_slots_balanced:
  assumes "balanced winv count tracked s" and "c < FD_TABLE_POOL_SIZE" and "fd_table_used s c"
    and "source \<noteq> c" and "source < FD_TABLE_POOL_SIZE" and "\<forall>fd \<in> set fds. fd < FD_TABLE_SIZE \<and> fd_tables s c fd = None" and "distinct fds"
  shows "balanced winv count tracked (fold (fd_clone_slot dup source c) fds s)"
  using assms
proof (induction fds arbitrary: s)
  case (Cons fd fds)
  let ?s = "fd_clone_slot dup source c fd s"
  have "balanced winv count tracked ?s" "fd_table_used ?s c"
    using Cons.prems
    by (auto simp: fd_clone_slot_def intro!: install_balanced slots_pos [of source fd] split: option.splits)
  moreover have "\<forall>fd' \<in> set fds. fd' < FD_TABLE_SIZE \<and> fd_tables ?s c fd' = None"
    using Cons.prems by (auto simp: fd_clone_slot_def fd_install_slot split: option.splits)
  ultimately show ?case using Cons.IH [of ?s] Cons.prems by simp
qed simp

lemma clone_balanced:
  assumes "balanced winv count tracked s" and "fd_table_used s source"
    and "source < FD_TABLE_POOL_SIZE"
  shows "balanced winv count tracked (snd (fd_table_clone dup source s))"
proof (cases rule: fd_table_create_cases [of s])
  case none
  with assms show ?thesis by (simp add: fd_table_clone_def)
next
  case (some i)
  then show ?thesis
    using create_balanced [OF assms(1)] assms(2,3)
    by (auto simp: fd_table_clone_def intro!: clone_slots_balanced)
qed

lemma put_all_balanced:
  "balanced winv count tracked s \<Longrightarrow> t < FD_TABLE_POOL_SIZE \<Longrightarrow>
   balanced winv count tracked (fold (\<lambda>fd. fd_put release t (int fd)) fds s)"
  by (induction fds arbitrary: s) (simp_all add: put_balanced)

lemma put_all_empty:
  "fd_tables (fold (\<lambda>fd. fd_put release t (int fd)) fds s) t fd =
    (if fd < FD_TABLE_SIZE \<and> fd \<in> set fds then None else fd_tables s t fd)"
  by (induction fds arbitrary: s) (auto simp: fd_put_slot)

lemma destroy_balanced:
  assumes "balanced winv count tracked s" and "t < FD_TABLE_POOL_SIZE"
  shows "balanced winv count tracked (fd_table_destroy release t s)"
proof -
  define s1 where "s1 = fold (\<lambda>fd. fd_put release t (int fd)) [0..<FD_TABLE_SIZE] s"
  have s1: "balanced winv count tracked s1" unfolding s1_def by (rule put_all_balanced) fact+
  have "fd < FD_TABLE_SIZE \<Longrightarrow> fd_tables s1 t fd = None" for fd
    by (simp add: s1_def put_all_empty)
  then have "slot_set v (fd_table_destroy release t s) = slot_set v s1" for v
    using assms(2) by (auto simp: slot_set_def fd_table_destroy_def Let_def s1_def [symmetric] split: if_splits)
  with s1 assms(2) show ?thesis
    by (auto simp: balanced_def fd_inv_def slots_def) (auto simp: fd_table_destroy_def Let_def s1_def [symmetric])
qed

end

section \<open>Properties\<close>


end
