(* ===== verification/PipeFd.thy ===== *)
theory PipeFd
  imports Pipe Fd
begin

text \<open>
  Pipes behind descriptors: the vnode hooks of \<^verbatim>\<open>src/proc/pipe.c\<close>, \<open>pipe_create\<close>, and the
  claim of that file's header comment that the hooks keep \<open>readers\<close> and \<open>writers\<close> equal
  to the number of open descriptors.
\<close>

section \<open>Definitions\<close>

text \<open>The vnodes a descriptor can refer to: an end of pipe \<open>i\<close> of the pool, or some other vnode.\<close>

datatype fd_vnode = Pipe_read_end nat | Pipe_write_end nat | Other_vnode nat

fun pipe_hook :: "int \<Rightarrow> fd_vnode \<Rightarrow> (nat \<Rightarrow> pipe) \<Rightarrow> (nat \<Rightarrow> pipe)" where
  "pipe_hook delta (Pipe_read_end i) pipes = pipes(i := pipe_adjust True delta (pipes i))"
| "pipe_hook delta (Pipe_write_end i) pipes = pipes(i := pipe_adjust False delta (pipes i))"
| "pipe_hook delta (Other_vnode n) pipes = pipes"

definition pipe_dup :: "fd_vnode \<Rightarrow> (nat \<Rightarrow> pipe) \<Rightarrow> (nat \<Rightarrow> pipe)" where
  "pipe_dup = pipe_hook 1"

definition pipe_release :: "fd_vnode \<Rightarrow> (nat \<Rightarrow> pipe) \<Rightarrow> (nat \<Rightarrow> pipe)" where
  "pipe_release = pipe_hook (- 1)"

type_synonym pipe_fds = "(fd_vnode, nat \<Rightarrow> pipe) fd_state"

text \<open>\<open>cur\<close> is the descriptor table of the current process, if there is one.\<close>

definition pipe_create :: "nat option \<Rightarrow> pipe_fds \<Rightarrow> (nat \<times> nat) res \<times> pipe_fds" where
  "pipe_create cur s =
    (case cur of
       None \<Rightarrow> (Inl ESRCH, s)
     | Some t \<Rightarrow>
         (case pipe_alloc (fd_world s) of
            (None, _) \<Rightarrow> (Inl ENFILE, s)
          | (Some i, pipes) \<Rightarrow>
              (case fd_alloc t (Pipe_read_end i) 0 (s\<lparr>fd_world := pipes\<rparr>) of
                 (Inl e, s1) \<Rightarrow>
                   (Inl e, s1\<lparr>fd_world := (fd_world s1)
                      (i := pipe_close_write (pipe_close_read (fd_world s1 i)))\<rparr>)
               | (Inr read_fd, s1) \<Rightarrow>
                   (case fd_alloc t (Pipe_write_end i) 1 s1 of
                      (Inl e, s2) \<Rightarrow>
                        let s3 = fd_put pipe_release t (int read_fd) s2
                        in (Inl e, s3\<lparr>fd_world := (fd_world s3)
                              (i := pipe_close_write (fd_world s3 i))\<rparr>)
                    | (Inr write_fd, s2) \<Rightarrow> (Inr (read_fd, write_fd), s2)))))"

text \<open>System calls on descriptors, each by a process with a live table.\<close>

datatype fd_op =
    Op_table_create | Op_pipe nat | Op_dup nat int int | Op_close nat int
  | Op_fork nat | Op_exit nat

fun fd_op_table :: "fd_op \<Rightarrow> nat option" where
  "fd_op_table Op_table_create = None"
| "fd_op_table (Op_pipe t) = Some t"
| "fd_op_table (Op_dup t oldfd newfd) = Some t"
| "fd_op_table (Op_close t fd) = Some t"
| "fd_op_table (Op_fork t) = Some t"
| "fd_op_table (Op_exit t) = Some t"

fun fd_op_exec :: "fd_op \<Rightarrow> pipe_fds \<Rightarrow> pipe_fds" where
  "fd_op_exec Op_table_create s = snd (fd_table_create s)"
| "fd_op_exec (Op_pipe t) s = snd (pipe_create (Some t) s)"
| "fd_op_exec (Op_dup t oldfd newfd) s = snd (fd_dup pipe_dup pipe_release t oldfd newfd s)"
| "fd_op_exec (Op_close t fd) s = fd_put pipe_release t fd s"
| "fd_op_exec (Op_fork t) s = snd (fd_table_clone pipe_dup t s)"
| "fd_op_exec (Op_exit t) s = fd_table_destroy pipe_release t s"

definition fd_op_live :: "fd_op \<Rightarrow> pipe_fds \<Rightarrow> bool" where
  "fd_op_live op s \<longleftrightarrow>
    (case fd_op_table op of
       None \<Rightarrow> True | Some t \<Rightarrow> t < FD_TABLE_POOL_SIZE \<and> fd_table_used s t)"

definition pipe_zero :: pipe where
  "pipe_zero = \<lparr>p_buffer = (\<lambda>_. 0), p_read_pos = 0, p_write_pos = 0, p_data_size = 0,
                p_readers = 0, p_writers = 0, p_in_use = False\<rparr>"

definition fd_boot :: pipe_fds where
  "fd_boot = \<lparr>fd_tables = (\<lambda>_ _. None), fd_table_used = (\<lambda>_. False),
              fd_table_refcount = (\<lambda>_. 0), fd_vnode_refs = (\<lambda>_. 0), fd_world = (\<lambda>_. pipe_zero)\<rparr>"

inductive fd_reachable :: "pipe_fds \<Rightarrow> bool" where
  boot: "fd_reachable fd_boot"
| step: "fd_reachable s \<Longrightarrow> fd_op_live op s \<Longrightarrow> fd_reachable (fd_op_exec op s)"

text \<open>What the two ends of a pipe count, and the vnodes that count.\<close>

fun end_count :: "(nat \<Rightarrow> pipe) \<Rightarrow> fd_vnode \<Rightarrow> nat" where
  "end_count pipes (Pipe_read_end i) = nat (p_readers (pipes i))"
| "end_count pipes (Pipe_write_end i) = nat (p_writers (pipes i))"
| "end_count pipes (Other_vnode n) = 0"

fun is_pipe_end :: "fd_vnode \<Rightarrow> bool" where
  "is_pipe_end (Other_vnode n) = False"
| "is_pipe_end v = True"

definition pool_ok :: "(nat \<Rightarrow> pipe) \<Rightarrow> bool" where
  "pool_ok pipes \<longleftrightarrow> (\<forall>i. pipe_inv (pipes i) \<and>
     (p_in_use (pipes i) \<longleftrightarrow> p_readers (pipes i) \<noteq> 0 \<or> p_writers (pipes i) \<noteq> 0))"

definition fd_pipe_inv :: "pipe_fds \<Rightarrow> bool" where
  "fd_pipe_inv s \<longleftrightarrow> balanced pool_ok end_count is_pipe_end s"

section \<open>The hooks count descriptors\<close>

lemma adjust_counts:
  "p_readers (pipe_adjust r d p) = (if r then max 0 (p_readers p + d) else p_readers p)"
  "p_writers (pipe_adjust r d p) = (if r then p_writers p else max 0 (p_writers p + d))"
  "p_in_use (pipe_adjust r d p) \<longleftrightarrow>
     p_in_use p \<and> (p_readers (pipe_adjust r d p) \<noteq> 0 \<or> p_writers (pipe_adjust r d p) \<noteq> 0)"
  by (auto simp: pipe_adjust_def Let_def)

lemma pool_ok_upd:
  "pool_ok w \<Longrightarrow> pipe_inv p \<Longrightarrow> (p_in_use p \<longleftrightarrow> p_readers p \<noteq> 0 \<or> p_writers p \<noteq> 0) \<Longrightarrow> pool_ok (w(i := p))"
  by (simp add: pool_ok_def)

lemma pool_okD:
  assumes "pool_ok w"
  shows "pipe_inv (w i)" "0 \<le> p_readers (w i)" "0 \<le> p_writers (w i)"
    "p_in_use (w i) \<longleftrightarrow> p_readers (w i) \<noteq> 0 \<or> p_writers (w i) \<noteq> 0"
  using assms by (auto simp: pool_ok_def pipe_inv_def)

interpretation pipe_ends: descriptor_hooks pool_ok end_count is_pipe_end pipe_dup pipe_release
proof
  fix u v :: fd_vnode and w :: "nat \<Rightarrow> pipe"
  assume w: "pool_ok w"
  note wD = pool_okD [OF w]
  show "is_pipe_end u \<Longrightarrow> end_count (pipe_release v w) u = end_count w u - of_bool (u = v)"
    by (cases u; cases v) (auto simp: pipe_release_def adjust_counts)
  show "is_pipe_end u \<Longrightarrow> end_count (pipe_dup v w) u = end_count w u + of_bool (u = v)"
    using wD by (cases u; cases v) (auto simp: pipe_dup_def adjust_counts nat_add_distrib)
  show "pool_ok (pipe_release v w)"
    using w wD by (cases v)
      (auto simp: pipe_release_def adjust_counts pipe_adjust_queue intro!: pool_ok_upd)
  show "is_pipe_end v \<longrightarrow> 0 < end_count w v \<Longrightarrow> pool_ok (pipe_dup v w)"
    using w wD by (cases v)
      (auto simp: pipe_dup_def adjust_counts pipe_adjust_queue intro!: pool_ok_upd)
qed

lemma pipe_alloc_cases:
  obtains (none) "pipe_alloc w = (None, w)"
  | (some) i where "pipe_alloc w = (Some i, w(i := pipe_fresh))" "\<not> p_in_use (w i)"
proof (cases "find (\<lambda>i. \<not> p_in_use (w i)) [0..<PIPE_MAX_PIPES]")
  case None
  then show ?thesis by (intro none) (simp add: pipe_alloc_def)
next
  case (Some i)
  then show ?thesis by (intro some [of i]) (auto simp: pipe_alloc_def dest!: find_SomeD)
qed

text \<open>Both ends of a new pipe, with no descriptor yet, and of one whose ends were just dropped.\<close>

lemma fresh_pipe [simp]:
  "p_readers pipe_fresh = 1" "p_writers pipe_fresh = 1" "p_in_use pipe_fresh"
  by (simp_all add: pipe_fresh_def)

lemma closed_pipe [simp]:
  "p_readers (pipe_close_write (pipe_close_read pipe_fresh)) = 0"
  "p_writers (pipe_close_write (pipe_close_read pipe_fresh)) = 0"
  "\<not> p_in_use (pipe_close_write (pipe_close_read pipe_fresh))"
  "pipe_inv (pipe_close_write (pipe_close_read pipe_fresh))"
  by (simp_all add: pipe_close_read_def pipe_close_write_def adjust_counts pipe_adjust_queue)

lemma balanced_world:
  assumes "fd_inv s" and "pool_ok w"
    and "\<And>v. is_pipe_end v \<Longrightarrow> end_count w v = slots v s"
  shows "fd_pipe_inv (s\<lparr>fd_world := w\<rparr>)"
proof -
  have "slots v (s\<lparr>fd_world := w\<rparr>) = slots v s" for v by (rule slots_tables) simp
  with assms show ?thesis by (simp add: fd_pipe_inv_def balanced_def fd_inv_def)
qed

lemma slots_world [simp]: "slots v (s\<lparr>fd_world := w\<rparr>) = slots v s"
  by (rule slots_tables) simp

lemma fd_inv_world [simp]: "fd_inv (s\<lparr>fd_world := w\<rparr>) = fd_inv s"
  by (simp add: fd_inv_def)

lemma fresh_ends:
  assumes "fd_pipe_inv s" and "\<not> p_in_use (fd_world s i)"
  shows "slots (Pipe_read_end i) s = 0" and "slots (Pipe_write_end i) s = 0"
proof -
  have s: "pool_ok (fd_world s)" "\<And>v. is_pipe_end v \<Longrightarrow> end_count (fd_world s) v = slots v s"
    using assms(1) by (auto simp: fd_pipe_inv_def balanced_def)
  then have "p_readers (fd_world s i) = 0" "p_writers (fd_world s i) = 0"
    using pool_okD(4) [OF s(1), of i] assms(2) by auto
  then show "slots (Pipe_read_end i) s = 0" "slots (Pipe_write_end i) s = 0"
    using s(2) [of "Pipe_read_end i"] s(2) [of "Pipe_write_end i"] by auto
qed

text \<open>
  Replacing pipe \<open>i\<close>, which had no descriptors, by a pipe whose counts are the slots it
  has by now, keeps the invariant.
\<close>

lemma fd_pipe_inv_replace:
  assumes "fd_pipe_inv s" and "fd_inv u" and "pipe_inv p"
    and "p_in_use p \<longleftrightarrow> p_readers p \<noteq> 0 \<or> p_writers p \<noteq> 0"
    and "\<And>v. v \<noteq> Pipe_read_end i \<Longrightarrow> v \<noteq> Pipe_write_end i \<Longrightarrow> slots v u = slots v s"
    and "nat (p_readers p) = slots (Pipe_read_end i) u"
    and "nat (p_writers p) = slots (Pipe_write_end i) u"
  shows "fd_pipe_inv (u\<lparr>fd_world := (fd_world s)(i := p)\<rparr>)"
proof (rule balanced_world)
  have s: "pool_ok (fd_world s)" "\<And>v. is_pipe_end v \<Longrightarrow> end_count (fd_world s) v = slots v s"
    using assms(1) by (auto simp: fd_pipe_inv_def balanced_def)
  show "pool_ok ((fd_world s)(i := p))" by (rule pool_ok_upd) (use s assms in auto)
  fix v assume "is_pipe_end v"
  then show "end_count ((fd_world s)(i := p)) v = slots v u"
    using s(2) [of v] assms(5) [of v] assms(6,7) by (cases v) auto
qed fact

lemma pipe_create_inv:
  assumes inv: "fd_pipe_inv s" and t: "t < FD_TABLE_POOL_SIZE" "fd_table_used s t"
  shows "fd_pipe_inv (snd (pipe_create (Some t) s))"
proof (cases rule: pipe_alloc_cases [of "fd_world s"])
  case none
  with inv show ?thesis by (simp add: pipe_create_def)
next
  case (some i)
  define s0 where "s0 = s\<lparr>fd_world := (fd_world s)(i := pipe_fresh)\<rparr>"
  have s0: "fd_inv s0" "\<And>v. slots v s0 = slots v s" "fd_table_used s0 t" "fd_inv s"
    using inv t by (auto simp: s0_def fd_pipe_inv_def balanced_def)
  note zero = fresh_ends [OF inv some(2)]
  show ?thesis
  proof (cases rule: fd_alloc_cases [of t "Pipe_read_end i" 0 s0])
    case full
    then have "snd (pipe_create (Some t) s) = s0\<lparr>fd_world := (fd_world s)
        (i := pipe_close_write (pipe_close_read pipe_fresh))\<rparr>"
      using some by (simp add: pipe_create_def s0_def [symmetric]) (simp add: s0_def)
    then show ?thesis
      using fd_pipe_inv_replace [OF inv s0(1)] s0(2) zero by simp
  next
    case (slot rfd)
    define s1 where "s1 = snd (fd_alloc t (Pipe_read_end i) 0 s0)"
    have a1: "fd_alloc t (Pipe_read_end i) 0 s0 = (Inr rfd, s1)" using slot by (simp add: s1_def)
    note s1 = fd_alloc_slots [OF a1 t(1)]
    show ?thesis
    proof (cases rule: fd_alloc_cases [of t "Pipe_write_end i" 1 s1])
      case full
      note s3 = fd_put_slots [OF _ t(1), of "int rfd" s1 "\<lparr>fe_vnode = Pipe_read_end i, fe_flags = 0, fe_offset = 0\<rparr>" _ pipe_release]
      have "snd (pipe_create (Some t) s) = (fd_put pipe_release t (int rfd) s1)\<lparr>fd_world := (fd_world s)
          (i := pipe_close_write (pipe_close_read pipe_fresh))\<rparr>"
        using some a1 full s1 s3
        by (simp add: pipe_create_def s0_def [symmetric] Let_def)
          (simp add: s0_def pipe_release_def pipe_close_read_def)
      moreover have "slots v (fd_put pipe_release t (int rfd) s1) = slots v s" for v
        using s1 [of v] s3 [of v] s0(2) [of v] by auto
      moreover have "fd_inv (fd_put pipe_release t (int rfd) s1)" using s1 s3 s0 by auto
      ultimately show ?thesis
        using fd_pipe_inv_replace [OF inv, of "fd_put pipe_release t (int rfd) s1"] zero by simp
    next
      case w: (slot wfd)
      define s2 where "s2 = snd (fd_alloc t (Pipe_write_end i) 1 s1)"
      have a2: "fd_alloc t (Pipe_write_end i) 1 s1 = (Inr wfd, s2)" using w by (simp add: s2_def)
      note s2 = fd_alloc_slots [OF a2 t(1)]
      have "snd (pipe_create (Some t) s) = s2\<lparr>fd_world := (fd_world s)(i := pipe_fresh)\<rparr>"
        using some a1 a2 s1 s2 by (simp add: pipe_create_def s0_def [symmetric]) (simp add: s0_def)
      moreover have "fd_inv s2" using s1 s2 s0 by auto
      ultimately show ?thesis
        using fd_pipe_inv_replace [OF inv, of s2 pipe_fresh i] zero s1 s2 s0(2) by simp
    qed
  qed
qed

lemma fd_pipe_inv_exec [inv_intros]:
  assumes "fd_pipe_inv s" and "fd_op_live op s"
  shows "fd_pipe_inv (fd_op_exec op s)"
  using assms pipe_ends.create_balanced [of s] pipe_ends.dup_balanced [of s] pipe_ends.put_balanced [of s]
    pipe_ends.clone_balanced [of s] pipe_ends.destroy_balanced [of s] pipe_create_inv [of s]
  by (cases op) (auto simp: fd_pipe_inv_def fd_op_live_def)

lemma fd_pipe_inv_reachable: "fd_reachable s \<Longrightarrow> fd_pipe_inv s"
proof (induction rule: fd_reachable.induct)
  case boot
  have "is_pipe_end v \<Longrightarrow> end_count (\<lambda>_. pipe_zero) v = 0" for v
    by (cases v) (simp_all add: pipe_zero_def)
  then show ?case
    by (simp add: fd_boot_def fd_pipe_inv_def balanced_def fd_inv_def pool_ok_def pipe_inv_def
        slots_def slot_set_def) (simp add: pipe_zero_def)
qed (rule fd_pipe_inv_exec)

section \<open>Properties\<close>

text \<open>
  (C11) In every state reachable by creating pipes, duplicating and closing descriptors,
  forking and exiting, the reader and writer counts of a pipe are the numbers of
  descriptors, over all processes, that refer to its read and write end, and a pipe is
  free for reuse exactly when no descriptor refers to either end.
\<close>

theorem pipe_counts_descriptors:
  assumes "fd_reachable s"
  shows "p_readers (fd_world s i) = int (slots (Pipe_read_end i) s) \<and>
    p_writers (fd_world s i) = int (slots (Pipe_write_end i) s) \<and>
    (\<not> p_in_use (fd_world s i) \<longleftrightarrow>
      slot_set (Pipe_read_end i) s = {} \<and> slot_set (Pipe_write_end i) s = {})"
proof -
  have s: "pool_ok (fd_world s)" "\<And>v. is_pipe_end v \<Longrightarrow> end_count (fd_world s) v = slots v s"
    using fd_pipe_inv_reachable [OF assms] by (auto simp: fd_pipe_inv_def balanced_def)
  note wD = pool_okD [OF s(1), of i]
  have r: "p_readers (fd_world s i) = int (slots (Pipe_read_end i) s)"
    using s(2) [of "Pipe_read_end i"] wD(2) by simp
  have w: "p_writers (fd_world s i) = int (slots (Pipe_write_end i) s)"
    using s(2) [of "Pipe_write_end i"] wD(3) by simp
  show ?thesis using r w wD(4) by (auto simp: slots_def card_eq_0_iff)
qed

theorem pipe_counts_descriptors_witness:
  "\<exists>s. fd_reachable s \<and> p_in_use (fd_world s 0) \<and>
    p_readers (fd_world s 0) = int (slots (Pipe_read_end 0) s)"
proof -
  define s where "s = fd_op_exec (Op_dup 0 0 7) (fd_op_exec (Op_pipe 0) (fd_op_exec Op_table_create fd_boot))"
  have "fd_reachable s"
    unfolding s_def
    by (intro fd_reachable.intros) (simp add: fd_op_live_def; code_simp)+
  from pipe_counts_descriptors [OF this, of 0] this
  have "fd_reachable s \<and> p_readers (fd_world s 0) = int (slots (Pipe_read_end 0) s)" by simp
  moreover have "p_in_use (fd_world s 0)" unfolding s_def by code_simp
  ultimately show ?thesis by blast
qed

end
