(* ===== verification/Tmpfs.thy ===== *)
theory Tmpfs
  imports Fd
begin

text \<open>
  The RAM file system mounted on \<^verbatim>\<open>/tmp\<close>, \<^verbatim>\<open>src/fs/tmpfs.c\<close>.  A file is a heap block with a
  capacity and a size; the model keeps the block as a byte list whose length is the
  capacity.  The file data refine a plain byte sequence with holes read as zeros,
  and \<open>opens\<close> counts descriptors through the same hooks as pipes.  Vnodes of
  files are indices of the file table; path strings are character lists.
\<close>

section \<open>State\<close>

definition TMPFS_MAX_FILES :: nat where
  "TMPFS_MAX_FILES = 32"

definition TMPFS_NAME_MAX :: nat where
  "TMPFS_NAME_MAX = 48"

definition TMPFS_MAX_FILE_SIZE :: nat where
  "TMPFS_MAX_FILE_SIZE = 1024 * 1024"

definition TMPFS_MIN_CAPACITY :: nat where
  "TMPFS_MIN_CAPACITY = 64"

definition TMPFS_PREFIX :: string where
  "TMPFS_PREFIX = ''/tmp/''"

record tmpfs_file =
  tf_path :: string
  tf_size :: nat
  tf_data :: "u8 list"
  tf_opens :: nat
  tf_used :: bool

type_synonym tmpfs = "nat \<Rightarrow> tmpfs_file"

definition tmpfs_blank :: tmpfs_file where
  "tmpfs_blank = \<lparr>tf_path = [], tf_size = 0, tf_data = [], tf_opens = 0, tf_used = False\<rparr>"

text \<open>What a successful lookup returns: the directory or the file with this index.\<close>

datatype tmpfs_vnode = Tmp_dir | Tmp_file nat

record tmpfs_dirent =
  td_name :: string
  td_ino :: nat
  td_off :: nat

section \<open>Files\<close>

definition file_of :: "nat \<Rightarrow> tmpfs \<Rightarrow> tmpfs_file option" where
  "file_of i fs = (if i < TMPFS_MAX_FILES \<and> tf_used (fs i) then Some (fs i) else None)"

definition file_open :: "nat \<Rightarrow> tmpfs \<Rightarrow> unit res \<times> tmpfs" where
  "file_open i fs =
    (case file_of i fs of
       Some f \<Rightarrow> (Inr (), fs(i := f\<lparr>tf_opens := tf_opens f + 1\<rparr>))
     | None \<Rightarrow> (Inl ENOENT, fs))"

definition file_dup :: "nat \<Rightarrow> tmpfs \<Rightarrow> tmpfs" where
  "file_dup i fs =
    (case file_of i fs of Some f \<Rightarrow> fs(i := f\<lparr>tf_opens := tf_opens f + 1\<rparr>) | None \<Rightarrow> fs)"

definition file_release :: "nat \<Rightarrow> tmpfs \<Rightarrow> tmpfs" where
  "file_release i fs =
    (case file_of i fs of
       Some f \<Rightarrow> if tf_opens f \<noteq> 0 then fs(i := f\<lparr>tf_opens := tf_opens f - 1\<rparr>) else fs
     | None \<Rightarrow> fs)"

definition file_read :: "nat \<Rightarrow> nat \<Rightarrow> int \<Rightarrow> tmpfs \<Rightarrow> u8 list res" where
  "file_read i count offset fs =
    (if offset < 0 then Inl EFAULT
     else case file_of i fs of
            None \<Rightarrow> Inl EBADF
          | Some f \<Rightarrow>
              if nat offset < tf_size f
              then let available = tf_size f - nat offset;
                       count' = (if count > available then available else count)
                   in Inr (take count' (drop (nat offset) (tf_data f)))
              else Inr [])"

text \<open>
  \<open>heap n\<close> is the answer of the kernel heap to a request for \<open>n\<close> bytes: the stale bytes of a
  block of that size, or \<open>None\<close>.  \<open>krealloc\<close> keeps the old bytes and leaves the rest of
  the larger block as it was.
\<close>

definition krealloc_bytes :: "(nat \<Rightarrow> u8 list option) \<Rightarrow> u8 list \<Rightarrow> nat \<Rightarrow> u8 list option" where
  "krealloc_bytes heap old n =
    (if length old \<ge> n then Some old
     else case heap n of
            None \<Rightarrow> None
          | Some stale \<Rightarrow>
              Some (old @ take (n - length old) (drop (length old) (stale @ replicate n 0))))"

definition tmpfs_wanted :: "nat \<Rightarrow> nat \<Rightarrow> nat" where
  "tmpfs_wanted capacity end_pos =
    (let w0 = capacity * 2;
         w1 = (if w0 < end_pos then end_pos else w0);
         w2 = (if w1 < TMPFS_MIN_CAPACITY then TMPFS_MIN_CAPACITY else w1)
     in if w2 > TMPFS_MAX_FILE_SIZE then TMPFS_MAX_FILE_SIZE else w2)"

text \<open>\<open>poke xs i ys\<close>: the bytes \<open>ys\<close> copied into the buffer \<open>xs\<close> from position \<open>i\<close> (\<open>memcpy\<close>, \<open>memset\<close>).\<close>

definition poke :: "'a list \<Rightarrow> nat \<Rightarrow> 'a list \<Rightarrow> 'a list" where
  "poke xs i ys = take i xs @ ys @ drop (i + length ys) xs"

text \<open>The three stages of \<open>file_write\<close>: make room, then fill a hole with zeros and copy the bytes.\<close>

definition write_room :: "(nat \<Rightarrow> u8 list option) \<Rightarrow> tmpfs_file \<Rightarrow> nat \<Rightarrow> u8 list option" where
  "write_room heap f end_pos =
    (if end_pos > length (tf_data f)
     then krealloc_bytes heap (tf_data f) (tmpfs_wanted (length (tf_data f)) end_pos)
     else Some (tf_data f))"

definition write_bytes :: "tmpfs_file \<Rightarrow> u8 list \<Rightarrow> nat \<Rightarrow> u8 list \<Rightarrow> tmpfs_file" where
  "write_bytes f data start bs =
    (let data1 = (if start > tf_size f
                  then poke data (tf_size f) (replicate (start - tf_size f) 0) else data);
         end_pos = start + length bs
     in f\<lparr>tf_data := poke data1 start bs,
          tf_size := (if end_pos > tf_size f then end_pos else tf_size f)\<rparr>)"

definition file_write ::
    "(nat \<Rightarrow> u8 list option) \<Rightarrow> nat \<Rightarrow> u8 list \<Rightarrow> int \<Rightarrow> tmpfs \<Rightarrow> nat res \<times> tmpfs" where
  "file_write heap i buffer offset fs =
    (if offset < 0 then (Inl EFAULT, fs)
     else if buffer = [] then (Inr 0, fs)
     else case file_of i fs of
            None \<Rightarrow> (Inl EBADF, fs)
          | Some f \<Rightarrow>
              if nat offset \<ge> TMPFS_MAX_FILE_SIZE then (Inl EFBIG, fs)
              else
                let start = nat offset;
                    count = min (length buffer) (TMPFS_MAX_FILE_SIZE - start)
                in (case write_room heap f (start + count) of
                      None \<Rightarrow> (Inl ENOMEM, fs)
                    | Some data \<Rightarrow> (Inr count, fs(i := write_bytes f data start (take count buffer)))))"

section \<open>Directory and table\<close>

definition used_files :: "tmpfs \<Rightarrow> nat list" where
  "used_files fs = filter (\<lambda>i. tf_used (fs i)) [0..<TMPFS_MAX_FILES]"

definition tf_name :: "tmpfs_file \<Rightarrow> string" where
  "tf_name f = drop (length TMPFS_PREFIX) (tf_path f)"

definition dir_read :: "nat \<Rightarrow> int \<Rightarrow> tmpfs \<Rightarrow> string res" where
  "dir_read count offset fs =
    (if offset < 0 then Inl EFAULT
     else let listing = concat (map (\<lambda>i. tf_name (fs i) @ [CHR 0x0A]) (used_files fs))
          in if nat offset < length listing
             then Inr (take (min count (length listing - nat offset)) (drop (nat offset) listing))
             else Inr [])"

definition tmpfs_list :: "nat \<Rightarrow> tmpfs \<Rightarrow> tmpfs_dirent option" where
  "tmpfs_list index fs =
    (if index < length (used_files fs)
     then let i = used_files fs ! index
          in Some \<lparr>td_name = tf_name (fs i), td_ino = i + 1, td_off = index + 1\<rparr>
     else None)"

definition tmpfs_init :: tmpfs where
  "tmpfs_init = (\<lambda>_. tmpfs_blank)"

definition tmpfs_owns :: "string \<Rightarrow> bool" where
  "tmpfs_owns path \<longleftrightarrow> path = ''/tmp'' \<or> take (length TMPFS_PREFIX) path = TMPFS_PREFIX"

definition check_name :: "string \<Rightarrow> unit res" where
  "check_name name =
    (if length name = 0 then Inl EISDIR
     else if length name > TMPFS_NAME_MAX then Inl ENAMETOOLONG
     else if CHR ''/'' \<in> set name then Inl ENOTDIR
     else Inr ())"

definition find_file :: "string \<Rightarrow> tmpfs \<Rightarrow> nat option" where
  "find_file path fs = find (\<lambda>i. tf_used (fs i) \<and> tf_path (fs i) = path) [0..<TMPFS_MAX_FILES]"

definition tmpfs_lookup :: "string \<Rightarrow> int \<Rightarrow> tmpfs \<Rightarrow> tmpfs_vnode res \<times> tmpfs" where
  "tmpfs_lookup path flags fs =
    (if \<not> tmpfs_owns path then (Inl ENOENT, fs)
     else if path = ''/tmp'' then (Inr Tmp_dir, fs)
     else case check_name (drop (length TMPFS_PREFIX) path) of
            Inl e \<Rightarrow> (Inl e, fs)
          | Inr _ \<Rightarrow>
              (case find_file path fs of
                 Some i \<Rightarrow>
                   (Inr (Tmp_file i),
                    if has_flag flags O_TRUNC \<and> \<not> rdonly flags
                    then fs(i := (fs i)\<lparr>tf_size := 0\<rparr>) else fs)
               | None \<Rightarrow>
                   if has_flag flags O_CREAT
                   then (case find (\<lambda>i. \<not> tf_used (fs i)) [0..<TMPFS_MAX_FILES] of
                           None \<Rightarrow> (Inl ENOSPC, fs)
                         | Some i \<Rightarrow>
                             (Inr (Tmp_file i),
                              fs(i := tmpfs_blank\<lparr>tf_path := take 127 path, tf_used := True\<rparr>)))
                   else (Inl ENOENT, fs)))"

definition tmpfs_unlink :: "string \<Rightarrow> tmpfs \<Rightarrow> unit res \<times> tmpfs" where
  "tmpfs_unlink path fs =
    (if \<not> tmpfs_owns path then (Inl ENOENT, fs)
     else if path = ''/tmp'' then (Inl EISDIR, fs)
     else case check_name (drop (length TMPFS_PREFIX) path) of
            Inl e \<Rightarrow> (Inl e, fs)
          | Inr _ \<Rightarrow>
              (case find_file path fs of
                 None \<Rightarrow> (Inl ENOENT, fs)
               | Some i \<Rightarrow>
                   if tf_opens (fs i) \<noteq> 0 then (Inl EBUSY, fs)
                   else (Inr (), fs(i := tmpfs_blank))))"

section \<open>Descriptors on tmpfs files\<close>

text \<open>
  The parts of \<open>sys_open\<close>, \<open>sys_close\<close> and the vnode hooks that act on a tmpfs path.  The
  directory vnode has no hooks.  \<open>vfs_close\<close> calls the \<open>close\<close> operation, which does
  nothing here, and drops the vnode reference.
\<close>

type_synonym tmp_fds = "(tmpfs_vnode, tmpfs) fd_state"

fun tmp_dup :: "tmpfs_vnode \<Rightarrow> tmpfs \<Rightarrow> tmpfs" where
  "tmp_dup Tmp_dir fs = fs"
| "tmp_dup (Tmp_file i) fs = file_dup i fs"

fun tmp_release :: "tmpfs_vnode \<Rightarrow> tmpfs \<Rightarrow> tmpfs" where
  "tmp_release Tmp_dir fs = fs"
| "tmp_release (Tmp_file i) fs = file_release i fs"

fun tmp_vnode_open :: "tmpfs_vnode \<Rightarrow> int \<Rightarrow> tmpfs \<Rightarrow> unit res \<times> tmpfs" where
  "tmp_vnode_open Tmp_dir flags fs = (if rdonly flags then Inr () else Inl EISDIR, fs)"
| "tmp_vnode_open (Tmp_file i) flags fs = file_open i fs"

definition tmp_vfs_open :: "string \<Rightarrow> int \<Rightarrow> tmp_fds \<Rightarrow> tmpfs_vnode res \<times> tmp_fds" where
  "tmp_vfs_open path flags s =
    (case tmpfs_lookup path flags (fd_world s) of
       (Inl e, w) \<Rightarrow> (Inl e, s\<lparr>fd_world := w\<rparr>)
     | (Inr v, w) \<Rightarrow>
         (case tmp_vnode_open v flags w of
            (Inl e, w') \<Rightarrow> (Inl e, s\<lparr>fd_world := w'\<rparr>)
          | (Inr _, w') \<Rightarrow> (Inr v, fd_ref v (s\<lparr>fd_world := w'\<rparr>))))"

definition tmp_vfs_close :: "tmpfs_vnode \<Rightarrow> tmp_fds \<Rightarrow> tmp_fds" where
  "tmp_vfs_close v s = fd_unref v s"

definition tmp_sys_open :: "nat \<Rightarrow> string \<Rightarrow> int \<Rightarrow> tmp_fds \<Rightarrow> nat res \<times> tmp_fds" where
  "tmp_sys_open t path flags s =
    (case tmp_vfs_open path flags s of
       (Inl e, s1) \<Rightarrow> (Inl e, s1)
     | (Inr v, s1) \<Rightarrow>
         (case fd_alloc t v flags s1 of
            (Inl e, s2) \<Rightarrow> (Inl e, tmp_vfs_close v s2)
          | (Inr fd, s2) \<Rightarrow> (Inr fd, s2)))"

definition tmp_sys_close :: "nat \<Rightarrow> int \<Rightarrow> tmp_fds \<Rightarrow> unit res \<times> tmp_fds" where
  "tmp_sys_close t fd s =
    (case fd_get t fd s of
       None \<Rightarrow> (Inl EBADF, s)
     | Some e \<Rightarrow> (Inr (), fd_put tmp_release t fd (tmp_vfs_close (fe_vnode e) s)))"

definition tmp_sys_unlink :: "string \<Rightarrow> tmp_fds \<Rightarrow> unit res \<times> tmp_fds" where
  "tmp_sys_unlink path s =
    (let (r, w) = tmpfs_unlink path (fd_world s) in (r, s\<lparr>fd_world := w\<rparr>))"

definition tmp_write :: "(nat \<Rightarrow> u8 list option) \<Rightarrow> nat \<Rightarrow> u8 list \<Rightarrow> int \<Rightarrow> tmp_fds \<Rightarrow> nat res \<times> tmp_fds" where
  "tmp_write heap i buffer offset s =
    (let (r, w) = file_write heap i buffer offset (fd_world s) in (r, s\<lparr>fd_world := w\<rparr>))"

datatype tmp_op =
    Tmp_table_create | Tmp_open nat string int | Tmp_close nat int | Tmp_dup2 nat int int
  | Tmp_fork nat | Tmp_exit nat | Tmp_unlink string
  | Tmp_write "nat \<Rightarrow> u8 list option" nat "u8 list" int

fun tmp_op_table :: "tmp_op \<Rightarrow> nat option" where
  "tmp_op_table (Tmp_open t path flags) = Some t"
| "tmp_op_table (Tmp_close t fd) = Some t"
| "tmp_op_table (Tmp_dup2 t oldfd newfd) = Some t"
| "tmp_op_table (Tmp_fork t) = Some t"
| "tmp_op_table (Tmp_exit t) = Some t"
| "tmp_op_table _ = None"

fun tmp_exec :: "tmp_op \<Rightarrow> tmp_fds \<Rightarrow> tmp_fds" where
  "tmp_exec Tmp_table_create s = snd (fd_table_create s)"
| "tmp_exec (Tmp_open t path flags) s = snd (tmp_sys_open t path flags s)"
| "tmp_exec (Tmp_close t fd) s = snd (tmp_sys_close t fd s)"
| "tmp_exec (Tmp_dup2 t oldfd newfd) s = snd (fd_dup tmp_dup tmp_release t oldfd newfd s)"
| "tmp_exec (Tmp_fork t) s = snd (fd_table_clone tmp_dup t s)"
| "tmp_exec (Tmp_exit t) s = fd_table_destroy tmp_release t s"
| "tmp_exec (Tmp_unlink path) s = snd (tmp_sys_unlink path s)"
| "tmp_exec (Tmp_write heap i buffer offset) s = snd (tmp_write heap i buffer offset s)"

text \<open>
  The operation is made by a process with a live table, and it is not an open that finds
  its descriptor table full (see the last section for that one).
\<close>

definition tmp_op_live :: "tmp_op \<Rightarrow> tmp_fds \<Rightarrow> bool" where
  "tmp_op_live op s \<longleftrightarrow>
    (case tmp_op_table op of
       None \<Rightarrow> True | Some t \<Rightarrow> t < FD_TABLE_POOL_SIZE \<and> fd_table_used s t) \<and>
    (case op of
       Tmp_open t path flags \<Rightarrow> fst (tmp_sys_open t path flags s) \<noteq> Inl EMFILE
     | _ \<Rightarrow> True)"

definition tmp_boot :: tmp_fds where
  "tmp_boot = \<lparr>fd_tables = (\<lambda>_ _. None), fd_table_used = (\<lambda>_. False),
     fd_table_refcount = (\<lambda>_. 0), fd_vnode_refs = (\<lambda>_. 0), fd_world = tmpfs_init\<rparr>"

text \<open>A process with a full descriptor table, and a file nobody has open.\<close>

definition tmp_full :: tmp_fds where
  "tmp_full = tmp_boot\<lparr>fd_tables := (\<lambda>t fd. if t = 0 then Some \<lparr>fe_vnode = Tmp_dir, fe_flags = 0, fe_offset = 0\<rparr> else None),
     fd_table_used := (\<lambda>t. t = 0),
     fd_world := snd (tmpfs_lookup ''/tmp/a'' 0x202 tmpfs_init)\<rparr>"

inductive tmp_reachable :: "tmp_fds \<Rightarrow> bool" where
  tmp_reach_boot: "tmp_reachable tmp_boot"
| tmp_reach_step: "tmp_reachable s \<Longrightarrow> tmp_op_live op s \<Longrightarrow> tmp_reachable (tmp_exec op s)"

fun opens_count :: "tmpfs \<Rightarrow> tmpfs_vnode \<Rightarrow> nat" where
  "opens_count fs Tmp_dir = 0"
| "opens_count fs (Tmp_file i) = tf_opens (fs i)"

fun is_tmp_file :: "tmpfs_vnode \<Rightarrow> bool" where
  "is_tmp_file Tmp_dir = False"
| "is_tmp_file (Tmp_file i) = True"

section \<open>Specification of the file contents\<close>

text \<open>The bytes of a file, and what a write at a position does to a byte sequence.\<close>

definition contents :: "tmpfs_file \<Rightarrow> u8 list" where
  "contents f = take (tf_size f) (tf_data f)"

definition spec_write :: "u8 list \<Rightarrow> nat \<Rightarrow> u8 list \<Rightarrow> u8 list" where
  "spec_write xs off ys =
    take off (xs @ replicate (off - length xs) 0) @ ys @ drop (off + length ys) xs"

definition valid_tmp_path :: "string \<Rightarrow> bool" where
  "valid_tmp_path path \<longleftrightarrow>
     take (length TMPFS_PREFIX) path = TMPFS_PREFIX \<and> check_name (drop (length TMPFS_PREFIX) path) = Inr ()"

definition file_ok :: "tmpfs_file \<Rightarrow> bool" where
  "file_ok f \<longleftrightarrow> tf_size f \<le> length (tf_data f) \<and> length (tf_data f) \<le> TMPFS_MAX_FILE_SIZE \<and>
     (tf_used f \<or> tf_opens f = 0) \<and> (tf_used f \<longrightarrow> valid_tmp_path (tf_path f))"

text \<open>Only entries of the table are ever used.\<close>

definition tmpfs_inv :: "tmpfs \<Rightarrow> bool" where
  "tmpfs_inv fs \<longleftrightarrow> (\<forall>i. file_ok (fs i) \<and> (tf_used (fs i) \<longrightarrow> i < TMPFS_MAX_FILES)) \<and>
     (\<forall>i < TMPFS_MAX_FILES. \<forall>j < TMPFS_MAX_FILES.
        tf_used (fs i) \<longrightarrow> tf_used (fs j) \<longrightarrow> tf_path (fs i) = tf_path (fs j) \<longrightarrow> i = j)"

section \<open>File data refine the byte sequence\<close>

lemma length_poke [simp]: "i + length ys \<le> length xs \<Longrightarrow> length (poke xs i ys) = length xs"
  by (simp add: poke_def)

lemma take_poke: "i \<le> length xs \<Longrightarrow> i + length ys \<le> n \<Longrightarrow>
    take n (poke xs i ys) = take i xs @ ys @ take (n - (i + length ys)) (drop (i + length ys) xs)"
  by (simp add: poke_def)

lemma krealloc_bytes_spec:
  assumes "krealloc_bytes heap old n = Some new"
  shows "length new = max n (length old) \<and> take (length old) new = old"
  using assms by (auto simp: krealloc_bytes_def split: if_splits option.splits)

lemma tmpfs_wanted_bounds:
  "end_pos \<le> TMPFS_MAX_FILE_SIZE \<Longrightarrow> end_pos \<le> tmpfs_wanted cap end_pos"
  "tmpfs_wanted cap end_pos \<le> TMPFS_MAX_FILE_SIZE"
  by (auto simp: tmpfs_wanted_def Let_def)

text \<open>The grown buffer of a write that needs one: the old contents at the front, and room for the end.\<close>

lemma write_room_spec:
  assumes "write_room heap f end_pos = Some data"
    and "file_ok f" and "end_pos \<le> TMPFS_MAX_FILE_SIZE"
  shows "take (tf_size f) data = contents f" "end_pos \<le> length data" "tf_size f \<le> length data"
    "length data \<le> TMPFS_MAX_FILE_SIZE"
proof -
  have len: "tf_size f \<le> length (tf_data f)" "length (tf_data f) \<le> TMPFS_MAX_FILE_SIZE"
    using assms(2) by (auto simp: file_ok_def)
  have d: "take (length (tf_data f)) data = tf_data f"
    "length data \<le> TMPFS_MAX_FILE_SIZE \<and> end_pos \<le> length data \<and> length (tf_data f) \<le> length data"
    using assms(1,3) len krealloc_bytes_spec [of heap "tf_data f" _ data]
      tmpfs_wanted_bounds [of end_pos] tmpfs_wanted_bounds(2) [of "length (tf_data f)" end_pos]
    by (auto simp: write_room_def le_max_iff_disj split: if_splits)
  then show "end_pos \<le> length data" "tf_size f \<le> length data" "length data \<le> TMPFS_MAX_FILE_SIZE"
    using len by auto
  have "take (tf_size f) data = take (tf_size f) (take (length (tf_data f)) data)"
    using len by (simp add: min_def)
  then show "take (tf_size f) data = contents f" by (simp add: d(1) contents_def)
qed

lemma spec_write_length: "length (spec_write xs off ys) = max (length xs) (off + length ys)"
  by (simp add: spec_write_def)

lemma poke_contents:
  assumes "size1 \<le> length data" and "start + length ys \<le> length data"
  defines "data1 \<equiv> (if start > size1 then poke data size1 (replicate (start - size1) 0) else data)"
  shows "length (poke data1 start ys) = length data"
    and "take (if start + length ys > size1 then start + length ys else size1) (poke data1 start ys) =
      spec_write (take size1 data) start ys"
proof -
  have len: "length data1 = length data" using assms by (auto simp: data1_def)
  then show "length (poke data1 start ys) = length data" using assms by simp
  show "take (if start + length ys > size1 then start + length ys else size1) (poke data1 start ys) =
      spec_write (take size1 data) start ys"
  proof (cases "start > size1")
    case True
    then have "take start data1 = take size1 data @ replicate (start - size1) 0"
      using assms(1,2) by (simp add: data1_def take_poke)
    with True len assms(1,2) show ?thesis by (simp add: take_poke spec_write_def)
  next
    case False
    with assms(1,2) show ?thesis
      by (auto simp: take_poke spec_write_def data1_def drop_take min_def)
  qed
qed

lemma write_bytes_spec:
  assumes "file_ok f" and "write_room heap f (start + length bs) = Some data"
    and "start + length bs \<le> TMPFS_MAX_FILE_SIZE"
  shows "contents (write_bytes f data start bs) = spec_write (contents f) start bs"
    and "file_ok (write_bytes f data start bs)"
proof -
  note b = write_room_spec [OF assms(2,1,3)]
  note pc = poke_contents [OF b(3,2)]
  show "contents (write_bytes f data start bs) = spec_write (contents f) start bs"
    using pc(2) b(1) by (simp add: contents_def write_bytes_def Let_def)
  show "file_ok (write_bytes f data start bs)"
    using assms(1) b pc(1) by (auto simp: file_ok_def write_bytes_def Let_def)
qed

lemma write_bytes_frame [simp]:
  "tf_path (write_bytes f data start bs) = tf_path f"
  "tf_used (write_bytes f data start bs) = tf_used f"
  "tf_opens (write_bytes f data start bs) = tf_opens f"
  by (simp_all add: write_bytes_def Let_def)

lemma file_write_cases:
  assumes "file_of i fs = Some f" and "file_ok f" and "0 \<le> offset" and "buffer \<noteq> []"
  obtains (big) "TMPFS_MAX_FILE_SIZE \<le> nat offset" "file_write heap i buffer offset fs = (Inl EFBIG, fs)"
  | (nomem) "nat offset < TMPFS_MAX_FILE_SIZE" "file_write heap i buffer offset fs = (Inl ENOMEM, fs)"
  | (ok) n g where "nat offset < TMPFS_MAX_FILE_SIZE"
      "n = min (length buffer) (TMPFS_MAX_FILE_SIZE - nat offset)"
      "file_write heap i buffer offset fs = (Inr n, fs(i := g))"
      "contents g = spec_write (contents f) (nat offset) (take n buffer)" "file_ok g"
      "tf_path g = tf_path f" "tf_used g = tf_used f" "tf_opens g = tf_opens f"
proof (cases "TMPFS_MAX_FILE_SIZE \<le> nat offset")
  case True
  with assms show ?thesis by (intro big) (auto simp: file_write_def)
next
  case False
  define n where "n = min (length buffer) (TMPFS_MAX_FILE_SIZE - nat offset)"
  have n: "length (take n buffer) = n" "nat offset + n \<le> TMPFS_MAX_FILE_SIZE"
    using False by (auto simp: n_def)
  have w: "file_write heap i buffer offset fs =
      (case write_room heap f (nat offset + n) of
         None \<Rightarrow> (Inl ENOMEM, fs)
       | Some data \<Rightarrow> (Inr n, fs(i := write_bytes f data (nat offset) (take n buffer))))"
    unfolding file_write_def Let_def n_def using False assms by (simp split: option.split)
  show ?thesis
  proof (cases "write_room heap f (nat offset + n)")
    case None
    with w False show ?thesis by (intro nomem) auto
  next
    case (Some data)
    note spec = write_bytes_spec [OF assms(2), of heap "nat offset" "take n buffer", unfolded n(1), OF Some n(2)]
    show ?thesis
      by (rule ok [of n "write_bytes f data (nat offset) (take n buffer)"])
        (use w Some False spec in \<open>auto simp: n_def\<close>)
  qed
qed

section \<open>The file table\<close>

lemma tmpfs_invD:
  assumes "tmpfs_inv fs"
  shows "file_ok (fs i)" "tf_used (fs i) \<Longrightarrow> i < TMPFS_MAX_FILES"
    "tf_used (fs i) \<Longrightarrow> tf_used (fs j) \<Longrightarrow> tf_path (fs i) = tf_path (fs j) \<Longrightarrow> i = j"
  using assms unfolding tmpfs_inv_def by blast+

lemma tmpfs_inv_update:
  assumes "tmpfs_inv fs" and "file_ok f" and "tf_used f \<longrightarrow> i < TMPFS_MAX_FILES"
    and "\<And>j. tf_used f \<Longrightarrow> tf_used (fs j) \<Longrightarrow> tf_path (fs j) = tf_path f \<Longrightarrow> j = i"
  shows "tmpfs_inv (fs(i := f))"
  using assms unfolding tmpfs_inv_def by (auto split: if_splits)

lemma tmpfs_inv_same_path:
  assumes "tmpfs_inv fs" and "file_ok f" and "tf_used f = tf_used (fs i)" and "tf_path f = tf_path (fs i)"
  shows "tmpfs_inv (fs(i := f))"
  using assms tmpfs_invD(2,3) [OF assms(1)] by (intro tmpfs_inv_update) auto

lemma file_of_Some: "file_of i fs = Some f \<longleftrightarrow> i < TMPFS_MAX_FILES \<and> tf_used (fs i) \<and> f = fs i"
  by (auto simp: file_of_def)

lemma find_file_Some:
  "find_file path fs = Some i \<Longrightarrow> i < TMPFS_MAX_FILES \<and> tf_used (fs i) \<and> tf_path (fs i) = path"
  by (auto simp: find_file_def dest!: find_SomeD)

lemma find_file_None:
  "find_file path fs = None \<longleftrightarrow> (\<forall>i < TMPFS_MAX_FILES. tf_used (fs i) \<longrightarrow> tf_path (fs i) \<noteq> path)"
  by (auto simp: find_file_def find_None_iff)

lemma find_file_unique:
  assumes "tmpfs_inv fs" and "tf_used (fs i)" and "tf_path (fs i) = path"
  shows "find_file path fs = Some i"
proof (cases "find_file path fs")
  case None
  with assms tmpfs_invD(2) [OF assms(1)] show ?thesis by (auto simp: find_file_None)
next
  case (Some j)
  with find_file_Some [OF Some] assms tmpfs_invD(3) [OF assms(1), of i j] show ?thesis by auto
qed

lemma valid_path_take: "valid_tmp_path path \<Longrightarrow> take 127 path = path"
  by (auto simp: valid_tmp_path_def check_name_def TMPFS_NAME_MAX_def TMPFS_PREFIX_def split: if_splits)

lemma file_ok_new: "valid_tmp_path path \<Longrightarrow> file_ok (tmpfs_blank\<lparr>tf_path := path, tf_used := True\<rparr>)"
  by (simp add: file_ok_def tmpfs_blank_def)

lemma file_ok_blank [simp]: "file_ok tmpfs_blank" "\<not> tf_used tmpfs_blank" "tf_opens tmpfs_blank = 0"
  by (simp_all add: file_ok_def tmpfs_blank_def)

lemma tmpfs_inv_init: "tmpfs_inv tmpfs_init"
  by (simp add: tmpfs_inv_def tmpfs_init_def)

text \<open>The outcomes of a lookup below \<^verbatim>\<open>/tmp\<close>.\<close>

lemma tmpfs_lookup_cases:
  assumes "tmpfs_lookup path flags fs = (r, fs')"
  obtains (refused) e where "r = Inl e" "fs' = fs"
  | (dir) "r = Inr Tmp_dir" "fs' = fs" "path = ''/tmp''"
  | (found) i where "r = Inr (Tmp_file i)" "find_file path fs = Some i" "valid_tmp_path path"
      "fs' = (if has_flag flags O_TRUNC \<and> \<not> rdonly flags then fs(i := (fs i)\<lparr>tf_size := 0\<rparr>) else fs)"
  | (created) i where "r = Inr (Tmp_file i)" "find_file path fs = None" "valid_tmp_path path"
      "has_flag flags O_CREAT" "i < TMPFS_MAX_FILES" "\<not> tf_used (fs i)"
      "fs' = fs(i := tmpfs_blank\<lparr>tf_path := path, tf_used := True\<rparr>)"
proof (cases "tmpfs_owns path \<and> path \<noteq> ''/tmp'' \<and> check_name (drop (length TMPFS_PREFIX) path) = Inr ()")
  case False
  then show ?thesis
    using assms refused dir
    by (cases "check_name (drop (length TMPFS_PREFIX) path)")
      (auto simp: tmpfs_lookup_def split: if_splits)
next
  case True
  then have v: "valid_tmp_path path" by (auto simp: valid_tmp_path_def tmpfs_owns_def)
  show ?thesis
  proof (cases "find_file path fs")
    case (Some i)
    with True v assms show ?thesis by (intro found [of i]) (auto simp: tmpfs_lookup_def)
  next
    case None
    show ?thesis
    proof (cases "has_flag flags O_CREAT \<and> find (\<lambda>i. \<not> tf_used (fs i)) [0..<TMPFS_MAX_FILES] \<noteq> None")
      case False
      with True None assms refused show ?thesis
        by (auto simp: tmpfs_lookup_def split: if_splits)
    next
      case c: True
      then obtain i where i: "find (\<lambda>i. \<not> tf_used (fs i)) [0..<TMPFS_MAX_FILES] = Some i" by auto
      with find_SomeD [OF i] True None c v assms show ?thesis
        by (intro created [of i]) (auto simp: tmpfs_lookup_def valid_path_take)
    qed
  qed
qed

lemma tmpfs_inv_lookup:
  assumes inv: "tmpfs_inv fs" and l: "tmpfs_lookup path flags fs = (r, fs')"
  shows "tmpfs_inv fs'"
  using l
proof (cases rule: tmpfs_lookup_cases)
  case (found i)
  have "file_ok ((fs i)\<lparr>tf_size := 0\<rparr>)" using tmpfs_invD(1) [OF inv, of i] by (simp add: file_ok_def)
  with found inv show ?thesis by (auto intro: tmpfs_inv_same_path)
next
  case (created i)
  have "file_ok (tmpfs_blank\<lparr>tf_path := path, tf_used := True\<rparr>)"
    by (rule file_ok_new) fact
  then show ?thesis unfolding created(7)
    by (intro tmpfs_inv_update inv)
      (use created(2,5) tmpfs_invD(2) [OF inv] in \<open>auto simp: find_file_None\<close>)
qed (use inv in auto)

lemma tmpfs_unlink_cases:
  assumes "tmpfs_unlink path fs = (r, fs')"
  obtains (refused) e where "r = Inl e" "fs' = fs"
  | (removed) i where "r = Inr ()" "find_file path fs = Some i" "tf_opens (fs i) = 0"
      "fs' = fs(i := tmpfs_blank)"
proof -
  have "(\<exists>e. r = Inl e \<and> fs' = fs) \<or>
      (\<exists>i. r = Inr () \<and> find_file path fs = Some i \<and> tf_opens (fs i) = 0 \<and> fs' = fs(i := tmpfs_blank))"
    using assms by (auto simp: tmpfs_unlink_def split: if_splits sum.splits option.splits) metis+
  then show thesis using refused removed by metis
qed

lemma tmpfs_inv_unlink: "tmpfs_inv fs \<Longrightarrow> tmpfs_unlink path fs = (r, fs') \<Longrightarrow> tmpfs_inv fs'"
  by (erule tmpfs_unlink_cases) (auto intro!: tmpfs_inv_update)

lemma tmpfs_inv_write:
  assumes "tmpfs_inv fs" and "file_write heap i buffer offset fs = (r, fs')"
  shows "tmpfs_inv fs'"
proof (cases "offset < 0 \<or> buffer = [] \<or> file_of i fs = None")
  case True
  with assms show ?thesis by (auto simp: file_write_def split: if_splits)
next
  case False
  then obtain f where f: "file_of i fs = Some f" by auto
  then have ok: "file_ok f" and fi: "f = fs i" using tmpfs_invD(1) [OF assms(1)] by (auto simp: file_of_Some)
  have "0 \<le> offset" "buffer \<noteq> []" using False by auto
  with f ok show ?thesis
    by (cases rule: file_write_cases [where heap = heap])
      (use assms fi in \<open>auto intro: tmpfs_inv_same_path\<close>)
qed

section \<open>Open counts are descriptor counts\<close>

lemma opens_update:
  "tmpfs_inv fs \<Longrightarrow> tf_used (fs i) \<Longrightarrow> tmpfs_inv (fs(i := (fs i)\<lparr>tf_opens := n\<rparr>))"
  using tmpfs_invD(1) [of fs i] by (intro tmpfs_inv_same_path) (auto simp: file_ok_def)

lemma opens_pos_used: "tmpfs_inv fs \<Longrightarrow> 0 < tf_opens (fs i) \<Longrightarrow> tf_used (fs i) \<and> i < TMPFS_MAX_FILES"
  using tmpfs_invD(1,2) [of fs i] by (auto simp: file_ok_def)

interpretation tmp_files: descriptor_hooks tmpfs_inv opens_count is_tmp_file tmp_dup tmp_release
proof
  fix u v :: tmpfs_vnode and w :: tmpfs
  assume w: "tmpfs_inv w"
  show "is_tmp_file u \<Longrightarrow> is_tmp_file v \<longrightarrow> 0 < opens_count w v \<Longrightarrow>
      opens_count (tmp_dup v w) u = opens_count w u + of_bool (u = v)"
    using opens_pos_used [OF w] by (cases u; cases v) (auto simp: file_dup_def file_of_def)
  show "is_tmp_file v \<longrightarrow> 0 < opens_count w v \<Longrightarrow> tmpfs_inv (tmp_dup v w)"
    using w opens_update [OF w] by (cases v) (auto simp: file_dup_def file_of_def)
  show "tmpfs_inv (tmp_release v w)"
    using w opens_update [OF w] by (cases v) (auto simp: file_release_def file_of_def)
  show "is_tmp_file u \<Longrightarrow> opens_count (tmp_release v w) u = opens_count w u - of_bool (u = v)"
    using opens_pos_used [OF w] by (cases u; cases v) (auto simp: file_release_def file_of_def)
qed

lemma tmp_balanced_world:
  assumes "balanced tmpfs_inv opens_count is_tmp_file s" and "tmpfs_inv w"
    and "\<And>i. tf_opens (w i) = tf_opens (fd_world s i)"
  shows "balanced tmpfs_inv opens_count is_tmp_file (s\<lparr>fd_world := w\<rparr>)"
proof -
  have "opens_count w v = opens_count (fd_world s) v" for v using assms(3) by (cases v) auto
  moreover have "slots v (s\<lparr>fd_world := w\<rparr>) = slots v s" for v by (rule slots_tables) simp
  ultimately show ?thesis using assms(1,2) by (auto simp: balanced_def fd_inv_def)
qed

lemma tmp_balanced_refs:
  "balanced tmpfs_inv opens_count is_tmp_file (fd_ref v s) \<longleftrightarrow> balanced tmpfs_inv opens_count is_tmp_file s"
  "balanced tmpfs_inv opens_count is_tmp_file (fd_unref v s) \<longleftrightarrow> balanced tmpfs_inv opens_count is_tmp_file s"
  by (simp_all add: balanced_def fd_inv_def)

lemma tmpfs_lookup_opens:
  assumes "tmpfs_inv fs" and "tmpfs_lookup path flags fs = (l, w)"
  shows "tf_opens (w i) = tf_opens (fs i)"
  using assms(2)
proof (cases rule: tmpfs_lookup_cases)
  case (created j)
  then show ?thesis using tmpfs_invD(1) [OF assms(1), of j] by (auto simp: file_ok_def)
qed auto

text \<open>An open that succeeds, or fails before a descriptor is looked for, keeps the balance.\<close>

lemma tmp_vfs_open_counts:
  assumes b: "balanced tmpfs_inv opens_count is_tmp_file s" and o: "tmp_vfs_open path flags s = (r, s1)"
  shows "case r of
      Inl e \<Rightarrow> balanced tmpfs_inv opens_count is_tmp_file s1
    | Inr v \<Rightarrow> fd_inv s1 \<and> tmpfs_inv (fd_world s1) \<and> fd_tables s1 = fd_tables s \<and>
        fd_table_used s1 = fd_table_used s \<and>
        (\<forall>u. is_tmp_file u \<longrightarrow> opens_count (fd_world s1) u = slots u s + of_bool (u = v))"
proof -
  obtain l w where l: "tmpfs_lookup path flags (fd_world s) = (l, w)" by (cases "tmpfs_lookup path flags (fd_world s)")
  have s: "fd_inv s" "tmpfs_inv (fd_world s)" "\<And>u. is_tmp_file u \<Longrightarrow> opens_count (fd_world s) u = slots u s"
    using b by (auto simp: balanced_def)
  have w: "tmpfs_inv w" by (rule tmpfs_inv_lookup [OF s(2) l])
  note same = tmpfs_lookup_opens [OF s(2) l]
  have cnt: "opens_count w u = opens_count (fd_world s) u" for u using same by (cases u) auto
  have bal: "balanced tmpfs_inv opens_count is_tmp_file (s\<lparr>fd_world := w\<rparr>)"
    by (rule tmp_balanced_world [OF b w same])
  show ?thesis
  proof (cases l)
    case (Inl e)
    with l o bal show ?thesis by (auto simp: tmp_vfs_open_def)
  next
    case (Inr v)
    show ?thesis
    proof (cases v)
      case Tmp_dir
      with Inr l o bal w s cnt show ?thesis
        by (auto simp: tmp_vfs_open_def fd_inv_def split: if_splits)
    next
      case (Tmp_file i)
      have u: "tf_used (w i)" "i < TMPFS_MAX_FILES"
        using l Inr Tmp_file by (cases rule: tmpfs_lookup_cases; auto dest: find_file_Some)+
      have "opens_count (w(i := (w i)\<lparr>tf_opens := tf_opens (w i) + 1\<rparr>)) u =
          opens_count w u + of_bool (u = Tmp_file i)" for u
        by (cases u) auto
      with Inr Tmp_file l o s cnt u w opens_update [OF w u(1)] s(3) [of "Tmp_file i"]
        cnt [of "Tmp_file i"] show ?thesis
        by (auto simp: tmp_vfs_open_def file_open_def file_of_def fd_inv_def)
    qed
  qed
qed

lemma tmp_sys_open_balanced:
  assumes b: "balanced tmpfs_inv opens_count is_tmp_file s" and t: "t < FD_TABLE_POOL_SIZE" "fd_table_used s t"
    and o: "tmp_sys_open t path flags s = (r, s')" and r: "r \<noteq> Inl EMFILE"
  shows "balanced tmpfs_inv opens_count is_tmp_file s'"
proof -
  obtain q s1 where q: "tmp_vfs_open path flags s = (q, s1)" by (cases "tmp_vfs_open path flags s")
  note c = tmp_vfs_open_counts [OF b q]
  show ?thesis
  proof (cases q)
    case (Inl e)
    with c o q show ?thesis by (simp add: tmp_sys_open_def)
  next
    case (Inr v)
    show ?thesis
    proof (cases rule: fd_alloc_cases [of t v flags s1])
      case full
      with Inr o q r show ?thesis by (simp add: tmp_sys_open_def)
    next
      case (slot fd)
      then have a: "fd_alloc t v flags s1 = (Inr fd, s')"
        using Inr o q by (simp add: tmp_sys_open_def)
      have "slots u s1 = slots u s" for u by (rule slots_tables) (use c Inr in simp)
      with fd_alloc_slots [OF a t(1)] c Inr t(2) show ?thesis by (auto simp: balanced_def)
    qed
  qed
qed

lemma tmp_file_write_opens: "file_write heap j buffer offset fs = (r, fs') \<Longrightarrow> tf_opens (fs' i) = tf_opens (fs i)"
  by (auto simp: file_write_def Let_def file_of_def split: if_splits option.splits)

lemma tmp_balanced_exec [inv_intros]:
  assumes b: "balanced tmpfs_inv opens_count is_tmp_file s" and live: "tmp_op_live op s"
  shows "balanced tmpfs_inv opens_count is_tmp_file (tmp_exec op s)"
proof (cases op)
  case (Tmp_open t path flags)
  with b live tmp_sys_open_balanced [of s t path flags] show ?thesis
    by (cases "tmp_sys_open t path flags s") (auto simp: tmp_op_live_def)
next
  case (Tmp_close t fd)
  with b live tmp_files.put_balanced show ?thesis
    by (auto simp: tmp_op_live_def tmp_sys_close_def tmp_vfs_close_def tmp_balanced_refs split: option.split)
next
  case (Tmp_unlink path)
  obtain r w where u: "tmpfs_unlink path (fd_world s) = (r, w)" by (cases "tmpfs_unlink path (fd_world s)")
  have "tf_opens (w i) = tf_opens (fd_world s i)" for i
    using u by (cases rule: tmpfs_unlink_cases) auto
  moreover have "tmpfs_inv w" using tmpfs_inv_unlink [OF _ u] b by (simp add: balanced_def)
  ultimately show ?thesis
    using Tmp_unlink u tmp_balanced_world [OF b] by (simp add: tmp_sys_unlink_def)
next
  case (Tmp_write heap i buffer offset)
  obtain r w where u: "file_write heap i buffer offset (fd_world s) = (r, w)"
    by (cases "file_write heap i buffer offset (fd_world s)")
  have "tmpfs_inv w" using tmpfs_inv_write [OF _ u] b by (simp add: balanced_def)
  then show ?thesis
    using Tmp_write u tmp_balanced_world [OF b] tmp_file_write_opens [OF u] by (simp add: tmp_write_def)
qed (use b live tmp_files.create_balanced tmp_files.dup_balanced tmp_files.clone_balanced
      tmp_files.destroy_balanced in \<open>auto simp: tmp_op_live_def\<close>)

lemma tmp_balanced_reachable: "tmp_reachable s \<Longrightarrow> balanced tmpfs_inv opens_count is_tmp_file s"
proof (induction rule: tmp_reachable.induct)
  case tmp_reach_boot
  have "is_tmp_file v \<Longrightarrow> opens_count tmpfs_init v = 0" for v
    by (cases v) (simp_all add: tmpfs_init_def)
  then show ?case
    by (simp add: tmp_boot_def balanced_def fd_inv_def slots_def slot_set_def tmpfs_inv_init)
qed (rule tmp_balanced_exec)

lemma tmp_unlink_found:
  assumes "valid_tmp_path path" and "find_file path (fd_world s) = Some i"
  shows "fst (tmp_sys_unlink path s) = (if tf_opens (fd_world s i) = 0 then Inr () else Inl EBUSY)"
proof -
  have "tmpfs_owns path" "path \<noteq> ''/tmp''" "check_name (drop (length TMPFS_PREFIX) path) = Inr ()"
    using assms(1) by (auto simp: valid_tmp_path_def tmpfs_owns_def TMPFS_PREFIX_def)
  with assms(2) show ?thesis by (simp add: tmp_sys_unlink_def tmpfs_unlink_def)
qed

section \<open>Properties\<close>

text \<open>
  (C14) A read returns the requested bytes of the abstract byte sequence (fewer at the end of
  the file, none past it), and \<open>-EFAULT\<close> or \<open>-EBADF\<close> for a negative offset or a vnode that is
  not a live file.
\<close>

theorem tmpfs_read_spec:
  assumes "tmpfs_inv fs"
  shows "file_read i count offset fs =
    (if offset < 0 then Inl EFAULT
     else if i < TMPFS_MAX_FILES \<and> tf_used (fs i)
     then Inr (take count (drop (nat offset) (contents (fs i))))
     else Inl EBADF)"
  using tmpfs_invD(1) [OF assms, of i]
  by (auto simp: file_read_def file_of_def contents_def file_ok_def Let_def drop_take min_def)

theorem tmpfs_read_spec_witness:
  "tmpfs_inv tmpfs_init \<and> file_read 0 4 (- 1) tmpfs_init = Inl EFAULT \<and>
   file_read 0 4 2 (snd (file_write (\<lambda>n. Some []) 0 [1, 2, 3, 4, 5] 0
     (snd (tmpfs_lookup ''/tmp/a'' 0x202 tmpfs_init)))) = Inr [3, 4, 5]"
proof -
  let ?fs = "snd (file_write (\<lambda>n. Some []) 0 [1, 2, 3, 4, 5] 0 (snd (tmpfs_lookup ''/tmp/a'' 0x202 tmpfs_init)))"
  have "tmpfs_inv ?fs"
    using tmpfs_inv_write [OF tmpfs_inv_lookup [OF tmpfs_inv_init]] by (metis prod.collapse)
  from tmpfs_read_spec [OF this, of 0 4 2] have "file_read 0 4 2 ?fs = Inr [3, 4, 5]"
    by (rule trans) code_simp
  then show ?thesis using tmpfs_read_spec [OF tmpfs_inv_init, of 0 4 "- 1"] tmpfs_inv_init by simp
qed

text \<open>
  (C13) A write of a non-empty buffer to a live file either fails without any change
  (\<open>-EFBIG\<close> at or past the size limit, \<open>-ENOMEM\<close> when the heap is exhausted) or writes as
  much of the buffer as fits below the limit: the file then holds the old bytes with the
  new ones over them, any gap before the new bytes reads as zeros, and no other file
  changes.  What is stale in a grown heap block never shows.
\<close>

theorem tmpfs_write_refines:
  assumes "tmpfs_inv fs" and "i < TMPFS_MAX_FILES" and "tf_used (fs i)" and "0 \<le> offset" and "buffer \<noteq> []"
    and "file_write heap i buffer offset fs = (r, fs')"
  shows "tmpfs_inv fs' \<and>
    (case r of
       Inl e \<Rightarrow> fs' = fs \<and> (if TMPFS_MAX_FILE_SIZE \<le> nat offset then e = EFBIG else e = ENOMEM)
     | Inr n \<Rightarrow> n = min (length buffer) (TMPFS_MAX_FILE_SIZE - nat offset) \<and>
         contents (fs' i) = spec_write (contents (fs i)) (nat offset) (take n buffer) \<and>
         (\<forall>j. j = i \<or> fs' j = fs j))"
proof -
  have f: "file_of i fs = Some (fs i)" using assms(2,3) by (simp add: file_of_def)
  have "tmpfs_inv fs'" by (rule tmpfs_inv_write [OF assms(1,6)])
  with f tmpfs_invD(1) [OF assms(1), of i] assms(4,5) show ?thesis
    by (cases rule: file_write_cases [where heap = heap]) (use assms(6) in auto)
qed

theorem tmpfs_write_refines_witness:
  "contents (snd (file_write (\<lambda>n. Some (replicate n 0xAA)) 0 [9] 3
     (snd (tmpfs_lookup ''/tmp/a'' 0x202 tmpfs_init))) 0) = [0, 0, 0, 9]"
proof -
  let ?fs = "snd (tmpfs_lookup ''/tmp/a'' 0x202 tmpfs_init)"
  let ?heap = "\<lambda>n. Some (replicate n 0xAA) :: u8 list option"
  have "tmpfs_inv ?fs" using tmpfs_inv_lookup [OF tmpfs_inv_init] by (metis prod.collapse)
  moreover have "tf_used (?fs 0)" by code_simp
  moreover have "file_write ?heap 0 [9] 3 ?fs = (Inr 1, snd (file_write ?heap 0 [9] 3 ?fs))"
    by (simp add: prod_eq_iff) code_simp
  ultimately have "contents (snd (file_write ?heap 0 [9] 3 ?fs) 0) =
      spec_write (contents (?fs 0)) (nat 3) (take 1 [9])"
    using tmpfs_write_refines [of ?fs 0 3 "[9]" ?heap "Inr 1"] by (simp add: TMPFS_MAX_FILES_def)
  also have "\<dots> = [0, 0, 0, 9]" by code_simp
  finally show ?thesis .
qed





end
