(* ===== verification/Store.thy ===== *)
theory Store
  imports Prelude
begin

text \<open>
  The interface file systems have to a block device: the patterns in which they use the
  buffers of the block cache, and the contract these keep.  The contract is interpreted on
  the block cache in \<open>BlkStore\<close>; the FAT32 theories are proved against it.
\<close>

definition BLK_SECTOR_SIZE :: nat where
  "BLK_SECTOR_SIZE = 512"

text \<open>
  \<open>st_edit lba f\<close> is \<open>bread\<close>, then either a change of the buffer and \<open>bdirty\<close> (when \<open>f\<close> gives the
  new bytes) or nothing, then \<open>brelse\<close>; it returns the bytes before the change.  \<open>st_new\<close> is
  \<open>bnew\<close> and \<open>brelse\<close>; \<open>st_read\<close>, \<open>st_write\<close> and \<open>st_sync\<close> are \<open>blk_read\<close>, \<open>blk_write\<close> and
  \<open>blk_flush\<close>.
\<close>

record 's store =
  st_edit :: "nat \<Rightarrow> (u8 list \<Rightarrow> u8 list option) \<Rightarrow> 's \<Rightarrow> u8 list res \<times> 's"
  st_new :: "nat \<Rightarrow> 's \<Rightarrow> unit res \<times> 's"
  st_read :: "nat \<Rightarrow> nat \<Rightarrow> 's \<Rightarrow> u8 list res \<times> 's"
  st_write :: "nat \<Rightarrow> u8 list list \<Rightarrow> 's \<Rightarrow> unit res \<times> 's"
  st_sync :: "'s \<Rightarrow> unit res \<times> 's"

definition st_copy :: "'s store \<Rightarrow> nat \<Rightarrow> 's \<Rightarrow> u8 list res \<times> 's" where
  "st_copy st lba s = st_edit st lba (\<lambda>_. None) s"

definition keeps_size :: "(u8 list \<Rightarrow> u8 list option) \<Rightarrow> bool" where
  "keeps_size f \<longleftrightarrow> (\<forall>sec new. length sec = BLK_SECTOR_SIZE \<longrightarrow> f sec = Some new \<longrightarrow> length new = BLK_SECTOR_SIZE)"

locale sector_store =
  fixes st :: "'s store"
    and inv :: "'s \<Rightarrow> bool"
    and view :: "'s \<Rightarrow> nat \<Rightarrow> u8 list"
  assumes view_length: "inv s \<Longrightarrow> length (view s lba) = BLK_SECTOR_SIZE"
    and edit_ok: "inv s \<Longrightarrow> keeps_size f \<Longrightarrow> st_edit st lba f s = (Inr sec, s') \<Longrightarrow>
      inv s' \<and> sec = view s lba \<and>
      view s' = (case f (view s lba) of None \<Rightarrow> view s | Some new \<Rightarrow> (view s)(lba := new))"
    and edit_error: "inv s \<Longrightarrow> st_edit st lba f s = (Inl e, s') \<Longrightarrow> inv s' \<and> view s' = view s"
    and new_ok: "inv s \<Longrightarrow> st_new st lba s = (Inr u, s') \<Longrightarrow>
      inv s' \<and> view s' = (view s)(lba := replicate BLK_SECTOR_SIZE 0)"
    and new_error: "inv s \<Longrightarrow> st_new st lba s = (Inl e, s') \<Longrightarrow> inv s' \<and> view s' = view s"
    and read_ok: "inv s \<Longrightarrow> st_read st lba n s = (r, s') \<Longrightarrow>
      inv s' \<and> view s' = view s \<and> (\<forall>bs. r = Inr bs \<longrightarrow> bs = concat (map (view s) [lba..<lba + n]))"
    and write_ok: "inv s \<Longrightarrow> st_write st lba secs s = (q, s') \<Longrightarrow> \<forall>sec \<in> set secs. length sec = BLK_SECTOR_SIZE \<Longrightarrow>
      inv s' \<and> (\<exists>k \<le> length secs. (q = Inr () \<longrightarrow> k = length secs) \<and>
        (\<forall>a. view s' a = (if lba \<le> a \<and> a < lba + k then secs ! (a - lba) else view s a)))"
    and sync_view: "inv s \<Longrightarrow> st_sync st s = (q, s') \<Longrightarrow> inv s' \<and> view s' = view s"
begin

lemma copy_ok: "inv s \<Longrightarrow> st_copy st lba s = (Inr sec, s') \<Longrightarrow> inv s' \<and> view s' = view s \<and> sec = view s lba"
  using edit_ok [of s "\<lambda>_. None" lba sec s'] by (simp add: st_copy_def keeps_size_def)

lemma copy_error: "inv s \<Longrightarrow> st_copy st lba s = (Inl e, s') \<Longrightarrow> inv s' \<and> view s' = view s"
  using edit_error [of s lba "\<lambda>_. None" e s'] by (simp add: st_copy_def)

lemma copy_view:
  assumes "inv s" and "st_copy st lba s = (r, s')"
  shows "inv s' \<and> view s' = view s \<and> (\<forall>sec. r = Inr sec \<longrightarrow> sec = view s lba)"
proof (cases r)
  case (Inl e)
  with copy_error [OF assms(1) assms(2) [unfolded Inl]] show ?thesis by simp
next
  case (Inr sec)
  with copy_ok [OF assms(1) assms(2) [unfolded Inr]] show ?thesis by simp
qed

end

text \<open>The plain array of sectors, which never fails: the store a correct device stands for.\<close>

definition mem_store :: "(nat \<Rightarrow> u8 list) store" where
  "mem_store =
    \<lparr>st_edit = (\<lambda>lba f s. (Inr (s lba), case f (s lba) of None \<Rightarrow> s | Some new \<Rightarrow> s(lba := new))),
     st_new = (\<lambda>lba s. (Inr (), s(lba := replicate BLK_SECTOR_SIZE 0))),
     st_read = (\<lambda>lba n s. (Inr (concat (map s [lba..<lba + n])), s)),
     st_write = (\<lambda>lba secs s. (Inr (), \<lambda>a. if lba \<le> a \<and> a < lba + length secs then secs ! (a - lba) else s a)),
     st_sync = (\<lambda>s. (Inr (), s))\<rparr>"

definition mem_inv :: "(nat \<Rightarrow> u8 list) \<Rightarrow> bool" where
  "mem_inv s \<longleftrightarrow> (\<forall>lba. length (s lba) = BLK_SECTOR_SIZE)"

interpretation mem: sector_store mem_store mem_inv "\<lambda>s. s"
proof
  fix s lba secs q s'
  assume "mem_inv s" "st_write mem_store lba secs s = (q, s')" "\<forall>sec \<in> set secs. length sec = BLK_SECTOR_SIZE"
  then show "mem_inv s' \<and> (\<exists>k \<le> length secs. (q = Inr () \<longrightarrow> k = length secs) \<and>
        (\<forall>a. s' a = (if lba \<le> a \<and> a < lba + k then secs ! (a - lba) else s a)))"
    by (intro conjI exI [of _ "length secs"]) (auto simp: mem_store_def mem_inv_def)
qed (auto simp: mem_store_def mem_inv_def keeps_size_def split: option.splits)

text \<open>Bytes \<open>[i, i + n)\<close> of a sector, and a sector with bytes copied in at \<open>i\<close>.\<close>

definition sec_get :: "u8 list \<Rightarrow> nat \<Rightarrow> nat \<Rightarrow> u8 list" where
  "sec_get sec i n = take n (drop i sec)"

definition sec_put :: "nat \<Rightarrow> u8 list \<Rightarrow> u8 list \<Rightarrow> u8 list" where
  "sec_put i bs sec = take i sec @ bs @ drop (i + length bs) sec"

lemma length_sec_put [simp]: "i + length bs \<le> length sec \<Longrightarrow> length (sec_put i bs sec) = length sec"
  by (simp add: sec_put_def)

lemma sec_get_put: "i + length bs \<le> length sec \<Longrightarrow> sec_get (sec_put i bs sec) i (length bs) = bs"
  by (simp add: sec_get_def sec_put_def)

lemma nth_sec_put: "i + length bs \<le> length sec \<Longrightarrow> j < length sec \<Longrightarrow>
    sec_put i bs sec ! j = (if i \<le> j \<and> j < i + length bs then bs ! (j - i) else sec ! j)"
  by (auto simp: sec_put_def nth_append)

lemma sec_get_put_other:
  assumes "i + length bs \<le> length sec" and "j + n \<le> i \<or> i + length bs \<le> j" and "j + n \<le> length sec"
  shows "sec_get (sec_put i bs sec) j n = sec_get sec j n"
  using assms by (intro nth_equalityI) (auto simp: sec_get_def nth_sec_put)

end
