(* ===== verification/Blk.thy ===== *)
theory Blk
  imports Store
begin

text \<open>
  The block layer, \<^verbatim>\<open>src/drivers/block/blk.c\<close>: the device registry and the write-back
  sector cache between disk drivers and file systems.  Devices are numbered; a
  driver is a record of operations on a driver state, and its contract is the locale
  \<open>disk_driver\<close>.  The cache keeps its buffers, its hash chains and its LRU list; what a
  client sees of it is \<open>blk_view\<close>, the cached sector or else the sector on the medium.
  \<open>g_blk_lock\<close> is held over each operation.
\<close>

section \<open>Devices and drivers\<close>

definition BLK_MAX_DEVICES :: nat where
  "BLK_MAX_DEVICES = 32"

definition BLK_NAME_MAX :: nat where
  "BLK_NAME_MAX = 16"

definition BCACHE_BUFFERS :: nat where
  "BCACHE_BUFFERS = 128"

definition BCACHE_BUCKETS :: nat where
  "BCACHE_BUCKETS = 64"

definition BLK_READ_RUN :: nat where
  "BLK_READ_RUN = 64"

text \<open>
  \<open>bd_address\<close> is the address of the structure, which the hash function uses; the three
  Booleans say which driver operations are present (none in a partition).
\<close>

record blkdev =
  bd_name :: string
  bd_sectors :: nat
  bd_readonly :: bool
  bd_has_read :: bool
  bd_has_write :: bool
  bd_has_flush :: bool
  bd_parent :: "nat option"
  bd_start :: nat
  bd_owned :: bool
  bd_address :: u64

text \<open>Driver operations on device, first sector, sector count; \<open>'w\<close> is the state of the drivers and media.\<close>

record 'w driver =
  dv_read :: "nat \<Rightarrow> nat \<Rightarrow> nat \<Rightarrow> 'w \<Rightarrow> u8 list res \<times> 'w"
  dv_write :: "nat \<Rightarrow> nat \<Rightarrow> nat \<Rightarrow> u8 list \<Rightarrow> 'w \<Rightarrow> unit res \<times> 'w"
  dv_flush :: "nat \<Rightarrow> 'w \<Rightarrow> unit res \<times> 'w"

record blkbuf =
  bb_dev :: "nat option"
  bb_lba :: nat
  bb_refs :: nat
  bb_dirty :: bool
  bb_data :: "u8 list"

record 'w blk =
  g_devs :: "nat \<Rightarrow> nat option"
  g_devinfo :: "nat \<Rightarrow> blkdev"
  g_pool :: "nat \<Rightarrow> blkbuf"
  g_buckets :: "nat \<Rightarrow> nat list"
  g_lru :: "nat list"
  g_ready :: bool
  g_world :: 'w

text \<open>
  The parent chain of a device is followed with fuel; partitions are registered with a
  parent that exists, so a chain is never longer than the number of devices.
\<close>

fun root_of_fuel :: "nat \<Rightarrow> (nat \<Rightarrow> blkdev) \<Rightarrow> nat \<Rightarrow> nat \<Rightarrow> nat \<times> nat" where
  "root_of_fuel 0 devs d lba = (d, lba)"
| "root_of_fuel (Suc n) devs d lba =
    (case bd_parent (devs d) of
       None \<Rightarrow> (d, lba)
     | Some p \<Rightarrow> root_of_fuel n devs p (add64 lba (bd_start (devs d))))"

definition root_of :: "'w blk \<Rightarrow> nat \<Rightarrow> nat \<Rightarrow> nat \<times> nat" where
  "root_of s d lba = root_of_fuel BLK_MAX_DEVICES (g_devinfo s) d lba"

definition range_ok :: "blkdev \<Rightarrow> nat \<Rightarrow> nat \<Rightarrow> bool" where
  "range_ok dev lba count \<longleftrightarrow>
     count > 0 \<and> lba \<le> bd_sectors dev \<and> count \<le> bd_sectors dev - lba"

definition hash_of :: "u64 \<Rightarrow> nat \<Rightarrow> nat" where
  "hash_of address lba =
    (let x = drop_bit 4 address;
         x1 = x XOR (of_nat lba * 0x9E3779B1);
         x2 = x1 XOR drop_bit 17 x1
     in unat x2 mod BCACHE_BUCKETS)"

definition bucket_of :: "'w blk \<Rightarrow> nat \<Rightarrow> nat \<Rightarrow> nat" where
  "bucket_of s d lba = hash_of (bd_address (g_devinfo s d)) lba"

definition drv_read :: "'w driver \<Rightarrow> nat \<Rightarrow> nat \<Rightarrow> nat \<Rightarrow> 'w blk \<Rightarrow> u8 list res \<times> 'w blk" where
  "drv_read drv root lba count s =
    (if \<not> bd_has_read (g_devinfo s root) then (Inl ENODEV, s)
     else if \<not> range_ok (g_devinfo s root) lba count then (Inl EINVAL, s)
     else let (r, w) = dv_read drv root lba count (g_world s) in (r, s\<lparr>g_world := w\<rparr>))"

definition drv_write ::
    "'w driver \<Rightarrow> nat \<Rightarrow> nat \<Rightarrow> nat \<Rightarrow> u8 list \<Rightarrow> 'w blk \<Rightarrow> unit res \<times> 'w blk" where
  "drv_write drv root lba count buf s =
    (if bd_readonly (g_devinfo s root) then (Inl EROFS, s)
     else if \<not> bd_has_write (g_devinfo s root) then (Inl EROFS, s)
     else if \<not> range_ok (g_devinfo s root) lba count then (Inl EINVAL, s)
     else let (r, w) = dv_write drv root lba count buf (g_world s) in (r, s\<lparr>g_world := w\<rparr>))"

section \<open>LRU list and hash chains\<close>

definition lru_touch :: "nat \<Rightarrow> 'w blk \<Rightarrow> 'w blk" where
  "lru_touch b s =
    (case g_lru s of
       [] \<Rightarrow> s
     | h # _ \<Rightarrow> if h = b then s else s\<lparr>g_lru := b # remove1 b (g_lru s)\<rparr>)"

definition upd_buf :: "nat \<Rightarrow> (blkbuf \<Rightarrow> blkbuf) \<Rightarrow> 'w blk \<Rightarrow> 'w blk" where
  "upd_buf b f s = s\<lparr>g_pool := (g_pool s)(b := f (g_pool s b))\<rparr>"

definition hash_remove :: "nat \<Rightarrow> 'w blk \<Rightarrow> 'w blk" where
  "hash_remove b s =
    (case bb_dev (g_pool s b) of
       None \<Rightarrow> s
     | Some d \<Rightarrow>
         let h = bucket_of s d (bb_lba (g_pool s b))
         in s\<lparr>g_buckets := (g_buckets s)(h := remove1 b (g_buckets s h))\<rparr>)"

definition blk_lookup :: "nat \<Rightarrow> nat \<Rightarrow> 'w blk \<Rightarrow> nat option" where
  "blk_lookup root lba s =
    find (\<lambda>b. bb_dev (g_pool s b) = Some root \<and> bb_lba (g_pool s b) = lba)
         (g_buckets s (bucket_of s root lba))"

text \<open>A dirty buffer always belongs to a device; one that does not is left alone.\<close>

definition write_back :: "'w driver \<Rightarrow> nat \<Rightarrow> 'w blk \<Rightarrow> unit res \<times> 'w blk" where
  "write_back drv b s =
    (if \<not> bb_dirty (g_pool s b) then (Inr (), s)
     else case bb_dev (g_pool s b) of
            None \<Rightarrow> (Inr (), s)
          | Some d \<Rightarrow>
              (case drv_write drv d (bb_lba (g_pool s b)) 1 (bb_data (g_pool s b)) s of
                 (Inl e, s1) \<Rightarrow> (Inl e, s1)
               | (Inr _, s1) \<Rightarrow> (Inr (), upd_buf b (\<lambda>x. x\<lparr>bb_dirty := False\<rparr>) s1)))"

definition take_victim :: "'w driver \<Rightarrow> 'w blk \<Rightarrow> nat res \<times> 'w blk" where
  "take_victim drv s =
    (case find (\<lambda>b. bb_refs (g_pool s b) = 0) (rev (g_lru s)) of
       None \<Rightarrow> (Inl EBUSY, s)
     | Some b \<Rightarrow>
         (case write_back drv b s of
            (Inl e, s1) \<Rightarrow> (Inl e, s1)
          | (Inr _, s1) \<Rightarrow>
              (Inr b, upd_buf b (\<lambda>x. x\<lparr>bb_dev := None\<rparr>) (hash_remove b s1))))"

definition install_buf :: "nat \<Rightarrow> nat \<Rightarrow> nat \<Rightarrow> u8 list \<Rightarrow> 'w blk \<Rightarrow> 'w blk" where
  "install_buf b root lba data s =
    (let s1 = upd_buf b (\<lambda>x. x\<lparr>bb_data := data, bb_dev := Some root, bb_lba := lba,
                             bb_dirty := False, bb_refs := 1\<rparr>) s;
         h = bucket_of s root lba
     in lru_touch b (s1\<lparr>g_buckets := (g_buckets s1)(h := b # g_buckets s1 h)\<rparr>))"

definition get_buf :: "'w driver \<Rightarrow> nat \<Rightarrow> nat \<Rightarrow> bool \<Rightarrow> 'w blk \<Rightarrow> nat res \<times> 'w blk" where
  "get_buf drv root lba read s =
    (case blk_lookup root lba s of
       Some b \<Rightarrow> (Inr b, lru_touch b (upd_buf b (\<lambda>x. x\<lparr>bb_refs := bb_refs x + 1\<rparr>) s))
     | None \<Rightarrow>
         (case take_victim drv s of
            (Inl e, s1) \<Rightarrow> (Inl e, s1)
          | (Inr b, s1) \<Rightarrow>
              if read
              then (case drv_read drv root lba 1 s1 of
                      (Inl e, s2) \<Rightarrow> (Inl e, s2)
                    | (Inr data, s2) \<Rightarrow> (Inr b, install_buf b root lba data s2))
              else (Inr b, install_buf b root lba (replicate BLK_SECTOR_SIZE 0) s1)))"

section \<open>Registry\<close>

definition blk_init :: "bool \<Rightarrow> 'w blk \<Rightarrow> 'w blk" where
  "blk_init have_memory s =
    (if g_ready s then s
     else if have_memory
     then s\<lparr>g_pool := (\<lambda>_. \<lparr>bb_dev = None, bb_lba = 0, bb_refs = 0, bb_dirty = False,
                             bb_data = replicate BLK_SECTOR_SIZE 0\<rparr>),
            g_lru := rev [0..<BCACHE_BUFFERS], g_ready := True\<rparr>
     else s)"

definition registered :: "'w blk \<Rightarrow> string \<Rightarrow> bool" where
  "registered s name \<longleftrightarrow>
     (\<exists>i \<in> set [0..<BLK_MAX_DEVICES]. case g_devs s i of None \<Rightarrow> False | Some d \<Rightarrow> bd_name (g_devinfo s d) = name)"

definition blk_register :: "nat \<Rightarrow> 'w blk \<Rightarrow> unit res \<times> 'w blk" where
  "blk_register d s =
    (let dev = g_devinfo s d
     in if bd_name dev = [] then (Inl EINVAL, s)
        else if bd_parent dev = None \<and> \<not> bd_has_read dev then (Inl EINVAL, s)
        else if (case bd_parent dev of
                   None \<Rightarrow> False
                 | Some p \<Rightarrow> add64 (bd_start dev) (bd_sectors dev) > bd_sectors (g_devinfo s p))
        then (Inl EINVAL, s)
        else if registered s (bd_name dev) then (Inl EEXIST, s)
        else case find (\<lambda>i. g_devs s i = None) [0..<BLK_MAX_DEVICES] of
               None \<Rightarrow> (Inl ENOSPC, s)
             | Some i \<Rightarrow> (Inr (), s\<lparr>g_devs := (g_devs s)(i := Some d)\<rparr>))"

definition blk_find :: "string \<Rightarrow> 'w blk \<Rightarrow> nat option" where
  "blk_find name s =
    (case find (\<lambda>i. case g_devs s i of None \<Rightarrow> False | Some d \<Rightarrow> bd_name (g_devinfo s d) = name)
            [0..<BLK_MAX_DEVICES] of
       None \<Rightarrow> None | Some i \<Rightarrow> g_devs s i)"

definition blk_get :: "nat \<Rightarrow> 'w blk \<Rightarrow> nat option" where
  "blk_get index s =
    (let live = filter (\<lambda>i. g_devs s i \<noteq> None) [0..<BLK_MAX_DEVICES]
     in if index < length live then g_devs s (live ! index) else None)"

definition blk_count :: "'w blk \<Rightarrow> nat" where
  "blk_count s = length (filter (\<lambda>i. g_devs s i \<noteq> None) [0..<BLK_MAX_DEVICES])"

section \<open>Flushing and unregistering\<close>

fun flush_bufs :: "'w driver \<Rightarrow> nat \<Rightarrow> nat list \<Rightarrow> errno option \<Rightarrow> 'w blk \<Rightarrow> errno option \<times> 'w blk" where
  "flush_bufs drv root [] err s = (err, s)"
| "flush_bufs drv root (b # bs) err s =
    (if bb_dev (g_pool s b) \<noteq> Some root \<or> \<not> bb_dirty (g_pool s b)
     then flush_bufs drv root bs err s
     else case write_back drv b s of
            (Inr _, s1) \<Rightarrow> flush_bufs drv root bs err s1
          | (Inl e, s1) \<Rightarrow> flush_bufs drv root bs (case err of None \<Rightarrow> Some e | Some _ \<Rightarrow> err) s1)"

definition flush_root_locked :: "'w driver \<Rightarrow> nat \<Rightarrow> 'w blk \<Rightarrow> unit res \<times> 'w blk" where
  "flush_root_locked drv root s =
    (case (if g_ready s then flush_bufs drv root [0..<BCACHE_BUFFERS] None s else (None, s)) of
       (Some e, s1) \<Rightarrow> (Inl e, s1)
     | (None, s1) \<Rightarrow>
         if bd_has_flush (g_devinfo s1 root)
         then let (r, w) = dv_flush drv root (g_world s1) in (r, s1\<lparr>g_world := w\<rparr>)
         else (Inr (), s1))"

definition drop_bufs :: "nat \<Rightarrow> 'w blk \<Rightarrow> 'w blk" where
  "drop_bufs d s =
    fold (\<lambda>b s. if bb_dev (g_pool s b) = Some d
               then upd_buf b (\<lambda>x. x\<lparr>bb_dev := None, bb_dirty := False\<rparr>) (hash_remove b s) else s)
         [0..<BCACHE_BUFFERS] s"

definition unregister_root :: "'w driver \<Rightarrow> nat \<Rightarrow> 'w blk \<Rightarrow> unit res \<times> 'w blk" where
  "unregister_root drv d s =
    (case flush_root_locked drv d s of
       (Inl e, s1) \<Rightarrow> (Inl e, s1)
     | (Inr _, s1) \<Rightarrow>
         if g_ready s1
         then if \<exists>b \<in> set [0..<BCACHE_BUFFERS]. bb_dev (g_pool s1 b) = Some d \<and> bb_refs (g_pool s1 b) \<noteq> 0
              then (Inl EBUSY, s1)
              else (Inr (), drop_bufs d s1)
         else (Inr (), s1))"

definition forget_dev :: "nat \<Rightarrow> 'w blk \<Rightarrow> 'w blk" where
  "forget_dev d s = s\<lparr>g_devs := (\<lambda>i. if i < BLK_MAX_DEVICES \<and> g_devs s i = Some d then None else g_devs s i)\<rparr>"

fun unregister_all :: "(nat \<Rightarrow> 'w blk \<Rightarrow> unit res \<times> 'w blk) \<Rightarrow> nat list \<Rightarrow> 'w blk \<Rightarrow> unit res \<times> 'w blk" where
  "unregister_all unreg [] s = (Inr (), s)"
| "unregister_all unreg (c # cs) s =
    (case unreg c s of (Inl e, s1) \<Rightarrow> (Inl e, s1) | (Inr _, s1) \<Rightarrow> unregister_all unreg cs s1)"

text \<open>The recursion over children (partitions of a disk) with the fuel of the parent chain.\<close>

fun blk_unregister_fuel :: "nat \<Rightarrow> 'w driver \<Rightarrow> nat \<Rightarrow> 'w blk \<Rightarrow> unit res \<times> 'w blk" where
  "blk_unregister_fuel 0 drv d s = (Inl ENODEV, s)"
| "blk_unregister_fuel (Suc n) drv d s =
    (let live = filter (\<lambda>i. g_devs s i \<noteq> None) [0..<BLK_MAX_DEVICES];
         children = filter (\<lambda>c. c \<noteq> d \<and> bd_parent (g_devinfo s c) = Some d) (map (\<lambda>i. the (g_devs s i)) live)
     in if \<not> (\<exists>i \<in> set live. g_devs s i = Some d) then (Inl ENODEV, s)
        else case unregister_all (blk_unregister_fuel n drv) children s of
               (Inl e, s1) \<Rightarrow> (Inl e, s1)
             | (Inr _, s1) \<Rightarrow>
                 (case (if bd_parent (g_devinfo s1 d) = None then unregister_root drv d s1 else (Inr (), s1)) of
                    (Inl e, s2) \<Rightarrow> (Inl e, s2)
                  | (Inr _, s2) \<Rightarrow> (Inr (), forget_dev d s2)))"

definition blk_unregister :: "'w driver \<Rightarrow> nat \<Rightarrow> 'w blk \<Rightarrow> unit res \<times> 'w blk" where
  "blk_unregister drv d s = blk_unregister_fuel (Suc BLK_MAX_DEVICES) drv d s"

section \<open>Sector I/O\<close>

text \<open>The number of sectors to read around, starting with \<open>step\<close> and with \<open>n\<close> more candidates.\<close>

fun read_run :: "nat \<Rightarrow> nat \<Rightarrow> nat \<Rightarrow> nat \<Rightarrow> 'w blk \<Rightarrow> nat" where
  "read_run root lba step 0 s = step"
| "read_run root lba step (Suc n) s =
    (if blk_lookup root (lba + step) s = None then read_run root lba (step + 1) n s else step)"

lemma read_run_ge: "step \<le> read_run root lba step n s"
  by (induction n arbitrary: step) (auto intro: Suc_leD)

function blk_read_loop ::
    "'w driver \<Rightarrow> nat \<Rightarrow> nat \<Rightarrow> nat \<Rightarrow> u8 list \<Rightarrow> 'w blk \<Rightarrow> u8 list res \<times> 'w blk" where
  "blk_read_loop drv root lba count out s =
    (if count = 0 then (Inr out, s)
     else case blk_lookup root lba s of
            Some b \<Rightarrow>
              blk_read_loop drv root (lba + 1) (count - 1) (out @ bb_data (g_pool s b)) (lru_touch b s)
          | None \<Rightarrow>
              let step = read_run root lba 1 (min count BLK_READ_RUN - 1) s
              in (case drv_read drv root lba step s of
                    (Inl e, s1) \<Rightarrow> (Inl e, s1)
                  | (Inr bs, s1) \<Rightarrow> blk_read_loop drv root (lba + step) (count - step) (out @ bs) s1))"
  by pat_completeness auto

termination
  by (relation "measure (\<lambda>(drv, root, lba, count, out, s). count)")
    (auto intro: diff_less dest: sym intro!: diff_less less_le_trans [OF _ read_run_ge])

definition blk_read :: "'w driver \<Rightarrow> nat \<Rightarrow> nat \<Rightarrow> nat \<Rightarrow> 'w blk \<Rightarrow> u8 list res \<times> 'w blk" where
  "blk_read drv d lba count s =
    (if \<not> range_ok (g_devinfo s d) lba count then (Inl EINVAL, s)
     else let (root, abs) = root_of s d lba
          in if \<not> g_ready s then drv_read drv root abs count s
             else blk_read_loop drv root abs count [] s)"

fun blk_write_loop :: "'w driver \<Rightarrow> nat \<Rightarrow> nat \<Rightarrow> u8 list list \<Rightarrow> 'w blk \<Rightarrow> unit res \<times> 'w blk" where
  "blk_write_loop drv root lba [] s = (Inr (), s)"
| "blk_write_loop drv root lba (sec # secs) s =
    (case get_buf drv root lba False s of
       (Inl e, s1) \<Rightarrow> (Inl e, s1)
     | (Inr b, s1) \<Rightarrow>
         blk_write_loop drv root (lba + 1) secs
           (upd_buf b (\<lambda>x. x\<lparr>bb_data := sec, bb_dirty := True, bb_refs := bb_refs x - 1\<rparr>) s1))"

text \<open>The caller's buffer is \<open>count\<close> sectors, given as a list of sectors.\<close>

definition blk_write :: "'w driver \<Rightarrow> nat \<Rightarrow> nat \<Rightarrow> u8 list list \<Rightarrow> 'w blk \<Rightarrow> unit res \<times> 'w blk" where
  "blk_write drv d lba secs s =
    (if \<not> range_ok (g_devinfo s d) lba (length secs) then (Inl EINVAL, s)
     else let (root, abs) = root_of s d lba
          in if bd_readonly (g_devinfo s d) \<or> bd_readonly (g_devinfo s root) then (Inl EROFS, s)
             else if \<not> g_ready s then drv_write drv root abs (length secs) (concat secs) s
             else blk_write_loop drv root abs secs s)"

definition blk_flush :: "'w driver \<Rightarrow> nat \<Rightarrow> 'w blk \<Rightarrow> unit res \<times> 'w blk" where
  "blk_flush drv d s = flush_root_locked drv (fst (root_of s d 0)) s"

fun sync_devs :: "'w driver \<Rightarrow> nat list \<Rightarrow> errno option \<Rightarrow> 'w blk \<Rightarrow> errno option \<times> 'w blk" where
  "sync_devs drv [] err s = (err, s)"
| "sync_devs drv (i # is) err s =
    (case g_devs s i of
       None \<Rightarrow> sync_devs drv is err s
     | Some d \<Rightarrow>
         if bd_parent (g_devinfo s d) \<noteq> None then sync_devs drv is err s
         else (case flush_root_locked drv d s of
                 (Inr _, s1) \<Rightarrow> sync_devs drv is err s1
               | (Inl e, s1) \<Rightarrow> sync_devs drv is (case err of None \<Rightarrow> Some e | Some _ \<Rightarrow> err) s1))"

definition blk_sync_all :: "'w driver \<Rightarrow> 'w blk \<Rightarrow> errno option \<times> 'w blk" where
  "blk_sync_all drv s = sync_devs drv [0..<BLK_MAX_DEVICES] None s"

section \<open>Buffers and byte I/O\<close>

definition buf_get :: "'w driver \<Rightarrow> nat \<Rightarrow> nat \<Rightarrow> bool \<Rightarrow> 'w blk \<Rightarrow> nat res \<times> 'w blk" where
  "buf_get drv d lba read s =
    (if \<not> range_ok (g_devinfo s d) lba 1 then (Inl EINVAL, s)
     else if \<not> g_ready s then (Inl ENOMEM, s)
     else let (root, abs) = root_of s d lba
          in if \<not> read \<and> (bd_readonly (g_devinfo s d) \<or> bd_readonly (g_devinfo s root)) then (Inl EROFS, s)
             else case get_buf drv root abs read s of
                    (Inl e, s1) \<Rightarrow> (Inl e, s1)
                  | (Inr b, s1) \<Rightarrow>
                      (Inr b, if read then s1
                              else upd_buf b (\<lambda>x. x\<lparr>bb_data := replicate BLK_SECTOR_SIZE 0, bb_dirty := True\<rparr>) s1))"

definition bread :: "'w driver \<Rightarrow> nat \<Rightarrow> nat \<Rightarrow> 'w blk \<Rightarrow> nat res \<times> 'w blk" where
  "bread drv d lba s = buf_get drv d lba True s"

definition bnew :: "'w driver \<Rightarrow> nat \<Rightarrow> nat \<Rightarrow> 'w blk \<Rightarrow> nat res \<times> 'w blk" where
  "bnew drv d lba s = buf_get drv d lba False s"

definition bdirty :: "nat \<Rightarrow> 'w blk \<Rightarrow> 'w blk" where
  "bdirty b s = upd_buf b (\<lambda>x. x\<lparr>bb_dirty := True\<rparr>) s"

definition brelse :: "nat \<Rightarrow> 'w blk \<Rightarrow> 'w blk" where
  "brelse b s = upd_buf b (\<lambda>x. x\<lparr>bb_refs := bb_refs x - 1\<rparr>) s"

text \<open>
  The two uses file systems make of a buffer: pin it, copy its bytes, release it; and pin
  it (new or read), change its bytes, mark it dirty, release it.
\<close>

definition buf_copy :: "'w driver \<Rightarrow> nat \<Rightarrow> nat \<Rightarrow> 'w blk \<Rightarrow> u8 list res \<times> 'w blk" where
  "buf_copy drv d lba s =
    (case bread drv d lba s of
       (Inl e, s1) \<Rightarrow> (Inl e, s1)
     | (Inr b, s1) \<Rightarrow> (Inr (bb_data (g_pool s1 b)), brelse b s1))"

definition buf_modify ::
    "'w driver \<Rightarrow> bool \<Rightarrow> nat \<Rightarrow> nat \<Rightarrow> (u8 list \<Rightarrow> u8 list) \<Rightarrow> 'w blk \<Rightarrow> unit res \<times> 'w blk" where
  "buf_modify drv fresh d lba f s =
    (case (if fresh then bnew drv d lba s else bread drv d lba s) of
       (Inl e, s1) \<Rightarrow> (Inl e, s1)
     | (Inr b, s1) \<Rightarrow>
         (Inr (), brelse b (bdirty b (upd_buf b (\<lambda>x. x\<lparr>bb_data := f (bb_data x)\<rparr>) s1))))"

text \<open>
  The general pattern of the file systems: \<open>f\<close> looks at the bytes of a buffer and may replace
  them; and \<open>bnew\<close> followed by \<open>brelse\<close>, which leaves a zeroed dirty sector.
\<close>

definition buf_edit ::
    "'w driver \<Rightarrow> nat \<Rightarrow> nat \<Rightarrow> (u8 list \<Rightarrow> u8 list option) \<Rightarrow> 'w blk \<Rightarrow> u8 list res \<times> 'w blk" where
  "buf_edit drv d lba f s =
    (case bread drv d lba s of
       (Inl e, s1) \<Rightarrow> (Inl e, s1)
     | (Inr b, s1) \<Rightarrow>
         let old = bb_data (g_pool s1 b)
         in (Inr old, case f old of
               None \<Rightarrow> brelse b s1
             | Some new \<Rightarrow> brelse b (bdirty b (upd_buf b (\<lambda>x. x\<lparr>bb_data := new\<rparr>) s1))))"

definition buf_zero :: "'w driver \<Rightarrow> nat \<Rightarrow> nat \<Rightarrow> 'w blk \<Rightarrow> unit res \<times> 'w blk" where
  "buf_zero drv d lba s =
    (case bnew drv d lba s of
       (Inl e, s1) \<Rightarrow> (Inl e, s1)
     | (Inr b, s1) \<Rightarrow> (Inr (), brelse b s1))"

definition bytes_ok :: "blkdev \<Rightarrow> nat \<Rightarrow> nat \<Rightarrow> bool" where
  "bytes_ok dev offset len \<longleftrightarrow>
    (let sz = (bd_sectors dev * BLK_SECTOR_SIZE) mod 2 ^ 64 in offset \<le> sz \<and> len \<le> sz - offset)"

function read_bytes_loop :: "'w driver \<Rightarrow> nat \<Rightarrow> nat \<Rightarrow> nat \<Rightarrow> u8 list \<Rightarrow> 'w blk \<Rightarrow> u8 list res \<times> 'w blk" where
  "read_bytes_loop drv d offset len out s =
    (if len = 0 then (Inr out, s)
     else case buf_copy drv d (offset div BLK_SECTOR_SIZE) s of
            (Inl e, s1) \<Rightarrow> (Inl e, s1)
          | (Inr sec, s1) \<Rightarrow>
              let within = offset mod BLK_SECTOR_SIZE;
                  chunk = min (BLK_SECTOR_SIZE - within) len
              in read_bytes_loop drv d (offset + chunk) (len - chunk) (out @ sec_get sec within chunk) s1)"
  by pat_completeness auto
termination
  by (relation "measure (\<lambda>(drv, d, offset, len, out, s). len)") (auto simp: BLK_SECTOR_SIZE_def)

definition blk_read_bytes :: "'w driver \<Rightarrow> nat \<Rightarrow> nat \<Rightarrow> nat \<Rightarrow> 'w blk \<Rightarrow> u8 list res \<times> 'w blk" where
  "blk_read_bytes drv d offset len s =
    (if \<not> bytes_ok (g_devinfo s d) offset len then (Inl EINVAL, s)
     else read_bytes_loop drv d offset len [] s)"

function write_bytes_loop :: "'w driver \<Rightarrow> nat \<Rightarrow> nat \<Rightarrow> u8 list \<Rightarrow> 'w blk \<Rightarrow> unit res \<times> 'w blk" where
  "write_bytes_loop drv d offset bs s =
    (if bs = [] then (Inr (), s)
     else let within = offset mod BLK_SECTOR_SIZE;
              chunk = min (BLK_SECTOR_SIZE - within) (length bs)
          in (case buf_modify drv (chunk = BLK_SECTOR_SIZE) d (offset div BLK_SECTOR_SIZE)
                     (sec_put within (take chunk bs)) s of
                (Inl e, s1) \<Rightarrow> (Inl e, s1)
              | (Inr _, s1) \<Rightarrow> write_bytes_loop drv d (offset + chunk) (drop chunk bs) s1))"
  by pat_completeness auto
termination
  by (relation "measure (\<lambda>(drv, d, offset, bs, s). length bs)") (auto simp: BLK_SECTOR_SIZE_def)

definition blk_write_bytes :: "'w driver \<Rightarrow> nat \<Rightarrow> nat \<Rightarrow> u8 list \<Rightarrow> 'w blk \<Rightarrow> unit res \<times> 'w blk" where
  "blk_write_bytes drv d offset bs s =
    (if \<not> bytes_ok (g_devinfo s d) offset (length bs) then (Inl EINVAL, s)
     else if bd_readonly (g_devinfo s d) \<or> bd_readonly (g_devinfo s (fst (root_of s d 0))) then (Inl EROFS, s)
     else write_bytes_loop drv d offset bs s)"

section \<open>Abstraction and invariant\<close>

text \<open>
  \<open>blk_struct\<close>: the LRU list is a permutation of the pool, the hash chains hold exactly the
  buffers in use, each sector is cached at most once, and a free buffer is clean and
  unreferenced.  \<open>blk_clean\<close>: a clean buffer, other than those in \<open>X\<close>, agrees with the medium.
\<close>

definition blk_lru_ok :: "'w blk \<Rightarrow> bool" where
  "blk_lru_ok s \<longleftrightarrow> distinct (g_lru s) \<and> set (g_lru s) = {..<BCACHE_BUFFERS}"

definition blk_chains_ok :: "'w blk \<Rightarrow> bool" where
  "blk_chains_ok s \<longleftrightarrow>
     (\<forall>h. distinct (g_buckets s h)) \<and>
     (\<forall>h b. b \<in> set (g_buckets s h) \<longleftrightarrow> b < BCACHE_BUFFERS \<and>
        (\<exists>d. bb_dev (g_pool s b) = Some d \<and> bucket_of s d (bb_lba (g_pool s b)) = h))"

definition blk_unique :: "'w blk \<Rightarrow> bool" where
  "blk_unique s \<longleftrightarrow>
     (\<forall>b < BCACHE_BUFFERS. \<forall>c < BCACHE_BUFFERS. \<forall>d.
        bb_dev (g_pool s b) = Some d \<longrightarrow> bb_dev (g_pool s c) = Some d \<longrightarrow>
        bb_lba (g_pool s b) = bb_lba (g_pool s c) \<longrightarrow> b = c)"

definition blk_bufs_ok :: "'w blk \<Rightarrow> bool" where
  "blk_bufs_ok s \<longleftrightarrow>
     (\<forall>b < BCACHE_BUFFERS. length (bb_data (g_pool s b)) = BLK_SECTOR_SIZE \<and>
        (bb_dev (g_pool s b) = None \<longrightarrow> \<not> bb_dirty (g_pool s b) \<and> bb_refs (g_pool s b) = 0))"

definition blk_struct :: "'w blk \<Rightarrow> bool" where
  "blk_struct s \<longleftrightarrow> blk_lru_ok s \<and> blk_chains_ok s \<and> blk_unique s \<and> blk_bufs_ok s"

definition blk_clean :: "('w \<Rightarrow> nat \<Rightarrow> nat \<Rightarrow> u8 list) \<Rightarrow> nat set \<Rightarrow> 'w blk \<Rightarrow> bool" where
  "blk_clean medium X s \<longleftrightarrow>
     (\<forall>b < BCACHE_BUFFERS. \<forall>d. b \<notin> X \<longrightarrow> bb_dev (g_pool s b) = Some d \<longrightarrow> \<not> bb_dirty (g_pool s b) \<longrightarrow>
        bb_data (g_pool s b) = medium (g_world s) d (bb_lba (g_pool s b)))"

definition blk_inv :: "('w \<Rightarrow> nat \<Rightarrow> nat \<Rightarrow> u8 list) \<Rightarrow> 'w blk \<Rightarrow> bool" where
  "blk_inv medium s \<longleftrightarrow> g_ready s \<and> blk_struct s \<and> blk_clean medium {} s"

text \<open>The contents of a sector as a client of the cache sees it.\<close>

definition blk_view :: "('w \<Rightarrow> nat \<Rightarrow> nat \<Rightarrow> u8 list) \<Rightarrow> 'w blk \<Rightarrow> nat \<Rightarrow> nat \<Rightarrow> u8 list" where
  "blk_view medium s root lba =
    (case blk_lookup root lba s of
       Some b \<Rightarrow> bb_data (g_pool s b)
     | None \<Rightarrow> medium (g_world s) root lba)"

declare blk_read_loop.simps [simp del] read_bytes_loop.simps [simp del] write_bytes_loop.simps [simp del]

end
