(* ===== verification/BlkCache.thy ===== *)
theory BlkCache
  imports Blk
begin

text \<open>
  Correctness of the sector cache of \<^verbatim>\<open>src/drivers/block/blk.c\<close>: whatever the driver does
  within its contract, including failing, reads see the last write, and a successful
  flush makes the medium agree with what clients see.
\<close>

section \<open>The cache structure\<close>

lemma upd_buf_simps [simp]:
  "g_pool (upd_buf b f s) = (g_pool s)(b := f (g_pool s b))"
  "g_buckets (upd_buf b f s) = g_buckets s" "g_lru (upd_buf b f s) = g_lru s"
  "g_ready (upd_buf b f s) = g_ready s" "g_world (upd_buf b f s) = g_world s"
  "g_devinfo (upd_buf b f s) = g_devinfo s" "g_devs (upd_buf b f s) = g_devs s"
  by (simp_all add: upd_buf_def)

lemma lru_touch_simps [simp]:
  "g_pool (lru_touch b s) = g_pool s" "g_buckets (lru_touch b s) = g_buckets s"
  "g_ready (lru_touch b s) = g_ready s" "g_world (lru_touch b s) = g_world s"
  "g_devinfo (lru_touch b s) = g_devinfo s" "g_devs (lru_touch b s) = g_devs s"
  by (auto simp: lru_touch_def split: list.splits)

lemma bucket_of_cong [simp]:
  "bucket_of (upd_buf b f s) = bucket_of s"
  "bucket_of (lru_touch b s) = bucket_of s"
  "bucket_of (s\<lparr>g_world := w\<rparr>) = bucket_of s"
  "bucket_of (s\<lparr>g_buckets := k\<rparr>) = bucket_of s"
  by (simp_all add: bucket_of_def fun_eq_iff)

lemma hash_remove_simps [simp]:
  "g_pool (hash_remove b s) = g_pool s" "g_lru (hash_remove b s) = g_lru s"
  "g_ready (hash_remove b s) = g_ready s" "g_world (hash_remove b s) = g_world s"
  "g_devinfo (hash_remove b s) = g_devinfo s" "g_devs (hash_remove b s) = g_devs s"
  "bucket_of (hash_remove b s) = bucket_of s"
  by (auto simp: hash_remove_def Let_def bucket_of_def fun_eq_iff split: option.splits)

lemma lru_touch_set:
  assumes "b \<in> set (g_lru s)" and "distinct (g_lru s)"
  shows "set (g_lru (lru_touch b s)) = set (g_lru s) \<and> distinct (g_lru (lru_touch b s))"
  using assms by (cases "g_lru s") (auto simp: lru_touch_def)

lemma blk_structD:
  assumes "blk_struct s" and "b < BCACHE_BUFFERS"
  shows "b \<in> set (g_lru s)" "length (bb_data (g_pool s b)) = BLK_SECTOR_SIZE"
    "bb_dev (g_pool s b) = None \<Longrightarrow> \<not> bb_dirty (g_pool s b) \<and> bb_refs (g_pool s b) = 0"
    "bb_dev (g_pool s b) = Some d \<Longrightarrow> b \<in> set (g_buckets s (bucket_of s d (bb_lba (g_pool s b))))"
  using assms by (auto simp: blk_struct_def blk_lru_ok_def blk_bufs_ok_def blk_chains_ok_def)

lemma blk_struct_unique:
  assumes "blk_struct s" and "b < BCACHE_BUFFERS" and "c < BCACHE_BUFFERS"
    and "bb_dev (g_pool s b) = Some d" and "bb_dev (g_pool s c) = Some d"
    and "bb_lba (g_pool s b) = bb_lba (g_pool s c)"
  shows "b = c"
  using assms unfolding blk_struct_def blk_unique_def by blast

lemma blk_struct_bucket:
  assumes "blk_struct s" and "b \<in> set (g_buckets s h)"
  shows "b < BCACHE_BUFFERS" "\<exists>d. bb_dev (g_pool s b) = Some d \<and> bucket_of s d (bb_lba (g_pool s b)) = h"
  using assms unfolding blk_struct_def blk_chains_ok_def by blast+

lemma blk_lookup_Some:
  assumes "blk_struct s"
  shows "blk_lookup root lba s = Some b \<longleftrightarrow>
    b < BCACHE_BUFFERS \<and> bb_dev (g_pool s b) = Some root \<and> bb_lba (g_pool s b) = lba"
proof
  assume "blk_lookup root lba s = Some b"
  then show "b < BCACHE_BUFFERS \<and> bb_dev (g_pool s b) = Some root \<and> bb_lba (g_pool s b) = lba"
    using blk_struct_bucket(1) [OF assms] by (auto simp: blk_lookup_def dest!: find_SomeD)
next
  assume b: "b < BCACHE_BUFFERS \<and> bb_dev (g_pool s b) = Some root \<and> bb_lba (g_pool s b) = lba"
  then have mem: "b \<in> set (g_buckets s (bucket_of s root lba))"
    using blk_structD(4) [OF assms, of b root] by auto
  show "blk_lookup root lba s = Some b"
  proof (cases "blk_lookup root lba s")
    case None
    with mem b show ?thesis by (auto simp: blk_lookup_def find_None_iff)
  next
    case (Some c)
    then have "c \<in> set (g_buckets s (bucket_of s root lba))" "bb_dev (g_pool s c) = Some root"
      "bb_lba (g_pool s c) = lba"
      by (auto simp: blk_lookup_def dest!: find_SomeD)
    with b blk_struct_unique [OF assms, of b c root] blk_struct_bucket(1) [OF assms] Some
    show ?thesis by auto
  qed
qed

lemma blk_lookup_None:
  assumes "blk_struct s"
  shows "blk_lookup root lba s = None \<longleftrightarrow>
    (\<forall>b < BCACHE_BUFFERS. bb_dev (g_pool s b) = Some root \<longrightarrow> bb_lba (g_pool s b) \<noteq> lba)"
  using blk_lookup_Some [OF assms, of root lba] by (metis not_None_eq)

text \<open>Changing a buffer but not which sector it holds, or the LRU order, keeps the structure.\<close>

lemma blk_struct_upd:
  assumes "blk_struct s" and "bb_dev (f (g_pool s b)) = bb_dev (g_pool s b)"
    and "bb_lba (f (g_pool s b)) = bb_lba (g_pool s b)"
    and "length (bb_data (f (g_pool s b))) = BLK_SECTOR_SIZE"
    and "bb_dev (g_pool s b) = None \<Longrightarrow> \<not> bb_dirty (f (g_pool s b)) \<and> bb_refs (f (g_pool s b)) = 0"
  shows "blk_struct (upd_buf b f s)"
proof -
  have eqs: "bb_dev (g_pool (upd_buf b f s) c) = bb_dev (g_pool s c)"
    "bb_lba (g_pool (upd_buf b f s) c) = bb_lba (g_pool s c)" for c
    using assms(2,3) by auto
  have "blk_bufs_ok (upd_buf b f s)"
    using assms blk_structD(2,3) [OF assms(1)] by (auto simp: blk_bufs_ok_def)
  moreover have "blk_chains_ok (upd_buf b f s)" "blk_unique (upd_buf b f s)" "blk_lru_ok (upd_buf b f s)"
    using assms(1) unfolding blk_struct_def blk_chains_ok_def blk_unique_def blk_lru_ok_def eqs
      upd_buf_simps(2-) bucket_of_cong by simp_all
  ultimately show ?thesis by (simp add: blk_struct_def)
qed

lemma blk_lru_ok_touch: "blk_lru_ok s \<Longrightarrow> b < BCACHE_BUFFERS \<Longrightarrow> blk_lru_ok (lru_touch b s)"
  using lru_touch_set [of b s] by (auto simp: blk_lru_ok_def)

lemma blk_struct_touch: "blk_struct s \<Longrightarrow> b < BCACHE_BUFFERS \<Longrightarrow> blk_struct (lru_touch b s)"
  using lru_touch_set [of b s]
  by (auto simp: blk_struct_def blk_lru_ok_def blk_chains_ok_def blk_unique_def blk_bufs_ok_def)

lemma blk_struct_world [simp]: "blk_struct (s\<lparr>g_world := w\<rparr>) \<longleftrightarrow> blk_struct s"
  by (simp add: blk_struct_def blk_lru_ok_def blk_chains_ok_def blk_unique_def blk_bufs_ok_def)

lemma blk_lookup_world [simp]:
  "blk_lookup root lba (s\<lparr>g_world := w\<rparr>) = blk_lookup root lba s"
  "blk_lookup root lba (lru_touch b s) = blk_lookup root lba s"
  by (simp_all add: blk_lookup_def)

lemma blk_lookup_upd:
  assumes "bb_dev (f (g_pool s b)) = bb_dev (g_pool s b)" and "bb_lba (f (g_pool s b)) = bb_lba (g_pool s b)"
  shows "blk_lookup root lba (upd_buf b f s) = blk_lookup root lba s"
  unfolding blk_lookup_def by (rule find_cong) (use assms in auto)

section \<open>The driver contract\<close>

text \<open>
  \<open>medium w d a\<close> is the content of sector \<open>a\<close> of device \<open>d\<close>.  A failed write may have changed the
  sectors it was about, and nothing else.
\<close>

locale disk_driver =
  fixes drv :: "'w driver"
    and medium :: "'w \<Rightarrow> nat \<Rightarrow> nat \<Rightarrow> u8 list"
  assumes medium_length: "length (medium w d a) = BLK_SECTOR_SIZE"
    and read_ok: "dv_read drv d a n w = (Inr bs, w') \<Longrightarrow>
      medium w' = medium w \<and> bs = concat (map (medium w d) [a..<a + n])"
    and read_error: "dv_read drv d a n w = (Inl e, w') \<Longrightarrow> medium w' = medium w"
    and write_ok: "dv_write drv d a (length secs) (concat secs) w = (Inr u, w') \<Longrightarrow>
      \<forall>sec \<in> set secs. length sec = BLK_SECTOR_SIZE \<Longrightarrow>
      medium w' d' a' = (if d' = d \<and> a \<le> a' \<and> a' < a + length secs then secs ! (a' - a) else medium w d' a')"
    and write_error: "dv_write drv d a n bs w = (Inl e, w') \<Longrightarrow> d' \<noteq> d \<or> a' < a \<or> a + n \<le> a' \<Longrightarrow>
      medium w' d' a' = medium w d' a'"
    and flush_ok: "dv_flush drv d w = (r, w') \<Longrightarrow> medium w' = medium w"
begin

lemma drv_read_cases:
  assumes "drv_read drv root lba n s = (r, s')"
  shows "(\<exists>w. s' = s\<lparr>g_world := w\<rparr> \<and> medium w = medium (g_world s)) \<and>
    (\<forall>bs. r = Inr bs \<longrightarrow> bs = concat (map (medium (g_world s) root) [lba..<lba + n]))"
proof (cases "bd_has_read (g_devinfo s root) \<and> range_ok (g_devinfo s root) lba n")
  case False
  then have "s' = s\<lparr>g_world := g_world s\<rparr>" "\<exists>e. r = Inl e"
    using assms by (auto simp: drv_read_def split: if_splits)
  then show ?thesis by (intro conjI exI [of _ "g_world s"]) auto
next
  case True
  obtain q w where q: "dv_read drv root lba n (g_world s) = (q, w)" by fastforce
  with True assms have "r = q" "s' = s\<lparr>g_world := w\<rparr>" by (auto simp: drv_read_def)
  then show ?thesis using read_ok read_error q by (cases q) blast+
qed

lemma drv_write1_cases:
  assumes "drv_write drv root lba 1 data s = (r, s')" and "length data = BLK_SECTOR_SIZE"
  shows "\<exists>w. s' = s\<lparr>g_world := w\<rparr> \<and>
    (\<forall>d a. (d, a) \<noteq> (root, lba) \<longrightarrow> medium w d a = medium (g_world s) d a) \<and>
    (r = Inr () \<longrightarrow> medium w root lba = data)"
proof (cases "\<not> bd_readonly (g_devinfo s root) \<and> bd_has_write (g_devinfo s root) \<and>
    range_ok (g_devinfo s root) lba 1")
  case False
  then have "s' = s\<lparr>g_world := g_world s\<rparr>" "\<exists>e. r = Inl e"
    using assms(1) by (auto simp: drv_write_def split: if_splits)
  then show ?thesis by blast
next
  case True
  obtain q w where q: "dv_write drv root lba 1 data (g_world s) = (q, w)" by fastforce
  with True assms(1) have s': "r = q" "s' = s\<lparr>g_world := w\<rparr>" by (auto simp: drv_write_def)
  show ?thesis
  proof (cases q)
    case (Inl e)
    have "medium w d a = medium (g_world s) d a" if "(d, a) \<noteq> (root, lba)" for d a
    proof -
      have "d \<noteq> root \<or> a < lba \<or> lba + 1 \<le> a" using that by (cases "a < lba") auto
      then show ?thesis by (rule write_error [OF q [unfolded Inl]])
    qed
    with Inl s' show ?thesis by (intro exI [of _ w]) auto
  next
    case (Inr u)
    with write_ok [of root lba "[data]" "g_world s" u w] q s' assms(2) show ?thesis
      by (intro exI [of _ w]) auto
  qed
qed

lemma blk_cleanD:
  "blk_clean medium X s \<Longrightarrow> b < BCACHE_BUFFERS \<Longrightarrow> b \<notin> X \<Longrightarrow> bb_dev (g_pool s b) = Some d \<Longrightarrow>
   \<not> bb_dirty (g_pool s b) \<Longrightarrow> bb_data (g_pool s b) = medium (g_world s) d (bb_lba (g_pool s b))"
  by (simp add: blk_clean_def)

text \<open>Writing a buffer back changes no view; on success the buffer is clean.\<close>

lemma write_back_ok:
  assumes st: "blk_struct s" and cl: "blk_clean medium {} s" and b: "b < BCACHE_BUFFERS"
    and wb: "write_back drv b s = (r, s')"
  shows "blk_struct s' \<and> blk_clean medium {} s' \<and> blk_view medium s' = blk_view medium s \<and>
    (\<forall>c. bb_dev (g_pool s' c) = bb_dev (g_pool s c) \<and> bb_lba (g_pool s' c) = bb_lba (g_pool s c) \<and>
         bb_refs (g_pool s' c) = bb_refs (g_pool s c) \<and> bb_data (g_pool s' c) = bb_data (g_pool s c) \<and>
         (bb_dirty (g_pool s' c) \<longrightarrow> bb_dirty (g_pool s c))) \<and>
    (r = Inr () \<longrightarrow> \<not> bb_dirty (g_pool s' b)) \<and>
    g_ready s' = g_ready s \<and> g_devinfo s' = g_devinfo s \<and> g_lru s' = g_lru s \<and> g_buckets s' = g_buckets s"
proof (cases "bb_dirty (g_pool s b)")
  case False
  with wb st cl show ?thesis by (auto simp: write_back_def)
next
  case dirty: True
  then obtain d where d: "bb_dev (g_pool s b) = Some d"
    using blk_structD(3) [OF st b] by (cases "bb_dev (g_pool s b)") auto
  define lba where "lba = bb_lba (g_pool s b)"
  define data where "data = bb_data (g_pool s b)"
  obtain q s1 where q: "drv_write drv d lba 1 data s = (q, s1)" by fastforce
  have "length data = BLK_SECTOR_SIZE" using blk_structD(2) [OF st b] by (simp add: data_def)
  from drv_write1_cases [OF q this] obtain w where w: "s1 = s\<lparr>g_world := w\<rparr>"
    "\<And>d' a. (d', a) \<noteq> (d, lba) \<Longrightarrow> medium w d' a = medium (g_world s) d' a"
    "q = Inr () \<Longrightarrow> medium w d lba = data" by blast
  have hit: "blk_lookup d lba s = Some b"
    using blk_lookup_Some [OF st, of d lba b] b d by (simp add: lba_def)
  have other: "(d', bb_lba (g_pool s c)) \<noteq> (d, lba)"
    if "c < BCACHE_BUFFERS" "c \<noteq> b" "bb_dev (g_pool s c) = Some d'" for c d'
    using that blk_struct_unique [OF st that(1) b, of d] d by (auto simp: lba_def)
  have view1: "blk_view medium s1 = blk_view medium s"
  proof (intro ext)
    fix d' a show "blk_view medium s1 d' a = blk_view medium s d' a"
      using w(1) w(2) [of d' a] hit by (cases "(d', a) = (d, lba)") (auto simp: blk_view_def split: option.split)
  qed
  show ?thesis
  proof (cases q)
    case (Inl e)
    then have s': "s' = s1" "r = Inl e" using wb dirty d q by (auto simp: write_back_def lba_def data_def)
    have "blk_clean medium {} s1"
      using cl w(2) other dirty unfolding blk_clean_def w(1) by (auto, metis)
    with s' st w(1) view1 show ?thesis by auto
  next
    case (Inr u)
    then have s': "s' = upd_buf b (\<lambda>x. x\<lparr>bb_dirty := False\<rparr>) s1" "r = Inr ()"
      using wb dirty d q by (auto simp: write_back_def lba_def data_def)
    have st1: "blk_struct s'"
      unfolding s'(1) using st w(1) blk_structD(2,3) [OF st b] by (intro blk_struct_upd) auto
    have "blk_clean medium {} s'"
      using cl w(2,3) other Inr d unfolding blk_clean_def s'(1) w(1)
      by (auto simp: data_def lba_def)
    moreover have "blk_view medium s' = blk_view medium s1"
      unfolding s'(1) by (auto simp: blk_view_def fun_eq_iff blk_lookup_upd split: option.split)
    ultimately show ?thesis using s' w(1) view1 st1 by auto
  qed
qed

text \<open>Detaching a clean, unreferenced buffer from its sector.\<close>

lemma detach_ok:
  assumes st: "blk_struct s" and cl: "blk_clean medium {} s" and b: "b < BCACHE_BUFFERS"
    and free: "\<not> bb_dirty (g_pool s b)" "bb_refs (g_pool s b) = 0"
  defines "s' \<equiv> upd_buf b (\<lambda>x. x\<lparr>bb_dev := None\<rparr>) (hash_remove b s)"
  shows "blk_struct s' \<and> blk_clean medium {} s' \<and> blk_view medium s' = blk_view medium s \<and>
    bb_dev (g_pool s' b) = None \<and> (\<forall>d a. blk_lookup d a s = None \<longrightarrow> blk_lookup d a s' = None)"
proof -
  have dev: "bb_dev (g_pool s' c) = (if c = b then None else bb_dev (g_pool s c))"
    "bb_lba (g_pool s' c) = bb_lba (g_pool s c)" "bb_data (g_pool s' c) = bb_data (g_pool s c)"
    "bb_dirty (g_pool s' c) = bb_dirty (g_pool s c)" "bb_refs (g_pool s' c) = bb_refs (g_pool s c)" for c
    by (auto simp: s'_def)
  have chain: "\<forall>h. distinct (g_buckets s h)"
    "\<And>h c. c \<in> set (g_buckets s h) \<longleftrightarrow> c < BCACHE_BUFFERS \<and>
        (\<exists>d. bb_dev (g_pool s c) = Some d \<and> bucket_of s d (bb_lba (g_pool s c)) = h)"
    using st by (auto simp: blk_struct_def blk_chains_ok_def)
  have buckets: "set (g_buckets s' h) = set (g_buckets s h) - {b}" "distinct (g_buckets s' h)" for h
    using chain by (auto simp: s'_def hash_remove_def Let_def split: option.split)
  have same: "bucket_of s' = bucket_of s" by (simp add: s'_def)
  have "blk_chains_ok s'"
    unfolding blk_chains_ok_def buckets same dev using buckets(2) chain(2) by auto
  moreover have "blk_unique s'"
    using st unfolding blk_struct_def blk_unique_def dev by auto
  moreover have "blk_bufs_ok s'"
    using st free unfolding blk_struct_def blk_bufs_ok_def dev by auto
  moreover have "blk_lru_ok s'" using st by (simp add: s'_def blk_struct_def blk_lru_ok_def)
  ultimately have st': "blk_struct s'" by (simp add: blk_struct_def)
  have w: "g_world s' = g_world s" by (simp add: s'_def)
  have "blk_view medium s' d a = blk_view medium s d a" for d a
  proof (cases "blk_lookup d a s = Some b")
    case True
    then have db: "bb_dev (g_pool s b) = Some d" "bb_lba (g_pool s b) = a"
      by (auto simp: blk_lookup_Some [OF st])
    have "c = b" if "c < BCACHE_BUFFERS" "bb_dev (g_pool s c) = Some d" "bb_lba (g_pool s c) = a" for c
      using blk_struct_unique [OF st that(1) b that(2) db(1)] that(3) db(2) by simp
    then have "blk_lookup d a s' = None"
      unfolding blk_lookup_None [OF st'] dev by auto
    moreover have "bb_data (g_pool s b) = medium (g_world s) d a"
      using blk_cleanD [OF cl b _ db(1)] free db by simp
    ultimately show ?thesis using True w by (simp add: blk_view_def)
  next
    case False
    have "blk_lookup d a s' = blk_lookup d a s"
    proof (cases "blk_lookup d a s")
      case None
      then show ?thesis using blk_lookup_None [OF st, of d a] by (auto simp: blk_lookup_None [OF st'] dev)
    next
      case (Some c)
      with False have "c \<noteq> b" by auto
      with Some blk_lookup_Some [OF st, of d a c] show ?thesis by (simp add: blk_lookup_Some [OF st'] dev)
    qed
    then show ?thesis using w dev(3) by (simp add: blk_view_def split: option.split)
  qed
  moreover have "blk_clean medium {} s'" using cl unfolding blk_clean_def dev w by auto
  moreover have "blk_lookup d a s = None \<longrightarrow> blk_lookup d a s' = None" for d a
    unfolding blk_lookup_None [OF st] blk_lookup_None [OF st'] dev by auto
  ultimately show ?thesis using st' dev(1) by (auto simp: fun_eq_iff)
qed

lemma take_victim_ok:
  assumes st: "blk_struct s" and cl: "blk_clean medium {} s" and tv: "take_victim drv s = (r, s')"
  shows "blk_struct s' \<and> blk_clean medium {} s' \<and> blk_view medium s' = blk_view medium s \<and>
    g_ready s' = g_ready s \<and> g_devinfo s' = g_devinfo s \<and>
    (\<forall>b. r = Inr b \<longrightarrow> b < BCACHE_BUFFERS \<and> bb_dev (g_pool s' b) = None \<and> bb_refs (g_pool s b) = 0) \<and>
    (\<forall>d a. blk_lookup d a s = None \<longrightarrow> blk_lookup d a s' = None) \<and>
    (\<forall>c. 0 < bb_refs (g_pool s c) \<longrightarrow> bb_dev (g_pool s' c) = bb_dev (g_pool s c) \<and>
       bb_lba (g_pool s' c) = bb_lba (g_pool s c) \<and> bb_data (g_pool s' c) = bb_data (g_pool s c) \<and>
       bb_refs (g_pool s' c) = bb_refs (g_pool s c))"
proof (cases "find (\<lambda>b. bb_refs (g_pool s b) = 0) (rev (g_lru s))")
  case None
  with tv st cl show ?thesis by (auto simp: take_victim_def)
next
  case (Some b)
  then have b: "b < BCACHE_BUFFERS" "bb_refs (g_pool s b) = 0"
    using find_SomeD [OF Some] st by (auto simp: blk_struct_def blk_lru_ok_def)
  obtain q s1 where q: "write_back drv b s = (q, s1)" by fastforce
  note wb = write_back_ok [OF st cl b(1) q]
  have "blk_struct s1" using wb by simp
  then have miss1: "blk_lookup d a s = None \<Longrightarrow> blk_lookup d a s1 = None" for d a
    using wb by (simp add: blk_lookup_None [OF st] blk_lookup_None)
  show ?thesis
  proof (cases q)
    case (Inl e)
    with tv Some q wb miss1 show ?thesis by (auto simp: take_victim_def)
  next
    case (Inr u)
    then have s': "r = Inr b" "s' = upd_buf b (\<lambda>x. x\<lparr>bb_dev := None\<rparr>) (hash_remove b s1)"
      using tv Some q by (auto simp: take_victim_def)
    have "blk_struct s1" "blk_clean medium {} s1" "\<not> bb_dirty (g_pool s1 b)" "bb_refs (g_pool s1 b) = 0"
      using wb Inr b by auto
    from detach_ok [OF this(1,2) b(1) this(3,4), folded s'(2)] wb b s' miss1 show ?thesis by auto
  qed
qed

lemma install_buf_ok:
  assumes st: "blk_struct s" and cl: "blk_clean medium {} s" and b: "b < BCACHE_BUFFERS"
    and free: "bb_dev (g_pool s b) = None" and miss: "blk_lookup d a s = None"
    and len: "length data = BLK_SECTOR_SIZE"
  defines "s' \<equiv> install_buf b d a data s"
  shows "blk_struct s' \<and> blk_clean medium {b} s' \<and> (data = medium (g_world s) d a \<longrightarrow> blk_clean medium {} s') \<and>
    blk_lookup d a s' = Some b \<and> bb_data (g_pool s' b) = data \<and> bb_refs (g_pool s' b) = 1 \<and>
    (\<forall>d' a'. (d', a') \<noteq> (d, a) \<longrightarrow> blk_view medium s' d' a' = blk_view medium s d' a')"
proof -
  have dev: "bb_dev (g_pool s' c) = (if c = b then Some d else bb_dev (g_pool s c))"
    "bb_lba (g_pool s' c) = (if c = b then a else bb_lba (g_pool s c))"
    "bb_data (g_pool s' c) = (if c = b then data else bb_data (g_pool s c))"
    "bb_dirty (g_pool s' c) = (if c = b then False else bb_dirty (g_pool s c))"
    "bb_refs (g_pool s' c) = (if c = b then 1 else bb_refs (g_pool s c))" for c
    by (auto simp: s'_def install_buf_def Let_def)
  have same: "bucket_of s' = bucket_of s" "g_world s' = g_world s"
    by (simp_all add: s'_def install_buf_def Let_def)
  have chain: "\<And>h. distinct (g_buckets s h)"
    "\<And>h c. c \<in> set (g_buckets s h) \<longleftrightarrow> c < BCACHE_BUFFERS \<and>
        (\<exists>d. bb_dev (g_pool s c) = Some d \<and> bucket_of s d (bb_lba (g_pool s c)) = h)"
    using st by (auto simp: blk_struct_def blk_chains_ok_def)
  have buckets: "g_buckets s' h = (if h = bucket_of s d a then b # g_buckets s h else g_buckets s h)" for h
    by (auto simp: s'_def install_buf_def Let_def)
  have "blk_chains_ok s'"
    unfolding blk_chains_ok_def buckets same dev using chain free b by auto
  moreover have "blk_unique s'"
    using st miss [unfolded blk_lookup_None [OF st]]
    unfolding blk_struct_def blk_unique_def dev by (auto split: if_splits)
  moreover have "blk_bufs_ok s'"
    using st len unfolding blk_struct_def blk_bufs_ok_def dev by auto
  moreover have "blk_lru_ok s'"
    unfolding s'_def install_buf_def Let_def
    by (rule blk_lru_ok_touch) (use st b in \<open>auto simp: blk_struct_def blk_lru_ok_def\<close>)
  ultimately have st': "blk_struct s'" by (simp add: blk_struct_def)
  have "blk_clean medium {b} s'" "data = medium (g_world s) d a \<longrightarrow> blk_clean medium {} s'"
    using cl unfolding blk_clean_def dev same by auto
  moreover have "blk_lookup d a s' = Some b" using b by (simp add: blk_lookup_Some [OF st'] dev)
  moreover have "blk_view medium s' d' a' = blk_view medium s d' a'" if "(d', a') \<noteq> (d, a)" for d' a'
  proof -
    have "blk_lookup d' a' s' = blk_lookup d' a' s"
    proof (cases "blk_lookup d' a' s")
      case None
      then show ?thesis
        using that blk_lookup_None [OF st, of d' a'] by (auto simp: blk_lookup_None [OF st'] dev split: if_splits)
    next
      case (Some c)
      then show ?thesis
        using blk_lookup_Some [OF st, of d' a' c] free by (auto simp: blk_lookup_Some [OF st'] dev)
    qed
    moreover have "blk_lookup d' a' s \<noteq> Some b" using free blk_lookup_Some [OF st, of d' a' b] by auto
    ultimately show ?thesis using same dev(3) by (auto simp: blk_view_def split: option.split)
  qed
  ultimately show ?thesis using st' dev by auto
qed

lemma blk_view_touch [simp]: "blk_view medium (lru_touch b s) = blk_view medium s"
  by (simp add: blk_view_def fun_eq_iff split: option.split)

lemma blk_clean_touch [simp]: "blk_clean medium X (lru_touch b s) = blk_clean medium X s"
  by (simp add: blk_clean_def)

lemma blk_view_refs [simp]:
  "blk_view medium (upd_buf b (\<lambda>x. x\<lparr>bb_refs := f x\<rparr>) s) = blk_view medium s"
  by (auto simp: blk_view_def fun_eq_iff blk_lookup_upd split: option.split)

lemma blk_struct_refs:
  assumes "blk_struct s" and "b < BCACHE_BUFFERS"
    and "bb_dev (g_pool s b) = None \<Longrightarrow> f (g_pool s b) = 0"
  shows "blk_struct (upd_buf b (\<lambda>x. x\<lparr>bb_refs := f x\<rparr>) s)"
  using assms blk_structD(2,3) [OF assms(1,2)] by (intro blk_struct_upd) auto

lemma blk_clean_refs [simp]:
  "blk_clean medium X (upd_buf b (\<lambda>x. x\<lparr>bb_refs := f x\<rparr>) s) = blk_clean medium X s"
  unfolding blk_clean_def by (auto split: if_splits)

lemma get_buf_ok:
  assumes inv: "blk_inv medium s" and g: "get_buf drv root lba rd s = (r, s')"
  shows "g_ready s' \<and> g_devinfo s' = g_devinfo s \<and> blk_struct s' \<and>
    (\<forall>d a. (d, a) \<noteq> (root, lba) \<longrightarrow> blk_view medium s' d a = blk_view medium s d a) \<and>
    (case r of
       Inl e \<Rightarrow> blk_clean medium {} s' \<and> blk_view medium s' = blk_view medium s
     | Inr b \<Rightarrow> blk_lookup root lba s' = Some b \<and> 0 < bb_refs (g_pool s' b) \<and> blk_clean medium {b} s' \<and>
         (rd \<longrightarrow> blk_clean medium {} s' \<and> bb_data (g_pool s' b) = blk_view medium s root lba))"
proof (cases "blk_lookup root lba s")
  case (Some b)
  have s: "blk_struct s" "blk_clean medium {} s" "g_ready s" using inv by (auto simp: blk_inv_def)
  have b: "b < BCACHE_BUFFERS" "bb_dev (g_pool s b) = Some root"
    using Some by (auto simp: blk_lookup_Some [OF s(1)])
  have s': "r = Inr b" "s' = lru_touch b (upd_buf b (\<lambda>x. x\<lparr>bb_refs := bb_refs x + 1\<rparr>) s)"
    using g Some by (auto simp: get_buf_def)
  have "blk_struct s'"
    unfolding s'(2) using s b by (intro blk_struct_touch blk_struct_refs) auto
  moreover have "blk_clean medium {} s'" "blk_clean medium {b} s'"
    using s(2) by (simp_all add: s'(2)) (simp add: blk_clean_def)
  moreover have "blk_lookup root lba s' = Some b" using Some by (simp add: s'(2) blk_lookup_upd)
  ultimately show ?thesis using s' s(3) Some by (auto simp: blk_view_def)
next
  case None
  have s: "blk_struct s" "blk_clean medium {} s" "g_ready s" using inv by (auto simp: blk_inv_def)
  obtain q s1 where q: "take_victim drv s = (q, s1)" by fastforce
  note tv = take_victim_ok [OF s(1,2) q]
  show ?thesis
  proof (cases q)
    case (Inl e)
    with g None q tv s show ?thesis by (auto simp: get_buf_def)
  next
    case (Inr b)
    have b: "b < BCACHE_BUFFERS" "bb_dev (g_pool s1 b) = None" using tv Inr by auto
    have view1: "blk_view medium s1 = blk_view medium s" using tv by simp
    have s1: "blk_struct s1" "blk_clean medium {} s1" "blk_lookup root lba s1 = None" "g_ready s1"
      using tv None s(3) by auto
    have viewm: "blk_view medium s root lba = medium (g_world s1) root lba"
      using view1 s1(3) by (simp add: blk_view_def fun_eq_iff) (metis option.simps(4))
    show ?thesis
    proof (cases rd)
      case False
      then have s': "r = Inr b" "s' = install_buf b root lba (replicate BLK_SECTOR_SIZE 0) s1"
        using g None q Inr by (auto simp: get_buf_def)
      have "g_ready s' = g_ready s1" "g_devinfo s' = g_devinfo s1"
        by (simp_all add: s'(2) install_buf_def Let_def)
      with install_buf_ok [OF s1(1,2) b s1(3), of "replicate BLK_SECTOR_SIZE 0", folded s'(2)] s' s1 tv view1 False
      show ?thesis by auto
    next
      case True
      obtain p s2 where p: "drv_read drv root lba 1 s1 = (p, s2)" by fastforce
      note dr = drv_read_cases [OF p]
      then obtain w where w: "s2 = s1\<lparr>g_world := w\<rparr>" "medium w = medium (g_world s1)" by auto
      have s2: "blk_struct s2" "blk_clean medium {} s2" "blk_lookup root lba s2 = None"
        "bb_dev (g_pool s2 b) = None" "g_ready s2" "blk_view medium s2 = blk_view medium s1"
        using s1 w b by (auto simp: blk_clean_def blk_view_def fun_eq_iff split: option.split)
      show ?thesis
      proof (cases p)
        case (Inl e)
        with g None q Inr True p s2 view1 tv w show ?thesis by (auto simp: get_buf_def)
      next
        case ok: (Inr data)
        have data: "data = medium (g_world s2) root lba" "length data = BLK_SECTOR_SIZE"
          using dr ok w medium_length by auto
        have s': "r = Inr b" "s' = install_buf b root lba data s2"
          using g None q Inr True p ok by (auto simp: get_buf_def)
        have "g_ready s' = g_ready s2" "g_devinfo s' = g_devinfo s2"
          by (simp_all add: s'(2) install_buf_def Let_def)
        with install_buf_ok [OF s2(1,2) b(1) s2(4,3) data(2), folded s'(2)] s' s2 tv view1 viewm data w
        show ?thesis by auto
      qed
    qed
  qed
qed

text \<open>Replacing the bytes of a pinned buffer and marking it dirty.\<close>

lemma store_ok:
  assumes st: "blk_struct s" and cl: "blk_clean medium {b} s" and hit: "blk_lookup root lba s = Some b"
    and f: "bb_dev (f (g_pool s b)) = bb_dev (g_pool s b)" "bb_lba (f (g_pool s b)) = bb_lba (g_pool s b)"
      "bb_dirty (f (g_pool s b))"
    and len: "length (bb_data (f (g_pool s b))) = BLK_SECTOR_SIZE"
  shows "blk_struct (upd_buf b f s) \<and> blk_clean medium {} (upd_buf b f s) \<and>
    blk_view medium (upd_buf b f s) d a =
      (if d = root \<and> a = lba then bb_data (f (g_pool s b)) else blk_view medium s d a)"
proof -
  have b: "b < BCACHE_BUFFERS" "bb_dev (g_pool s b) = Some root" "bb_lba (g_pool s b) = lba"
    using hit by (auto simp: blk_lookup_Some [OF st])
  have "blk_struct (upd_buf b f s)" using st b f len by (intro blk_struct_upd) auto
  moreover have "blk_clean medium {} (upd_buf b f s)" using cl f by (auto simp: blk_clean_def)
  moreover have "blk_lookup d a (upd_buf b f s) = blk_lookup d a s" using f by (intro blk_lookup_upd) auto
  moreover have "blk_lookup d a s = Some b \<longleftrightarrow> d = root \<and> a = lba"
    using b by (auto simp: blk_lookup_Some [OF st])
  ultimately show ?thesis by (auto simp: blk_view_def split: option.split)
qed

section \<open>Sector and byte operations\<close>

text \<open>\<open>store\<close> of several consecutive sectors into a view.\<close>

lemma blk_write_loop_ok:
  assumes "blk_inv medium s" and "blk_write_loop drv root lba secs s = (r, s')"
    and "\<forall>sec \<in> set secs. length sec = BLK_SECTOR_SIZE"
  shows "blk_inv medium s' \<and> g_devinfo s' = g_devinfo s \<and>
    (\<exists>k \<le> length secs. (r = Inr () \<longrightarrow> k = length secs) \<and>
      (\<forall>d a. blk_view medium s' d a =
        (if d = root \<and> lba \<le> a \<and> a < lba + k then secs ! (a - lba) else blk_view medium s d a)))"
  using assms
proof (induction secs arbitrary: lba s)
  case Nil
  then show ?case by auto
next
  case (Cons sec secs)
  obtain q s1 where q: "get_buf drv root lba False s = (q, s1)" by fastforce
  note gb = get_buf_ok [OF Cons.prems(1) q]
  show ?case
  proof (cases q)
    case (Inl e)
    then have "r = Inl e" "s' = s1" using Cons.prems(2) q by auto
    with gb Inl show ?thesis by (auto simp: blk_inv_def intro!: exI [of _ 0])
  next
    case (Inr b)
    define s2 where "s2 = upd_buf b (\<lambda>x. x\<lparr>bb_data := sec, bb_dirty := True, bb_refs := bb_refs x - 1\<rparr>) s1"
    have s1: "blk_struct s1" "blk_clean medium {b} s1" "blk_lookup root lba s1 = Some b" "g_ready s1"
      using gb Inr by auto
    have st2: "blk_struct s2 \<and> blk_clean medium {} s2 \<and>
        blk_view medium s2 d a = (if d = root \<and> a = lba then sec else blk_view medium s1 d a)" for d a
      unfolding s2_def using store_ok [OF s1(1-3), of "\<lambda>x. x\<lparr>bb_data := sec, bb_dirty := True, bb_refs := bb_refs x - 1\<rparr>" d a]
        Cons.prems(3) by simp
    have v2: "blk_view medium s2 d a = (if d = root \<and> a = lba then sec else blk_view medium s d a)" for d a
      using st2 [of d a] gb by auto
    have inv2: "blk_inv medium s2" using st2 s1(4) by (simp add: blk_inv_def s2_def)
    have "blk_write_loop drv root (lba + 1) secs s2 = (r, s')"
      using Cons.prems(2) q Inr by (simp add: s2_def)
    from Cons.IH [OF inv2 this] Cons.prems(3) obtain k where
      k: "blk_inv medium s'" "g_devinfo s' = g_devinfo s2" "k \<le> length secs" "r = Inr () \<longrightarrow> k = length secs"
      "\<And>d a. blk_view medium s' d a =
        (if d = root \<and> lba + 1 \<le> a \<and> a < lba + 1 + k then secs ! (a - (lba + 1)) else blk_view medium s2 d a)"
      by auto
    have "blk_view medium s' d a = (if d = root \<and> lba \<le> a \<and> a < lba + Suc k
        then (sec # secs) ! (a - lba) else blk_view medium s d a)" for d a
      using k(5) [of d a] v2 [of d a] by (cases "a = lba") (auto simp: nth_Cons')
    moreover have "g_devinfo s' = g_devinfo s" using k(2) gb by (simp add: s2_def)
    ultimately show ?thesis using k(1,3,4) by (intro conjI exI [of _ "Suc k"]) auto
  qed
qed

lemma read_run_le: "read_run root lba step n s \<le> step + n"
  by (induction n arbitrary: step) (auto intro: le_SucI, metis add_Suc)

lemma read_run_missing:
  assumes "i < read_run root lba step n s" and "step \<le> i"
  shows "blk_lookup root (lba + i) s = None"
  using assms
proof (induction n arbitrary: step)
  case (Suc n)
  then show ?case by (cases "i = step") (auto split: if_splits)
qed simp

lemma blk_read_loop_ok:
  assumes "blk_inv medium s" and "blk_read_loop drv root lba count out s = (r, s')"
  shows "blk_inv medium s' \<and> g_devinfo s' = g_devinfo s \<and> blk_view medium s' = blk_view medium s \<and>
    (\<forall>bs. r = Inr bs \<longrightarrow> bs = out @ concat (map (blk_view medium s root) [lba..<lba + count]))"
  using assms
proof (induction count arbitrary: lba out s rule: less_induct)
  case (less count)
  have s: "blk_struct s" "blk_clean medium {} s" "g_ready s" using less.prems(1) by (auto simp: blk_inv_def)
  show ?case
  proof (cases "count = 0")
    case True
    with less.prems show ?thesis by (auto simp: blk_read_loop.simps)
  next
    case False
    show ?thesis
    proof (cases "blk_lookup root lba s")
      case (Some b)
      then have b: "b < BCACHE_BUFFERS" by (simp add: blk_lookup_Some [OF s(1)])
      define s1 where "s1 = lru_touch b s"
      have inv1: "blk_inv medium s1" using s b by (simp add: blk_inv_def s1_def blk_struct_touch)
      have "blk_read_loop drv root (lba + 1) (count - 1) (out @ bb_data (g_pool s b)) s1 = (r, s')"
        using less.prems(2) False Some by (simp add: blk_read_loop.simps [of drv root lba] s1_def)
      from less.IH [OF _ inv1 this] False
      have ih: "blk_inv medium s'" "g_devinfo s' = g_devinfo s1" "blk_view medium s' = blk_view medium s1"
        "\<And>bs. r = Inr bs \<Longrightarrow> bs = (out @ bb_data (g_pool s b)) @
           concat (map (blk_view medium s1 root) [lba + 1..<lba + 1 + (count - 1)])" by auto
      have "[lba..<lba + count] = lba # [lba + 1..<lba + 1 + (count - 1)]"
        using False by (simp add: upt_conv_Cons)
      with ih Some show ?thesis by (auto simp: s1_def blk_view_def [of _ s root lba])
    next
      case None
      define step where "step = read_run root lba 1 (min count BLK_READ_RUN - 1) s"
      have step: "1 \<le> step" "step \<le> count" "\<And>i. i < step \<Longrightarrow> blk_lookup root (lba + i) s = None"
        using read_run_le [of root lba 1 "min count BLK_READ_RUN - 1" s] None False
          read_run_ge [of 1 root lba "min count BLK_READ_RUN - 1" s]
          read_run_missing [of _ root lba 1 "min count BLK_READ_RUN - 1" s]
        by (auto simp: step_def BLK_READ_RUN_def min_def split: if_splits) (metis Nat.add_0_right not_less_eq_eq le_zero_eq)+
      obtain q s1 where q: "drv_read drv root lba step s = (q, s1)" by fastforce
      have loop: "(case q of Inl e \<Rightarrow> (Inl e, s1)
          | Inr bs \<Rightarrow> blk_read_loop drv root (lba + step) (count - step) (out @ bs) s1) = (r, s')"
        using less.prems(2) False None q
        by (simp add: blk_read_loop.simps [of drv root lba] step_def [symmetric, unfolded One_nat_def] Let_def
            cong: sum.case_cong)
      note dr = drv_read_cases [OF q]
      then obtain w where w: "s1 = s\<lparr>g_world := w\<rparr>" "medium w = medium (g_world s)" by auto
      have inv1: "blk_inv medium s1" "blk_view medium s1 = blk_view medium s"
        using s w by (auto simp: blk_inv_def blk_clean_def blk_view_def fun_eq_iff split: option.split)
      show ?thesis
      proof (cases q)
        case (Inl e)
        with loop inv1 w show ?thesis by auto
      next
        case (Inr bs)
        have "blk_view medium s root (lba + i) = medium (g_world s) root (lba + i)" if "i < step" for i
          using step(3) [OF that] by (simp add: blk_view_def)
        then have bs: "bs = concat (map (blk_view medium s root) [lba..<lba + step])"
          using dr Inr by (auto intro!: arg_cong [where f = concat] map_cong simp: le_iff_add)
        have "blk_read_loop drv root (lba + step) (count - step) (out @ bs) s1 = (r, s')"
          using loop Inr by simp
        from less.IH [OF _ inv1(1) this] step False
        have ih: "blk_inv medium s'" "g_devinfo s' = g_devinfo s1" "blk_view medium s' = blk_view medium s1"
          "\<And>cs. r = Inr cs \<Longrightarrow> cs = (out @ bs) @
             concat (map (blk_view medium s1 root) [lba + step..<lba + step + (count - step)])" by auto
        have "[lba..<lba + count] = [lba..<lba + step] @ [lba + step..<lba + step + (count - step)]"
          using step(2) upt_add_eq_append [of lba "lba + step" "count - step"] by simp
        with ih bs inv1(2) w show ?thesis by auto
      qed
    qed
  qed
qed

end

end
