(* ===== verification/BlkStore.thy ===== *)
theory BlkStore
  imports BlkCache
begin

text \<open>
  The buffer, flush and byte operations of the block layer against its abstraction
  \<open>blk_view\<close>, and the block cache as a provider of \<open>sector_store\<close>.
\<close>

section \<open>A device as a window of its root\<close>

definition dev_flat :: "'w blk \<Rightarrow> nat \<Rightarrow> nat \<Rightarrow> nat \<Rightarrow> bool" where
  "dev_flat s d root base \<longleftrightarrow> (\<forall>lba < bd_sectors (g_devinfo s d). root_of s d lba = (root, base + lba))"

definition dev_view :: "('w \<Rightarrow> nat \<Rightarrow> nat \<Rightarrow> u8 list) \<Rightarrow> nat \<Rightarrow> nat \<Rightarrow> 'w blk \<Rightarrow> nat \<Rightarrow> u8 list" where
  "dev_view medium root base s lba = blk_view medium s root (base + lba)"

definition store_inv :: "('w \<Rightarrow> nat \<Rightarrow> nat \<Rightarrow> u8 list) \<Rightarrow> nat \<Rightarrow> nat \<Rightarrow> nat \<Rightarrow> 'w blk \<Rightarrow> bool" where
  "store_inv medium d root base s \<longleftrightarrow> blk_inv medium s \<and> dev_flat s d root base"

definition blk_store :: "'w driver \<Rightarrow> nat \<Rightarrow> 'w blk store" where
  "blk_store drv d =
    \<lparr>st_edit = buf_edit drv d, st_new = buf_zero drv d, st_read = blk_read drv d,
     st_write = blk_write drv d, st_sync = blk_flush drv d\<rparr>"

text \<open>The byte at an offset of a device, as its clients see it.\<close>

definition dev_byte :: "('w \<Rightarrow> nat \<Rightarrow> nat \<Rightarrow> u8 list) \<Rightarrow> nat \<Rightarrow> nat \<Rightarrow> 'w blk \<Rightarrow> nat \<Rightarrow> u8" where
  "dev_byte medium root base s i = dev_view medium root base s (i div BLK_SECTOR_SIZE) ! (i mod BLK_SECTOR_SIZE)"

lemma root_of_cong: "g_devinfo s' = g_devinfo s \<Longrightarrow> root_of s' = root_of s"
  by (rule ext, rule ext) (simp add: root_of_def)

lemma dev_flat_cong: "g_devinfo s' = g_devinfo s \<Longrightarrow> dev_flat s' d root base = dev_flat s d root base"
  unfolding dev_flat_def by (simp only: root_of_cong [of s' s])

lemma store_inv_step:
  "store_inv medium d root base s \<Longrightarrow> blk_inv medium s' \<Longrightarrow> g_devinfo s' = g_devinfo s \<Longrightarrow>
    store_inv medium d root base s'"
  unfolding store_inv_def by (simp only: dev_flat_cong [of s' s])

lemma dev_view_cong:
  "blk_view medium s' = blk_view medium s \<Longrightarrow> dev_view medium root base s' = dev_view medium root base s"
  by (rule ext) (simp add: dev_view_def)

lemma dev_byte_cong:
  "blk_view medium s' = blk_view medium s \<Longrightarrow> dev_byte medium root base s' = dev_byte medium root base s"
  by (rule ext) (simp only: dev_byte_def dev_view_cong [of medium s' s])

lemma max_devices_Suc: "BLK_MAX_DEVICES = Suc (Suc 30)"
  by (simp add: BLK_MAX_DEVICES_def)

lemma root_of_root: "bd_parent (g_devinfo s d) = None \<Longrightarrow> root_of s d lba = (d, lba)"
  unfolding root_of_def max_devices_Suc by (simp only: root_of_fuel.simps option.case)

lemma root_of_partition:
  assumes "bd_parent (g_devinfo s d) = Some p" and "bd_parent (g_devinfo s p) = None"
    and "bd_start (g_devinfo s d) + lba < 2 ^ 64"
  shows "root_of s d lba = (p, bd_start (g_devinfo s d) + lba)"
proof -
  have "root_of s d lba = (p, add64 lba (bd_start (g_devinfo s d)))"
    unfolding root_of_def max_devices_Suc by (simp only: root_of_fuel.simps option.case assms)
  with assms(3) show ?thesis by (simp add: add64_def add.commute)
qed

lemma dev_flat_root_of:
  assumes "dev_flat s d root base" and "range_ok (g_devinfo s d) lba n"
  shows "root_of s d lba = (root, base + lba)"
proof -
  have "lba < bd_sectors (g_devinfo s d)" using assms(2) by (auto simp: range_ok_def)
  with assms(1) show ?thesis by (simp add: dev_flat_def)
qed

lemma map_shift_upt: "map (\<lambda>a. base + a) [lba..<lba + n] = [base + lba..<base + lba + n]" for base :: nat
  by (induction n) auto

lemma dev_flat_root: "bd_parent (g_devinfo s d) = None \<Longrightarrow> dev_flat s d d 0"
  by (simp add: dev_flat_def root_of_root)

lemma dev_flat_partition:
  assumes "bd_parent (g_devinfo s d) = Some p" and "bd_parent (g_devinfo s p) = None"
    and "bd_start (g_devinfo s d) + bd_sectors (g_devinfo s d) \<le> 2 ^ 64"
  shows "dev_flat s d p (bd_start (g_devinfo s d))"
  using assms by (auto simp: dev_flat_def intro!: root_of_partition)

lemma blk_view_world: "medium w = medium (g_world s) \<Longrightarrow> blk_view medium (s\<lparr>g_world := w\<rparr>) = blk_view medium s"
  by (rule ext, rule ext) (simp add: blk_view_def cong: option.case_cong)

lemma blk_inv_view_length:
  assumes "blk_struct s" and "\<And>d a. length (medium (g_world s) d a) = BLK_SECTOR_SIZE"
  shows "length (blk_view medium s root lba) = BLK_SECTOR_SIZE"
proof (cases "blk_lookup root lba s")
  case (Some b)
  then have "b < BCACHE_BUFFERS" by (simp add: blk_lookup_Some [OF assms(1)])
  with assms(1) Some show ?thesis by (simp add: blk_view_def blk_struct_def blk_bufs_ok_def)
qed (simp add: blk_view_def assms(2))

section \<open>Buffers\<close>

context disk_driver
begin

lemma buf_get_ok:
  assumes inv: "blk_inv medium s" and flat: "dev_flat s d root base"
    and g: "buf_get drv d lba rd s = (r, s')"
  shows "blk_inv medium s' \<and> g_devinfo s' = g_devinfo s \<and>
    (\<forall>d' a. (d', a) \<noteq> (root, base + lba) \<longrightarrow> blk_view medium s' d' a = blk_view medium s d' a) \<and>
    (case r of
       Inl e \<Rightarrow> blk_view medium s' = blk_view medium s
     | Inr b \<Rightarrow> blk_lookup root (base + lba) s' = Some b \<and>
         bb_data (g_pool s' b) = (if rd then blk_view medium s root (base + lba) else replicate BLK_SECTOR_SIZE 0))"
proof (cases "range_ok (g_devinfo s d) lba 1 \<and>
    (rd \<or> \<not> bd_readonly (g_devinfo s d) \<and> \<not> bd_readonly (g_devinfo s root))")
  case False
  have "lba < bd_sectors (g_devinfo s d) \<Longrightarrow> root_of s d lba = (root, base + lba)"
    using flat by (simp add: dev_flat_def)
  moreover have "range_ok (g_devinfo s d) lba 1 \<Longrightarrow> lba < bd_sectors (g_devinfo s d)" by (auto simp: range_ok_def)
  ultimately have "s' = s \<and> (\<exists>e. r = Inl e)" using g False by (auto simp: buf_get_def split: if_splits)
  with inv show ?thesis by auto
next
  case True
  then have ro: "root_of s d lba = (root, base + lba)" using flat by (auto simp: dev_flat_def range_ok_def)
  have ready: "g_ready s" using inv by (simp add: blk_inv_def)
  obtain q s1 where q: "get_buf drv root (base + lba) rd s = (q, s1)" by fastforce
  note gb = get_buf_ok [OF inv q]
  show ?thesis
  proof (cases q)
    case (Inl e)
    then have "r = Inl e" "s' = s1" using g True ro ready q by (auto simp: buf_get_def)
    with gb Inl show ?thesis by (auto simp: blk_inv_def)
  next
    case (Inr b)
    have s1: "blk_struct s1" "blk_clean medium {b} s1" "blk_lookup root (base + lba) s1 = Some b" "g_ready s1"
      using gb Inr by auto
    show ?thesis
    proof (cases rd)
      case True
      then have "r = Inr b" "s' = s1" using g \<open>range_ok _ _ _ \<and> _\<close> ro ready q Inr by (auto simp: buf_get_def)
      with gb Inr True show ?thesis by (auto simp: blk_inv_def)
    next
      case False
      let ?f = "\<lambda>x. x\<lparr>bb_data := replicate BLK_SECTOR_SIZE 0, bb_dirty := True\<rparr>"
      have r: "r = Inr b" "s' = upd_buf b ?f s1"
        using g \<open>range_ok _ _ _ \<and> _\<close> ro ready q Inr False by (auto simp: buf_get_def)
      have st: "blk_struct s' \<and> blk_clean medium {} s' \<and> blk_view medium s' d' a =
          (if d' = root \<and> a = base + lba then replicate BLK_SECTOR_SIZE 0 else blk_view medium s1 d' a)" for d' a
        unfolding r using store_ok [OF s1(1-3), of ?f d' a] by simp
      have "blk_lookup root (base + lba) s' = Some b" using s1(3) r(2) by (simp add: blk_lookup_upd)
      moreover have "blk_inv medium s'" "g_devinfo s' = g_devinfo s" using st gb r(2) by (auto simp: blk_inv_def)
      moreover have "blk_view medium s' d' a = blk_view medium s d' a" if "(d', a) \<noteq> (root, base + lba)" for d' a
        using st [of d' a] gb that by auto
      ultimately show ?thesis using r False by simp
    qed
  qed
qed

lemma brelse_inv [simp]:
  "blk_inv medium s \<Longrightarrow> blk_lookup root lba s = Some b \<Longrightarrow> blk_inv medium (brelse b s)"
  by (auto simp: blk_inv_def brelse_def blk_lookup_Some intro!: blk_struct_refs)

lemma buf_copy_ok:
  assumes inv: "blk_inv medium s" and flat: "dev_flat s d root base" and g: "buf_copy drv d lba s = (r, s')"
  shows "blk_inv medium s' \<and> g_devinfo s' = g_devinfo s \<and> blk_view medium s' = blk_view medium s \<and>
    (\<forall>sec. r = Inr sec \<longrightarrow> sec = dev_view medium root base s lba)"
proof -
  obtain q s1 where q: "buf_get drv d lba True s = (q, s1)" by fastforce
  note bg = buf_get_ok [OF inv flat q]
  show ?thesis
  proof (cases q)
    case (Inl e)
    with g q bg show ?thesis by (auto simp: buf_copy_def bread_def)
  next
    case (Inr b)
    then have r: "r = Inr (bb_data (g_pool s1 b))" "s' = brelse b s1"
      using g q by (auto simp: buf_copy_def bread_def)
    have "blk_view medium s1 d' a = blk_view medium s d' a" for d' a
      using bg Inr by (cases "(d', a) = (root, base + lba)") (auto simp: blk_view_def [of _ s1])
    then have "blk_view medium s' = blk_view medium s" by (auto simp: r brelse_def fun_eq_iff)
    moreover have "blk_inv medium s'" unfolding r using bg Inr by (auto intro!: brelse_inv)
    ultimately show ?thesis using bg Inr r by (auto simp: brelse_def dev_view_def)
  qed
qed

lemma buf_modify_ok:
  assumes inv: "blk_inv medium s" and flat: "dev_flat s d root base"
    and g: "buf_modify drv fresh d lba f s = (r, s')"
    and f: "\<And>sec. length sec = BLK_SECTOR_SIZE \<Longrightarrow> length (f sec) = BLK_SECTOR_SIZE"
  shows "blk_inv medium s' \<and> g_devinfo s' = g_devinfo s \<and>
    blk_view medium s' =
      (if r = Inr () then (\<lambda>d' a. if d' = root \<and> a = base + lba
         then f (if fresh then replicate BLK_SECTOR_SIZE 0 else dev_view medium root base s lba)
         else blk_view medium s d' a)
       else blk_view medium s)"
proof -
  obtain q s1 where q: "buf_get drv d lba (\<not> fresh) s = (q, s1)" by fastforce
  note bg = buf_get_ok [OF inv flat q]
  have g': "(case q of Inl e \<Rightarrow> (Inl e, s1) | Inr b \<Rightarrow>
      (Inr (), brelse b (bdirty b (upd_buf b (\<lambda>x. x\<lparr>bb_data := f (bb_data x)\<rparr>) s1)))) = (r, s')"
    using g q by (simp add: buf_modify_def bread_def bnew_def split: if_splits sum.splits)
  show ?thesis
  proof (cases q)
    case (Inl e)
    with g' bg show ?thesis by auto
  next
    case (Inr b)
    let ?f = "\<lambda>x. x\<lparr>bb_data := f (bb_data x), bb_dirty := True, bb_refs := bb_refs x - 1\<rparr>"
    have r: "r = Inr ()" "s' = upd_buf b ?f s1"
      using g' Inr by (auto simp: brelse_def bdirty_def upd_buf_def)
    have s1: "blk_struct s1" "blk_clean medium {} s1" "blk_lookup root (base + lba) s1 = Some b" "g_ready s1"
      using bg Inr by (auto simp: blk_inv_def)
    have c: "blk_clean medium {b} s1" using s1(2) by (auto simp: blk_clean_def)
    have "b < BCACHE_BUFFERS" using s1(3) by (simp add: blk_lookup_Some [OF s1(1)])
    then have "length (bb_data (g_pool s1 b)) = BLK_SECTOR_SIZE"
      using s1(1) by (simp add: blk_struct_def blk_bufs_ok_def)
    then have st: "blk_struct s' \<and> blk_clean medium {} s' \<and> blk_view medium s' d' a =
        (if d' = root \<and> a = base + lba then f (bb_data (g_pool s1 b)) else blk_view medium s1 d' a)" for d' a
      unfolding r using store_ok [OF s1(1) c s1(3), of ?f d' a] f by simp
    have "bb_data (g_pool s1 b) =
        (if fresh then replicate BLK_SECTOR_SIZE 0 else dev_view medium root base s lba)"
      using bg Inr by (simp add: dev_view_def)
    moreover have "blk_inv medium s'" "g_devinfo s' = g_devinfo s" using st s1(4) bg r by (auto simp: blk_inv_def)
    moreover have "blk_view medium s1 d' a = blk_view medium s d' a" if "\<not> (d' = root \<and> a = base + lba)" for d' a
      using bg that by auto
    ultimately show ?thesis using st r by (simp add: fun_eq_iff)
  qed
qed

lemma buf_edit_ok:
  assumes inv: "blk_inv medium s" and flat: "dev_flat s d root base" and g: "buf_edit drv d lba f s = (r, s')"
    and f: "keeps_size f"
  shows "blk_inv medium s' \<and> g_devinfo s' = g_devinfo s \<and>
    blk_view medium s' =
      (case r of Inl e \<Rightarrow> blk_view medium s
       | Inr sec \<Rightarrow> (case f (dev_view medium root base s lba) of
           None \<Rightarrow> blk_view medium s
         | Some new \<Rightarrow> (\<lambda>d' a. if d' = root \<and> a = base + lba then new else blk_view medium s d' a))) \<and>
    (\<forall>sec. r = Inr sec \<longrightarrow> sec = dev_view medium root base s lba)"
proof -
  obtain q s1 where q: "bread drv d lba s = (q, s1)" by fastforce
  show ?thesis
  proof (cases q)
    case (Inl e)
    then have "buf_copy drv d lba s = (Inl e, s1)" "r = Inl e" "s' = s1"
      using q g by (auto simp: buf_copy_def buf_edit_def)
    with buf_copy_ok [OF inv flat] show ?thesis by fastforce
  next
    case (Inr b)
    let ?old = "bb_data (g_pool s1 b)"
    have bc: "buf_copy drv d lba s = (Inr ?old, brelse b s1)" using q Inr by (simp add: buf_copy_def)
    note c = buf_copy_ok [OF inv flat bc]
    have r: "r = Inr ?old" using g q Inr by (auto simp: buf_edit_def Let_def)
    show ?thesis
    proof (cases "f ?old")
      case None
      then have "s' = brelse b s1" using g q Inr by (auto simp: buf_edit_def Let_def)
      with c r None show ?thesis by auto
    next
      case (Some new)
      have old: "?old = dev_view medium root base s lba" using c by simp
      have len: "length ?old = BLK_SECTOR_SIZE"
        unfolding old dev_view_def using inv by (intro blk_inv_view_length) (auto simp: blk_inv_def medium_length)
      then have new: "length new = BLK_SECTOR_SIZE" using f Some by (auto simp: keeps_size_def)
      have "buf_modify drv False d lba (\<lambda>_. new) s = (Inr (), s')"
        using g q Inr Some by (auto simp: buf_edit_def buf_modify_def Let_def)
      from buf_modify_ok [OF inv flat this] new r Some old show ?thesis by simp
    qed
  qed
qed

lemma buf_zero_ok:
  assumes inv: "blk_inv medium s" and flat: "dev_flat s d root base" and g: "buf_zero drv d lba s = (r, s')"
  shows "blk_inv medium s' \<and> g_devinfo s' = g_devinfo s \<and>
    blk_view medium s' =
      (case r of Inl e \<Rightarrow> blk_view medium s
       | Inr _ \<Rightarrow> (\<lambda>d' a. if d' = root \<and> a = base + lba then replicate BLK_SECTOR_SIZE 0 else blk_view medium s d' a))"
proof -
  obtain q s1 where q: "buf_get drv d lba False s = (q, s1)" by fastforce
  note bg = buf_get_ok [OF inv flat q]
  show ?thesis
  proof (cases q)
    case (Inl e)
    with g q bg show ?thesis by (auto simp: buf_zero_def bnew_def)
  next
    case (Inr b)
    then have r: "r = Inr ()" "s' = brelse b s1"
      using g q by (auto simp: buf_zero_def bnew_def)
    have "blk_view medium s1 d' a = (if d' = root \<and> a = base + lba then replicate BLK_SECTOR_SIZE 0
        else blk_view medium s d' a)" for d' a
      using bg Inr by (cases "(d', a) = (root, base + lba)") (auto simp: blk_view_def [of _ s1])
    then have "blk_view medium s' = (\<lambda>d' a. if d' = root \<and> a = base + lba then replicate BLK_SECTOR_SIZE 0
        else blk_view medium s d' a)" by (auto simp: r brelse_def fun_eq_iff)
    moreover have "blk_inv medium s'" unfolding r using bg Inr by (auto intro!: brelse_inv)
    ultimately show ?thesis using bg Inr r by (auto simp: brelse_def)
  qed
qed

section \<open>Flushing\<close>

lemma flush_bufs_ok:
  assumes "blk_struct s" and "blk_clean medium {} s" and "\<forall>b \<in> set bs. b < BCACHE_BUFFERS"
    and "flush_bufs drv root bs err s = (err', s')"
  shows "blk_struct s' \<and> blk_clean medium {} s' \<and> blk_view medium s' = blk_view medium s \<and>
    g_ready s' = g_ready s \<and> g_devinfo s' = g_devinfo s \<and>
    (\<forall>c. bb_dev (g_pool s' c) = bb_dev (g_pool s c) \<and> (bb_dirty (g_pool s' c) \<longrightarrow> bb_dirty (g_pool s c))) \<and>
    (err' = None \<longrightarrow> err = None \<and> (\<forall>b \<in> set bs. bb_dev (g_pool s b) = Some root \<longrightarrow> \<not> bb_dirty (g_pool s' b)))"
  using assms
proof (induction bs arbitrary: s err)
  case (Cons b bs)
  show ?case
  proof (cases "bb_dev (g_pool s b) \<noteq> Some root \<or> \<not> bb_dirty (g_pool s b)")
    case True
    with Cons.prems(4) have "flush_bufs drv root bs err s = (err', s')" by simp
    from Cons.IH [OF Cons.prems(1,2) _ this] Cons.prems(3) True show ?thesis by auto
  next
    case False
    obtain q s1 where q: "write_back drv b s = (q, s1)" by fastforce
    have "b < BCACHE_BUFFERS" using Cons.prems(3) by simp
    note wb = write_back_ok [OF Cons.prems(1,2) this q]
    define err1 where "err1 = (case q of Inr _ \<Rightarrow> err | Inl e \<Rightarrow> (case err of None \<Rightarrow> Some e | Some _ \<Rightarrow> err))"
    have "flush_bufs drv root bs err1 s1 = (err', s')"
      using Cons.prems(4) q False by (cases q) (auto simp: err1_def)
    from Cons.IH [OF _ _ _ this] wb Cons.prems(3)
    have ih: "blk_struct s'" "blk_clean medium {} s'" "blk_view medium s' = blk_view medium s1"
      "g_ready s' = g_ready s1" "g_devinfo s' = g_devinfo s1"
      "\<And>c. bb_dev (g_pool s' c) = bb_dev (g_pool s1 c)"
      "\<And>c. bb_dirty (g_pool s' c) \<Longrightarrow> bb_dirty (g_pool s1 c)"
      "err' = None \<Longrightarrow> err1 = None \<and> (\<forall>b \<in> set bs. bb_dev (g_pool s1 b) = Some root \<longrightarrow> \<not> bb_dirty (g_pool s' b))"
      by auto
    have "err1 = None \<Longrightarrow> err = None \<and> q = Inr ()" by (auto simp: err1_def split: sum.splits option.splits)
    with ih(8) wb ih(7) have "err' = None \<Longrightarrow> err = None \<and>
        (\<forall>c \<in> set (b # bs). bb_dev (g_pool s c) = Some root \<longrightarrow> \<not> bb_dirty (g_pool s' c))" by auto
    with ih wb show ?thesis by metis
  qed
qed simp

lemma flush_root_locked_ok:
  assumes inv: "blk_inv medium s" and f: "flush_root_locked drv root s = (r, s')"
  shows "blk_inv medium s' \<and> g_devinfo s' = g_devinfo s \<and> blk_view medium s' = blk_view medium s \<and>
    (r = Inr () \<longrightarrow> medium (g_world s') root = blk_view medium s root \<and>
      (\<forall>b < BCACHE_BUFFERS. bb_dev (g_pool s' b) = Some root \<longrightarrow> \<not> bb_dirty (g_pool s' b)))"
proof -
  have s: "blk_struct s" "blk_clean medium {} s" "g_ready s" using inv by (auto simp: blk_inv_def)
  obtain err s1 where q: "flush_bufs drv root [0..<BCACHE_BUFFERS] None s = (err, s1)" by fastforce
  have "\<forall>b \<in> set [0..<BCACHE_BUFFERS]. b < BCACHE_BUFFERS" by simp
  note fb = flush_bufs_ok [OF s(1,2) this q]
  obtain w where s': "s' = s1\<lparr>g_world := w\<rparr>" and w: "medium w = medium (g_world s1)"
    and r: "r = Inr () \<Longrightarrow> err = None"
  proof (cases "err = None \<and> bd_has_flush (g_devinfo s1 root)")
    case True
    with f q s(3) have "s' = s1\<lparr>g_world := snd (dv_flush drv root (g_world s1))\<rparr>"
      by (auto simp: flush_root_locked_def split: prod.splits)
    with True flush_ok [of root "g_world s1"] that show thesis by (metis prod.collapse)
  next
    case False
    with f q s(3) have "s' = s1\<lparr>g_world := g_world s1\<rparr> \<and> (r = Inr () \<longrightarrow> err = None)"
      by (auto simp: flush_root_locked_def split: option.splits)
    with that show thesis by blast
  qed
  have st: "blk_struct s'" "blk_clean medium {} s'" using fb s' w by (auto simp: blk_clean_def)
  have v: "blk_view medium s' = blk_view medium s"
    using fb s' blk_view_world [OF w] by simp
  have clean: "\<not> bb_dirty (g_pool s' b)" if "r = Inr ()" "b < BCACHE_BUFFERS" "bb_dev (g_pool s' b) = Some root" for b
    using fb r [OF that(1)] that(2,3) s' by auto
  have "blk_view medium s' root a = medium (g_world s') root a" if "r = Inr ()" for a
  proof (cases "blk_lookup root a s'")
    case (Some b)
    then have b: "b < BCACHE_BUFFERS" "bb_dev (g_pool s' b) = Some root" "bb_lba (g_pool s' b) = a"
      by (auto simp: blk_lookup_Some [OF st(1)])
    then have "\<not> bb_dirty (g_pool s' b)" by (intro clean that)
    with st(2) b Some show ?thesis by (auto simp: blk_view_def blk_clean_def)
  qed (simp add: blk_view_def)
  then have "r = Inr () \<Longrightarrow> medium (g_world s') root = blk_view medium s root" unfolding v [symmetric] by auto
  with v st fb s' s(3) clean show ?thesis by (auto simp: blk_inv_def)
qed

end

context disk_driver
begin

lemma dev_read_ok:
  assumes inv: "blk_inv medium s" and flat: "dev_flat s d root base" and r: "blk_read drv d lba n s = (r, s')"
  shows "blk_inv medium s' \<and> g_devinfo s' = g_devinfo s \<and> blk_view medium s' = blk_view medium s \<and>
    (\<forall>bs. r = Inr bs \<longrightarrow> bs = concat (map (dev_view medium root base s) [lba..<lba + n]))"
proof (cases "range_ok (g_devinfo s d) lba n")
  case False
  with r inv show ?thesis by (auto simp: blk_read_def)
next
  case True
  then have "root_of s d lba = (root, base + lba)" using flat by (auto intro: dev_flat_root_of)
  with r inv True have loop: "blk_read_loop drv root (base + lba) n [] s = (r, s')"
    by (simp add: blk_read_def blk_inv_def)
  with blk_read_loop_ok [OF inv loop] show ?thesis
    by (simp add: dev_view_def [abs_def] comp_def map_shift_upt [symmetric])
qed

lemma dev_write_ok:
  assumes inv: "blk_inv medium s" and flat: "dev_flat s d root base" and r: "blk_write drv d lba secs s = (r, s')"
    and len: "\<forall>sec \<in> set secs. length sec = BLK_SECTOR_SIZE"
  shows "blk_inv medium s' \<and> g_devinfo s' = g_devinfo s \<and>
    (\<exists>k \<le> length secs. (r = Inr () \<longrightarrow> k = length secs) \<and>
      (\<forall>a. dev_view medium root base s' a =
        (if lba \<le> a \<and> a < lba + k then secs ! (a - lba) else dev_view medium root base s a)))"
proof (cases "range_ok (g_devinfo s d) lba (length secs) \<and> \<not> bd_readonly (g_devinfo s d) \<and> \<not> bd_readonly (g_devinfo s root)")
  case True
  then have "root_of s d lba = (root, base + lba)" using flat by (auto intro: dev_flat_root_of)
  with r inv True have loop: "blk_write_loop drv root (base + lba) secs s = (r, s')"
    by (simp add: blk_write_def blk_inv_def)
  from blk_write_loop_ok [OF inv this len] obtain k where
    "blk_inv medium s'" "g_devinfo s' = g_devinfo s" "k \<le> length secs" "r = Inr () \<longrightarrow> k = length secs"
    and k: "\<And>d' a. blk_view medium s' d' a =
      (if d' = root \<and> base + lba \<le> a \<and> a < base + lba + k then secs ! (a - (base + lba)) else blk_view medium s d' a)"
    by auto
  moreover have "dev_view medium root base s' a =
      (if lba \<le> a \<and> a < lba + k then secs ! (a - lba) else dev_view medium root base s a)" for a
    by (simp add: dev_view_def k)
  ultimately show ?thesis by auto
next
  case False
  have "root_of s d lba = (root, base + lba)" if "range_ok (g_devinfo s d) lba (length secs)"
    using dev_flat_root_of [OF flat that] .
  with False r have "s' = s" "\<exists>e. r = Inl e" by (auto simp: blk_write_def split: if_splits)
  with inv show ?thesis by (auto intro!: exI [of _ 0])
qed

end

sublocale disk_driver \<subseteq> dev: sector_store "blk_store drv d" "store_inv medium d root base" "dev_view medium root base"
  for d root base
proof
  fix s :: "'w blk" and lba
  assume "store_inv medium d root base s"
  then show "length (dev_view medium root base s lba) = BLK_SECTOR_SIZE"
    by (simp add: store_inv_def blk_inv_def dev_view_def blk_inv_view_length medium_length)
next
  fix s s' :: "'w blk" and f lba sec
  assume "store_inv medium d root base s" "keeps_size f" "st_edit (blk_store drv d) lba f s = (Inr sec, s')"
  with buf_edit_ok [of s d root base lba f "Inr sec" s']
  show "store_inv medium d root base s' \<and> sec = dev_view medium root base s lba \<and>
      dev_view medium root base s' = (case f (dev_view medium root base s lba) of
        None \<Rightarrow> dev_view medium root base s | Some new \<Rightarrow> (dev_view medium root base s)(lba := new))"
    using store_inv_step [of medium d root base s s'] dev_view_cong [of medium s' s root base]
    by (cases "f (dev_view medium root base s lba)")
      (auto simp: blk_store_def store_inv_def dev_view_def [of medium root base s'] dev_view_def [of medium root base s]
        fun_eq_iff)
next
  fix s s' :: "'w blk" and lba f e
  assume s: "store_inv medium d root base s" and "st_edit (blk_store drv d) lba f s = (Inl e, s')"
  then have "buf_edit drv d lba (\<lambda>_. None) s = (Inl e, s')"
    by (auto simp: blk_store_def buf_edit_def Let_def split: prod.splits sum.splits)
  with buf_edit_ok [of s d root base lba "\<lambda>_. None" "Inl e" s'] s
  show "store_inv medium d root base s' \<and> dev_view medium root base s' = dev_view medium root base s"
    using store_inv_step [of medium d root base s s'] dev_view_cong [of medium s' s root base]
    by (auto simp: store_inv_def keeps_size_def)
next
  fix s s' :: "'w blk" and lba u
  assume "store_inv medium d root base s" "st_new (blk_store drv d) lba s = (Inr u, s')"
  with buf_zero_ok [of s d root base lba "Inr u" s']
  show "store_inv medium d root base s' \<and>
      dev_view medium root base s' = (dev_view medium root base s)(lba := replicate BLK_SECTOR_SIZE 0)"
    using store_inv_step [of medium d root base s s']
    by (auto simp: blk_store_def store_inv_def dev_view_def [abs_def] fun_upd_def)
next
  fix s s' :: "'w blk" and lba e
  assume "store_inv medium d root base s" "st_new (blk_store drv d) lba s = (Inl e, s')"
  with buf_zero_ok [of s d root base lba "Inl e" s']
  show "store_inv medium d root base s' \<and> dev_view medium root base s' = dev_view medium root base s"
    using store_inv_step [of medium d root base s s'] dev_view_cong [of medium s' s root base]
    by (auto simp: blk_store_def store_inv_def)
next
  fix s s' :: "'w blk" and lba n r
  assume "store_inv medium d root base s" "st_read (blk_store drv d) lba n s = (r, s')"
  with dev_read_ok [of s d root base lba n r s']
  show "store_inv medium d root base s' \<and> dev_view medium root base s' = dev_view medium root base s \<and>
      (\<forall>bs. r = Inr bs \<longrightarrow> bs = concat (map (dev_view medium root base s) [lba..<lba + n]))"
    using store_inv_step [of medium d root base s s'] dev_view_cong [of medium s' s root base]
    by (auto simp: blk_store_def store_inv_def)
next
  fix s s' :: "'w blk" and lba secs r
  assume "store_inv medium d root base s" "st_write (blk_store drv d) lba secs s = (r, s')"
    "\<forall>sec \<in> set secs. length sec = BLK_SECTOR_SIZE"
  with dev_write_ok [of s d root base lba secs r s']
  show "store_inv medium d root base s' \<and> (\<exists>k \<le> length secs. (r = Inr () \<longrightarrow> k = length secs) \<and>
      (\<forall>a. dev_view medium root base s' a =
        (if lba \<le> a \<and> a < lba + k then secs ! (a - lba) else dev_view medium root base s a)))"
    using store_inv_step [of medium d root base s s'] by (auto simp: blk_store_def store_inv_def)
next
  fix s s' :: "'w blk" and r
  assume "store_inv medium d root base s" "st_sync (blk_store drv d) s = (r, s')"
  with flush_root_locked_ok [of s "fst (root_of s d 0)" r s']
  show "store_inv medium d root base s' \<and> dev_view medium root base s' = dev_view medium root base s"
    using store_inv_step [of medium d root base s s'] dev_view_cong [of medium s' s root base]
    by (auto simp: blk_store_def blk_flush_def store_inv_def)
qed

section \<open>Byte I/O\<close>

lemma div_mod_offset:
  fixes a i n :: nat
  assumes "a mod n + i < n"
  shows "(a + i) div n = a div n" "(a + i) mod n = a mod n + i"
proof -
  have "a + i = (a mod n + i) + a div n * n" by (simp add: mod_div_mult_eq add.commute add.left_commute)
  with assms show "(a + i) div n = a div n" "(a + i) mod n = a mod n + i"
    by (metis div_less div_mult_self3 mod_less mod_mult_self1 add.commute add_0 gr_implies_not0 linorder_neqE_nat,
        metis mod_less mod_mult_self1)
qed

lemma dev_byte_put:
  assumes v: "dev_view medium root base s' =
      (dev_view medium root base s)(off div BLK_SECTOR_SIZE := sec_put (off mod BLK_SECTOR_SIZE) xs sec)"
    and len: "length sec = BLK_SECTOR_SIZE" "off mod BLK_SECTOR_SIZE + length xs \<le> BLK_SECTOR_SIZE"
    and old: "sec = dev_view medium root base s (off div BLK_SECTOR_SIZE) \<or> length xs = BLK_SECTOR_SIZE"
  shows "dev_byte medium root base s' i =
    (if off \<le> i \<and> i < off + length xs then xs ! (i - off) else dev_byte medium root base s i)"
proof -
  let ?n = BLK_SECTOR_SIZE
  have n: "0 < ?n" by (simp add: BLK_SECTOR_SIZE_def)
  have off: "off = off div ?n * ?n + off mod ?n" and i: "i = i div ?n * ?n + i mod ?n" by simp_all
  show ?thesis
  proof (cases "i div ?n = off div ?n")
    case True
    have "off \<le> i \<longleftrightarrow> off mod ?n \<le> i mod ?n" "i < off + length xs \<longleftrightarrow> i mod ?n < off mod ?n + length xs"
      "i - off = i mod ?n - off mod ?n"
      using off i True by (metis add_le_cancel_left, metis add.assoc nat_add_left_cancel_less, metis add_diff_cancel_left)
    moreover have "i mod ?n < ?n" using n by simp
    ultimately show ?thesis
      using v len old True by (auto simp: dev_byte_def nth_sec_put)
  next
    case False
    have "\<not> (off \<le> i \<and> i < off + length xs)"
    proof
      assume "off \<le> i \<and> i < off + length xs"
      then have "off mod ?n + (i - off) < ?n" using len(2) by linarith
      from div_mod_offset(1) [OF this] \<open>off \<le> i \<and> _\<close> False show False by simp
    qed
    with v False show ?thesis by (auto simp: dev_byte_def)
  qed
qed

lemma sec_get_bytes:
  assumes "length (dev_view medium root base s (off div BLK_SECTOR_SIZE)) = BLK_SECTOR_SIZE"
    and "off mod BLK_SECTOR_SIZE + n \<le> BLK_SECTOR_SIZE"
  shows "sec_get (dev_view medium root base s (off div BLK_SECTOR_SIZE)) (off mod BLK_SECTOR_SIZE) n =
    map (dev_byte medium root base s) [off..<off + n]"
proof (rule nth_equalityI)
  fix i assume "i < length (sec_get (dev_view medium root base s (off div BLK_SECTOR_SIZE)) (off mod BLK_SECTOR_SIZE) n)"
  with assms have "i < n" by (simp add: sec_get_def)
  with assms div_mod_offset [of off BLK_SECTOR_SIZE i]
  show "sec_get (dev_view medium root base s (off div BLK_SECTOR_SIZE)) (off mod BLK_SECTOR_SIZE) n ! i =
      map (dev_byte medium root base s) [off..<off + n] ! i"
    by (simp add: sec_get_def dev_byte_def)
qed (use assms in \<open>simp add: sec_get_def\<close>)

context disk_driver
begin

lemma store_inv_length: "store_inv medium d root base s \<Longrightarrow> length (dev_view medium root base s lba) = BLK_SECTOR_SIZE"
  by (rule dev.view_length)

lemma read_bytes_loop_ok:
  assumes "store_inv medium d root base s" and "read_bytes_loop drv d off len out s = (r, s')"
  shows "store_inv medium d root base s' \<and> blk_view medium s' = blk_view medium s \<and>
    (\<forall>bs. r = Inr bs \<longrightarrow> bs = out @ map (dev_byte medium root base s) [off..<off + len])"
  using assms
proof (induction len arbitrary: off out s rule: less_induct)
  case (less len)
  show ?case
  proof (cases "len = 0")
    case True
    with less.prems show ?thesis by (auto simp: read_bytes_loop.simps)
  next
    case False
    let ?lba = "off div BLK_SECTOR_SIZE" and ?w = "off mod BLK_SECTOR_SIZE"
    obtain q s1 where q: "buf_copy drv d ?lba s = (q, s1)" by fastforce
    have s: "blk_inv medium s" "dev_flat s d root base" using less.prems(1) by (auto simp: store_inv_def)
    note bc = buf_copy_ok [OF s q]
    have inv1: "store_inv medium d root base s1" using bc store_inv_step [OF less.prems(1)] by blast
    show ?thesis
    proof (cases q)
      case (Inl e)
      with less.prems(2) False q have "r = Inl e" "s' = s1" by (auto simp: read_bytes_loop.simps [of _ _ off])
      with bc inv1 show ?thesis by simp
    next
      case (Inr sec)
      define n where "n = min (BLK_SECTOR_SIZE - ?w) len"
      have n: "0 < n" "n \<le> len" "?w + n \<le> BLK_SECTOR_SIZE"
        using False by (auto simp: n_def BLK_SECTOR_SIZE_def min_def)
      have "read_bytes_loop drv d (off + n) (len - n) (out @ sec_get sec ?w n) s1 = (r, s')"
        using less.prems(2) False q Inr by (simp add: read_bytes_loop.simps [of _ _ off] Let_def n_def)
      from less.IH [OF _ inv1 this] n False
      have ih: "store_inv medium d root base s'" "blk_view medium s' = blk_view medium s1"
        "\<And>bs. r = Inr bs \<Longrightarrow> bs = (out @ sec_get sec ?w n) @
          map (dev_byte medium root base s1) [off + n..<off + n + (len - n)]" by auto
      have "sec_get sec ?w n = map (dev_byte medium root base s) [off..<off + n]"
        using bc Inr n(3) store_inv_length [OF less.prems(1)] by (simp add: sec_get_bytes)
      moreover have "dev_byte medium root base s1 = dev_byte medium root base s"
        using bc dev_byte_cong by blast
      moreover have "[off..<off + len] = [off..<off + n] @ [off + n..<off + n + (len - n)]"
        using n(2) upt_add_eq_append [of off "off + n" "len - n"] by simp
      ultimately show ?thesis using ih bc by auto
    qed
  qed
qed

lemma write_bytes_loop_ok:
  assumes "store_inv medium d root base s" and "write_bytes_loop drv d off bs s = (r, s')"
  shows "store_inv medium d root base s' \<and>
    (\<exists>k \<le> length bs. (r = Inr () \<longrightarrow> k = length bs) \<and>
      (\<forall>i. dev_byte medium root base s' i =
        (if off \<le> i \<and> i < off + k then bs ! (i - off) else dev_byte medium root base s i)))"
  using assms
proof (induction "length bs" arbitrary: off bs s rule: less_induct)
  case less
  show ?case
  proof (cases "bs = []")
    case True
    with less.prems show ?thesis by (auto simp: write_bytes_loop.simps)
  next
    case False
    let ?lba = "off div BLK_SECTOR_SIZE" and ?w = "off mod BLK_SECTOR_SIZE"
    define n where "n = min (BLK_SECTOR_SIZE - ?w) (length bs)"
    have n: "0 < n" "n \<le> length bs" "?w + n \<le> BLK_SECTOR_SIZE"
      using False by (auto simp: n_def BLK_SECTOR_SIZE_def min_def)
    let ?f = "sec_put ?w (take n bs)"
    obtain q s1 where q: "buf_modify drv (n = BLK_SECTOR_SIZE) d ?lba ?f s = (q, s1)" by fastforce
    have s: "blk_inv medium s" "dev_flat s d root base" using less.prems(1) by (auto simp: store_inv_def)
    have f: "length (?f sec) = BLK_SECTOR_SIZE" if "length sec = BLK_SECTOR_SIZE" for sec
      using n that by simp
    note bm = buf_modify_ok [OF s q f]
    have inv1: "store_inv medium d root base s1" using bm store_inv_step [OF less.prems(1)] by blast
    show ?thesis
    proof (cases q)
      case (Inl e)
      with less.prems(2) False q have "r = Inl e" "s' = s1"
        by (auto simp: write_bytes_loop.simps [of _ _ off] Let_def n_def [symmetric])
      with bm inv1 Inl show ?thesis by (auto simp: dev_byte_def dev_view_def intro!: exI [of _ 0])
    next
      case (Inr u)
      have "write_bytes_loop drv d (off + n) (drop n bs) s1 = (r, s')"
        using less.prems(2) False q Inr by (simp add: write_bytes_loop.simps [of _ _ off] Let_def n_def [symmetric])
      moreover have "length (drop n bs) < length bs" using n by simp
      ultimately obtain k where
        k: "store_inv medium d root base s'" "k \<le> length bs - n" "r = Inr () \<longrightarrow> k = length bs - n"
        "\<And>i. dev_byte medium root base s' i = (if off + n \<le> i \<and> i < off + n + k
           then drop n bs ! (i - (off + n)) else dev_byte medium root base s1 i)"
        using less.hyps [of "drop n bs" s1 "off + n"] inv1 by auto
      have b1: "dev_byte medium root base s1 i =
          (if off \<le> i \<and> i < off + n then bs ! (i - off) else dev_byte medium root base s i)" for i
      proof -
        have "dev_view medium root base s1 = (dev_view medium root base s)
            (?lba := ?f (if n = BLK_SECTOR_SIZE then replicate BLK_SECTOR_SIZE 0 else dev_view medium root base s ?lba))"
          using bm Inr by (auto simp: dev_view_def [abs_def] fun_upd_def)
        from dev_byte_put [OF this, of i] n store_inv_length [OF less.prems(1)] show ?thesis by auto
      qed
      have "dev_byte medium root base s' i =
          (if off \<le> i \<and> i < off + (n + k) then bs ! (i - off) else dev_byte medium root base s i)" for i
        using k(2) k(4) [of i] b1 [of i] n(2) by (auto simp: algebra_simps)
      then show ?thesis using k(1-3) n(2) by (intro conjI exI [of _ "n + k"]) auto
    qed
  qed
qed

section \<open>Unregistering\<close>

lemma drop_bufs_ok:
  assumes "blk_inv medium s"
    and "\<forall>b < BCACHE_BUFFERS. bb_dev (g_pool s b) = Some d \<longrightarrow> \<not> bb_dirty (g_pool s b) \<and> bb_refs (g_pool s b) = 0"
  shows "blk_inv medium (drop_bufs d s) \<and> blk_view medium (drop_bufs d s) = blk_view medium s \<and>
    g_devinfo (drop_bufs d s) = g_devinfo s \<and> g_devs (drop_bufs d s) = g_devs s \<and> g_world (drop_bufs d s) = g_world s \<and>
    (\<forall>b < BCACHE_BUFFERS. bb_dev (g_pool (drop_bufs d s) b) \<noteq> Some d)"
proof -
  let ?step = "\<lambda>b s. if bb_dev (g_pool s b) = Some d
      then upd_buf b (\<lambda>x. x\<lparr>bb_dev := None, bb_dirty := False\<rparr>) (hash_remove b s) else s"
  let ?free = "\<lambda>s. \<forall>b < BCACHE_BUFFERS. bb_dev (g_pool s b) = Some d \<longrightarrow> \<not> bb_dirty (g_pool s b) \<and> bb_refs (g_pool s b) = 0"
  have "blk_inv medium (fold ?step bs s) \<and> blk_view medium (fold ?step bs s) = blk_view medium s \<and>
      g_devinfo (fold ?step bs s) = g_devinfo s \<and> g_devs (fold ?step bs s) = g_devs s \<and>
      g_world (fold ?step bs s) = g_world s \<and>
      (\<forall>b. b \<in> set bs \<or> bb_dev (g_pool s b) \<noteq> Some d \<longrightarrow> bb_dev (g_pool (fold ?step bs s) b) \<noteq> Some d)"
    if "blk_inv medium s" "?free s" "\<forall>b \<in> set bs. b < BCACHE_BUFFERS" for bs s
    using that
  proof (induction bs arbitrary: s)
    case (Cons b bs)
    define t where "t = ?step b s"
    have b: "b < BCACHE_BUFFERS" using Cons.prems by simp
    have s: "blk_struct s" "blk_clean medium {} s" using Cons.prems(1) by (auto simp: blk_inv_def)
    have 1: "blk_inv medium t \<and> blk_view medium t = blk_view medium s"
    proof (cases "bb_dev (g_pool s b) = Some d")
      case True
      with Cons.prems b have free: "\<not> bb_dirty (g_pool s b)" "bb_refs (g_pool s b) = 0" by auto
      then have "g_pool s b\<lparr>bb_dev := None, bb_dirty := False\<rparr> = g_pool s b\<lparr>bb_dev := None\<rparr>"
        by (cases "g_pool s b") simp
      then have "t = upd_buf b (\<lambda>x. x\<lparr>bb_dev := None\<rparr>) (hash_remove b s)"
        using True by (simp add: t_def upd_buf_def)
      with detach_ok [OF s b free] Cons.prems(1) show ?thesis by (simp add: blk_inv_def)
    qed (use Cons.prems in \<open>simp add: t_def\<close>)
    have 2: "g_devinfo t = g_devinfo s" "g_devs t = g_devs s" "g_world t = g_world s" by (auto simp: t_def)
    have 3: "bb_dev (g_pool t c) = Some d \<longleftrightarrow> c \<noteq> b \<and> bb_dev (g_pool s c) = Some d" for c
      by (auto simp: t_def)
    have free1: "?free t" using Cons.prems(2) by (auto simp: t_def)
    have "\<forall>b \<in> set bs. b < BCACHE_BUFFERS" using Cons.prems(3) by simp
    note ih = Cons.IH [OF conjunct1 [OF 1] free1 this]
    define u where "u = fold ?step bs t"
    have u: "fold ?step (b # bs) s = u" by (simp add: t_def u_def)
    have "b' \<in> set (b # bs) \<or> bb_dev (g_pool s b') \<noteq> Some d \<longrightarrow> bb_dev (g_pool u b') \<noteq> Some d" for b'
      using ih [folded u_def] 3 [of b'] by auto
    then show ?case unfolding u using ih [folded u_def] 1 2 by simp
  qed auto
  from this [OF assms, of "[0..<BCACHE_BUFFERS]"] show ?thesis by (simp add: drop_bufs_def)
qed

lemma unregister_root_ok:
  assumes inv: "blk_inv medium s" and u: "unregister_root drv d s = (r, s')"
  shows "blk_inv medium s' \<and> blk_view medium s' = blk_view medium s \<and> g_devinfo s' = g_devinfo s \<and>
    (r = Inr () \<longrightarrow> medium (g_world s') d = blk_view medium s d \<and>
      (\<forall>b < BCACHE_BUFFERS. bb_dev (g_pool s' b) \<noteq> Some d))"
proof -
  obtain q s1 where q: "flush_root_locked drv d s = (q, s1)" by fastforce
  note fl = flush_root_locked_ok [OF inv q]
  show ?thesis
  proof (cases q)
    case (Inl e)
    with u q have "r = Inl e" "s' = s1" by (auto simp: unregister_root_def)
    with fl show ?thesis by simp
  next
    case (Inr x)
    show ?thesis
    proof (cases "\<exists>b \<in> set [0..<BCACHE_BUFFERS]. bb_dev (g_pool s1 b) = Some d \<and> bb_refs (g_pool s1 b) \<noteq> 0")
      case True
      with u q Inr fl have "r = Inl EBUSY" "s' = s1" by (auto simp: unregister_root_def blk_inv_def)
      with fl show ?thesis by simp
    next
      case False
      with u q Inr fl have r: "r = Inr ()" "s' = drop_bufs d s1"
        by (auto simp: unregister_root_def blk_inv_def split: if_splits)
      have "\<forall>b < BCACHE_BUFFERS. bb_dev (g_pool s1 b) = Some d \<longrightarrow> \<not> bb_dirty (g_pool s1 b) \<and> bb_refs (g_pool s1 b) = 0"
        using fl False Inr by auto
      from drop_bufs_ok [OF _ this] fl Inr r show ?thesis by auto
    qed
  qed
qed

lemma unregister_all_ok:
  assumes unreg: "\<And>c s r s'. blk_inv medium s \<Longrightarrow> unreg c s = (r, s') \<Longrightarrow>
      blk_inv medium s' \<and> blk_view medium s' = blk_view medium s \<and> g_devinfo s' = g_devinfo s"
  shows "blk_inv medium s \<Longrightarrow> unregister_all unreg cs s = (r, s') \<Longrightarrow>
      blk_inv medium s' \<and> blk_view medium s' = blk_view medium s \<and> g_devinfo s' = g_devinfo s"
proof (induction cs arbitrary: s)
  case (Cons c cs)
  obtain q s1 where q: "unreg c s = (q, s1)" by fastforce
  from unreg [OF Cons.prems(1) q] Cons.IH [of s1] Cons.prems(2) q show ?case by (cases q) auto
qed simp

lemma forget_dev_ok:
  "blk_inv medium (forget_dev d s) = blk_inv medium s"
  "blk_view medium (forget_dev d s) = blk_view medium s"
  "g_devinfo (forget_dev d s) = g_devinfo s" "g_pool (forget_dev d s) = g_pool s" "g_world (forget_dev d s) = g_world s"
proof -
  have "blk_struct (forget_dev d s) = blk_struct s"
    by (simp add: forget_dev_def blk_struct_def blk_lru_ok_def blk_chains_ok_def blk_unique_def blk_bufs_ok_def
        bucket_of_def)
  then show "blk_inv medium (forget_dev d s) = blk_inv medium s"
    by (simp add: forget_dev_def blk_inv_def blk_clean_def)
  show "blk_view medium (forget_dev d s) = blk_view medium s"
    by (rule ext, rule ext) (simp add: forget_dev_def blk_view_def blk_lookup_def bucket_of_def split: option.split)
qed (simp_all add: forget_dev_def)

lemma blk_unregister_fuel_ok:
  assumes "blk_inv medium s" and "blk_unregister_fuel n drv d s = (r, s')"
  shows "blk_inv medium s' \<and> blk_view medium s' = blk_view medium s \<and> g_devinfo s' = g_devinfo s \<and>
    (r = Inr () \<longrightarrow> (\<forall>i < BLK_MAX_DEVICES. g_devs s' i \<noteq> Some d) \<and>
      (bd_parent (g_devinfo s d) = None \<longrightarrow> medium (g_world s') d = blk_view medium s d \<and>
        (\<forall>b < BCACHE_BUFFERS. bb_dev (g_pool s' b) \<noteq> Some d)))"
  using assms
proof (induction n arbitrary: d s r s')
  case (Suc n)
  define children where "children = filter (\<lambda>c. c \<noteq> d \<and> bd_parent (g_devinfo s c) = Some d)
    (map (\<lambda>i. the (g_devs s i)) (filter (\<lambda>i. g_devs s i \<noteq> None) [0..<BLK_MAX_DEVICES]))"
  obtain q s1 where q: "unregister_all (blk_unregister_fuel n drv) children s = (q, s1)" by fastforce
  obtain q2 s2 where q2: "(if bd_parent (g_devinfo s1 d) = None then unregister_root drv d s1 else (Inr (), s1)) = (q2, s2)"
    by fastforce
  have s1: "blk_inv medium s1" "blk_view medium s1 = blk_view medium s" "g_devinfo s1 = g_devinfo s"
    using unregister_all_ok [OF _ Suc.prems(1) q] Suc.IH by blast+
  have s2: "blk_inv medium s2" "blk_view medium s2 = blk_view medium s1" "g_devinfo s2 = g_devinfo s1"
    "q2 = Inr () \<Longrightarrow> bd_parent (g_devinfo s1 d) = None \<Longrightarrow> medium (g_world s2) d = blk_view medium s1 d \<and>
        (\<forall>b < BCACHE_BUFFERS. bb_dev (g_pool s2 b) \<noteq> Some d)"
    using unregister_root_ok [OF s1(1), of d q2 s2] q2 s1(1) by (auto split: if_splits)
  have "(r, s') = (if \<not> (\<exists>i \<in> set (filter (\<lambda>i. g_devs s i \<noteq> None) [0..<BLK_MAX_DEVICES]). g_devs s i = Some d)
      then (Inl ENODEV, s)
      else (case q of Inl e \<Rightarrow> (Inl e, s1)
            | Inr _ \<Rightarrow> (case q2 of Inl e \<Rightarrow> (Inl e, s2) | Inr _ \<Rightarrow> (Inr (), forget_dev d s2))))"
    using Suc.prems(2) [symmetric]
    by (cases q) (simp_all only: blk_unregister_fuel.simps Let_def children_def [symmetric] q q2 prod.case sum.case)
  then have "(r, s') = (Inl ENODEV, s) \<or> (\<exists>e. q = Inl e \<and> (r, s') = (Inl e, s1)) \<or>
      q = Inr () \<and> (\<exists>e. q2 = Inl e \<and> (r, s') = (Inl e, s2)) \<or> q2 = Inr () \<and> (r, s') = (Inr (), forget_dev d s2)"
    by (cases q; cases q2) (simp_all split: if_splits)
  moreover have "g_devs (forget_dev d s2) i \<noteq> Some d" if "i < BLK_MAX_DEVICES" for i
    using that by (simp add: forget_dev_def)
  ultimately show ?case using Suc.prems(1) s1 s2 by (elim disjE) (auto simp: forget_dev_ok)
qed auto

end

end
