(* ===== verification/Ramdisk.thy ===== *)
theory Ramdisk
  imports BlkStore
begin

text \<open>
  The memory-backed disk, \<^verbatim>\<open>src/drivers/block/ramdisk.c\<close>, as a provider of \<open>disk_driver\<close>,
  and the correctness theorems of the block layer over any driver that keeps this contract.
  The memory of a ramdisk is a function from byte offsets to bytes.
\<close>

record ramdisk =
  rd_mem :: "nat \<Rightarrow> u8"
  rd_owns_mem :: bool

type_synonym ramdisks = "nat \<Rightarrow> ramdisk"

definition ram_read :: "nat \<Rightarrow> nat \<Rightarrow> nat \<Rightarrow> ramdisks \<Rightarrow> u8 list res \<times> ramdisks" where
  "ram_read d lba count w =
    (Inr (map (rd_mem (w d)) [lba * BLK_SECTOR_SIZE..<lba * BLK_SECTOR_SIZE + count * BLK_SECTOR_SIZE]), w)"

definition ram_write :: "nat \<Rightarrow> nat \<Rightarrow> nat \<Rightarrow> u8 list \<Rightarrow> ramdisks \<Rightarrow> unit res \<times> ramdisks" where
  "ram_write d lba count buf w =
    (Inr (), w(d := (w d)\<lparr>rd_mem := (\<lambda>i. if lba * BLK_SECTOR_SIZE \<le> i \<and>
                                           i < lba * BLK_SECTOR_SIZE + count * BLK_SECTOR_SIZE
                                        then buf ! (i - lba * BLK_SECTOR_SIZE) else rd_mem (w d) i)\<rparr>))"

text \<open>The driver has no \<open>flush\<close>; \<open>bd_has_flush\<close> is false for its devices.\<close>

definition g_ram_ops :: "ramdisks driver" where
  "g_ram_ops = \<lparr>dv_read = ram_read, dv_write = ram_write, dv_flush = (\<lambda>d w. (Inr (), w))\<rparr>"

text \<open>
  \<open>heap\<close>: whether both allocations succeed; \<open>d\<close> and \<open>address\<close>: the new device structure.
  Without memory \<open>mem\<close> is None.
\<close>

definition ramdisk_create ::
    "bool \<Rightarrow> nat \<Rightarrow> u64 \<Rightarrow> string \<Rightarrow> (nat \<Rightarrow> u8) option \<Rightarrow> nat \<Rightarrow> bool \<Rightarrow> ramdisks blk \<Rightarrow> nat option \<times> ramdisks blk" where
  "ramdisk_create heap d address name mem sz readonly s =
    (case mem of
       None \<Rightarrow> (None, s)
     | Some m \<Rightarrow>
         if sz < BLK_SECTOR_SIZE \<or> length name \<ge> BLK_NAME_MAX then (None, s)
         else if \<not> heap then (None, s)
         else let dev = \<lparr>bd_name = name, bd_sectors = sz div BLK_SECTOR_SIZE, bd_readonly = readonly,
                         bd_has_read = True, bd_has_write = True, bd_has_flush = False,
                         bd_parent = None, bd_start = 0, bd_owned = True, bd_address = address\<rparr>;
                  s1 = s\<lparr>g_devinfo := (g_devinfo s)(d := dev),
                         g_world := (g_world s)(d := \<lparr>rd_mem = m, rd_owns_mem = False\<rparr>)\<rparr>
              in (case blk_register d s1 of
                    (Inl _, s2) \<Rightarrow> (None, s)
                  | (Inr _, s2) \<Rightarrow> (Some d, s2)))"

definition ramdisk_alloc :: "bool \<Rightarrow> bool \<Rightarrow> nat \<Rightarrow> u64 \<Rightarrow> string \<Rightarrow> nat \<Rightarrow> ramdisks blk \<Rightarrow> nat option \<times> ramdisks blk" where
  "ramdisk_alloc heap_mem heap d address name sz0 s =
    (let sz = sz0 - sz0 mod BLK_SECTOR_SIZE
     in if sz = 0 then (None, s)
        else if \<not> heap_mem then (None, s)
        else case ramdisk_create heap d address name (Some (\<lambda>_. 0)) sz False s of
               (None, s1) \<Rightarrow> (None, s1)
             | (Some d', s1) \<Rightarrow>
                 (Some d', s1\<lparr>g_world := (g_world s1)(d' := (g_world s1 d')\<lparr>rd_owns_mem := True\<rparr>)\<rparr>))"

text \<open>Returns whether the memory of the disk was given back to the heap.\<close>

definition ramdisk_destroy :: "nat \<Rightarrow> ramdisks blk \<Rightarrow> bool \<times> ramdisks blk" where
  "ramdisk_destroy d s =
    (let owns = rd_owns_mem (g_world s d)
     in case blk_unregister g_ram_ops d s of
          (Inl _, s1) \<Rightarrow> (False, s1)
        | (Inr _, s1) \<Rightarrow> (owns, s1))"

text \<open>The sectors of a ramdisk.\<close>

definition ram_medium :: "ramdisks \<Rightarrow> nat \<Rightarrow> nat \<Rightarrow> u8 list" where
  "ram_medium w d lba = map (rd_mem (w d)) [lba * BLK_SECTOR_SIZE..<lba * BLK_SECTOR_SIZE + BLK_SECTOR_SIZE]"

lemma concat_sectors:
  "concat (map (\<lambda>a. map f [a * k..<a * k + k]) [lba..<lba + n]) = map f [lba * k..<lba * k + n * k]"
proof (induction n)
  case (Suc n)
  have "[lba * k..<lba * k + Suc n * k] = [lba * k..<lba * k + n * k] @ [(lba + n) * k..<(lba + n) * k + k]"
    using upt_add_eq_append [of "lba * k" "lba * k + n * k" k] by (simp add: algebra_simps)
  with Suc show ?case by simp
qed simp

lemma nth_concat_sectors:
  assumes "\<forall>sec \<in> set secs. length sec = k" and "i < length secs" and "j < k"
  shows "concat secs ! (i * k + j) = secs ! i ! j"
  using assms
proof (induction secs arbitrary: i)
  case (Cons sec secs)
  then show ?case by (cases i) (auto simp: nth_append)
qed simp

interpretation ram: disk_driver g_ram_ops ram_medium
proof
  fix w d a show "length (ram_medium w d a) = BLK_SECTOR_SIZE" by (simp add: ram_medium_def)
next
  fix d a n w bs w' assume "dv_read g_ram_ops d a n w = (Inr bs, w')"
  then show "ram_medium w' = ram_medium w \<and> bs = concat (map (ram_medium w d) [a..<a + n])"
    by (auto simp: g_ram_ops_def ram_read_def ram_medium_def [abs_def] concat_sectors)
next
  fix d a n w e w' assume "dv_read g_ram_ops d a n w = (Inl e, w')"
  then show "ram_medium w' = ram_medium w" by (simp add: g_ram_ops_def ram_read_def)
next
  fix d a and secs :: "u8 list list" and w u w' d' a'
  let ?k = BLK_SECTOR_SIZE
  assume wr: "dv_write g_ram_ops d a (length secs) (concat secs) w = (Inr u, w')"
    and len: "\<forall>sec \<in> set secs. length sec = ?k"
  have mem: "rd_mem (w' d') i = (if d' = d \<and> a * ?k \<le> i \<and> i < a * ?k + length secs * ?k
      then concat secs ! (i - a * ?k) else rd_mem (w d') i)" for d' i
    using wr by (auto simp: g_ram_ops_def ram_write_def)
  show "ram_medium w' d' a' =
      (if d' = d \<and> a \<le> a' \<and> a' < a + length secs then secs ! (a' - a) else ram_medium w d' a')"
  proof (cases "d' = d \<and> a \<le> a' \<and> a' < a + length secs")
    case True
    then obtain i where i: "a' = a + i" "i < length secs" by (metis le_iff_add nat_add_left_cancel_less)
    show ?thesis
    proof (rule nth_equalityI)
      show "length (ram_medium w' d' a') = length (if d' = d \<and> a \<le> a' \<and> a' < a + length secs then secs ! (a' - a)
          else ram_medium w d' a')" using True i len by (simp add: ram_medium_def)
      fix j assume "j < length (ram_medium w' d' a')"
      then have j: "j < ?k" by (simp add: ram_medium_def)
      have "Suc i * ?k \<le> length secs * ?k" using i(2) by (intro mult_le_mono1) simp
      then have "i * ?k + j < length secs * ?k" using j by simp
      moreover have "(a + i) * ?k + j - a * ?k = i * ?k + j" by (simp add: algebra_simps)
      ultimately show "ram_medium w' d' a' ! j = (if d' = d \<and> a \<le> a' \<and> a' < a + length secs then secs ! (a' - a)
          else ram_medium w d' a') ! j"
        using True i j nth_concat_sectors [OF len i(2) j] by (simp add: ram_medium_def mem algebra_simps)
    qed
  next
    case False
    have "\<not> (d' = d \<and> a * ?k \<le> i \<and> i < a * ?k + length secs * ?k)" if "a' * ?k \<le> i" "i < a' * ?k + ?k" for i
    proof
      assume c: "d' = d \<and> a * ?k \<le> i \<and> i < a * ?k + length secs * ?k"
      then have "a * ?k < Suc a' * ?k" "a' * ?k < (a + length secs) * ?k" using that by (auto simp: algebra_simps)
      then have "a < Suc a'" "a' < a + length secs" by (metis mult_less_cancel2, metis mult_less_cancel2)
      with False c show False by simp
    qed
    with False show ?thesis by (auto simp: ram_medium_def mem)
  qed
next
  fix d a n bs w e w' d' a' assume "dv_write g_ram_ops d a n bs w = (Inl e, w')"
  then show "ram_medium w' d' a' = ram_medium w d' a'" by (simp add: g_ram_ops_def ram_write_def)
next
  fix d w r w' assume "dv_flush g_ram_ops d w = (r, w')"
  then show "ram_medium w' = ram_medium w" by (simp add: g_ram_ops_def)
qed

section \<open>A cache over a ramdisk\<close>

lemma blk_init_inv:
  assumes "\<not> g_ready s" and "g_buckets s = (\<lambda>_. [])"
  shows "blk_inv medium (blk_init True s)" "blk_view medium (blk_init True s) = medium (g_world s)"
proof -
  have "blk_lookup d a (blk_init True s) = None" for d a
    using assms by (simp add: blk_init_def blk_lookup_def)
  then show "blk_view medium (blk_init True s) = medium (g_world s)"
    using assms by (simp add: blk_view_def fun_eq_iff blk_init_def)
  have "set [0..<BCACHE_BUFFERS] = {..<BCACHE_BUFFERS}" by auto
  then show "blk_inv medium (blk_init True s)"
    using assms by (simp add: blk_init_def blk_inv_def blk_struct_def blk_clean_def blk_lru_ok_def blk_chains_ok_def
        blk_unique_def blk_bufs_ok_def)
qed

text \<open>A 32-sector ramdisk behind an empty cache, and the cache as it is at boot.\<close>

definition boot_blk :: "ramdisks blk" where
  "boot_blk = \<lparr>g_devs = (\<lambda>_. None),
     g_devinfo = (\<lambda>_. \<lparr>bd_name = [], bd_sectors = 0, bd_readonly = False, bd_has_read = False,
                       bd_has_write = False, bd_has_flush = False, bd_parent = None, bd_start = 0,
                       bd_owned = False, bd_address = 0\<rparr>),
     g_pool = (\<lambda>_. \<lparr>bb_dev = None, bb_lba = 0, bb_refs = 0, bb_dirty = False, bb_data = []\<rparr>),
     g_buckets = (\<lambda>_. []), g_lru = [], g_ready = False,
     g_world = (\<lambda>_. \<lparr>rd_mem = (\<lambda>_. 0), rd_owns_mem = False\<rparr>)\<rparr>"

definition demo_disk :: "ramdisks blk" where
  "demo_disk = snd (ramdisk_alloc True True 0 0xFFFF800000100000 ''ram0'' 16384 (blk_init True boot_blk))"

lemma blk_inv_dev_change:
  assumes "blk_inv medium s" and "g_pool s' = g_pool s" "g_buckets s' = g_buckets s" "g_lru s' = g_lru s" "g_ready s' = g_ready s"
    and "\<forall>b < BCACHE_BUFFERS. bb_dev (g_pool s b) = None"
  shows "blk_inv medium s'"
  using assms
  by (auto simp: blk_inv_def blk_struct_def blk_clean_def blk_lru_ok_def blk_chains_ok_def blk_unique_def blk_bufs_ok_def)

lemma demo_disk_eq:
  "demo_disk = (blk_init True boot_blk)
    \<lparr>g_devs := (\<lambda>_. None)(0 := Some 0), g_devinfo := g_devinfo demo_disk, g_world := g_world demo_disk\<rparr>"
  by (simp add: demo_disk_def ramdisk_alloc_def ramdisk_create_def blk_register_def blk_init_def boot_blk_def
      BLK_SECTOR_SIZE_def BLK_NAME_MAX_def registered_def BLK_MAX_DEVICES_def upt_rec)

lemma demo_disk_fields [simp]:
  "g_devinfo demo_disk 0 = \<lparr>bd_name = ''ram0'', bd_sectors = 32, bd_readonly = False, bd_has_read = True,
     bd_has_write = True, bd_has_flush = False, bd_parent = None, bd_start = 0, bd_owned = True,
     bd_address = 0xFFFF800000100000\<rparr>"
  "g_pool demo_disk b = \<lparr>bb_dev = None, bb_lba = 0, bb_refs = 0, bb_dirty = False, bb_data = replicate BLK_SECTOR_SIZE 0\<rparr>"
  "g_buckets demo_disk = (\<lambda>_. [])" "g_lru demo_disk = rev [0..<BCACHE_BUFFERS]" "g_ready demo_disk"
  "g_devs demo_disk = (\<lambda>_. None)(0 := Some 0)" "rd_mem (g_world demo_disk 0) = (\<lambda>_. 0)"
  by (simp_all add: demo_disk_def ramdisk_alloc_def ramdisk_create_def blk_register_def blk_init_def boot_blk_def
      BLK_SECTOR_SIZE_def BLK_NAME_MAX_def registered_def BLK_MAX_DEVICES_def upt_rec)

lemma demo_disk_inv: "blk_inv medium demo_disk"
proof -
  have "blk_inv medium (blk_init True boot_blk)" by (rule blk_init_inv) (simp_all add: boot_blk_def)
  then show ?thesis by (rule blk_inv_dev_change) (simp_all add: blk_init_def boot_blk_def fun_eq_iff)
qed

lemma demo_disk_lookup [simp]: "blk_lookup d a demo_disk = None"
  by (simp add: blk_lookup_def)

lemma demo_disk_flat: "dev_flat demo_disk 0 0 0" and demo_disk_root [simp]: "root_of demo_disk 0 lba = (0, lba)"
  by (simp_all add: dev_flat_root root_of_root)

lemma demo_disk_read:
  "blk_read g_ram_ops 0 3 2 demo_disk = (Inr (replicate (2 * BLK_SECTOR_SIZE) 0), demo_disk)"
proof -
  have "drv_read g_ram_ops 0 3 2 demo_disk = (Inr (replicate (2 * BLK_SECTOR_SIZE) 0), demo_disk)"
    by (simp add: drv_read_def range_ok_def g_ram_ops_def ram_read_def map_replicate_const)
  then show ?thesis
    by (simp add: blk_read_def range_ok_def blk_read_loop.simps BLK_READ_RUN_def numeral_2_eq_2 [symmetric])
qed

lemma demo_disk_victim:
  "take_victim g_ram_ops demo_disk = (Inr 0, upd_buf 0 (\<lambda>x. x\<lparr>bb_dev := None\<rparr>) demo_disk)"
proof -
  have "[0..<BCACHE_BUFFERS] = 0 # [Suc 0..<BCACHE_BUFFERS]"
    by (rule upt_conv_Cons) (simp add: BCACHE_BUFFERS_def)
  then show ?thesis by (simp add: take_victim_def write_back_def hash_remove_def)
qed

lemma demo_disk_get_buf:
  "get_buf g_ram_ops 0 lba False demo_disk =
    (Inr 0, install_buf 0 0 lba (replicate BLK_SECTOR_SIZE 0) (upd_buf 0 (\<lambda>x. x\<lparr>bb_dev := None\<rparr>) demo_disk))"
  by (simp add: get_buf_def demo_disk_victim)

lemma dv_read_ram: "dv_read g_ram_ops = ram_read"
  by (simp add: g_ram_ops_def)

lemma demo_disk_bread:
  assumes "bread g_ram_ops 0 0 demo_disk = (r, s')"
  shows "r = Inr 0 \<and> g_devinfo s' = g_devinfo demo_disk \<and> g_ready s' \<and> blk_lookup 0 0 s' = Some 0"
  using assms
  by (auto simp: bread_def buf_get_def range_ok_def get_buf_def demo_disk_victim drv_read_def dv_read_ram ram_read_def
      install_buf_def Let_def blk_lookup_def bucket_of_def)

lemma demo_disk_bytes:
  obtains s1 s2 cs where "blk_write_bytes g_ram_ops 0 10 [1, 2] demo_disk = (Inr (), s1)"
    and "blk_read_bytes g_ram_ops 0 9 4 s1 = (Inr cs, s2)"
proof -
  obtain r s' where b: "bread g_ram_ops 0 0 demo_disk = (r, s')" by fastforce
  note s' = demo_disk_bread [OF b]
  obtain s1 where w: "blk_write_bytes g_ram_ops 0 10 [1, 2] demo_disk = (Inr (), s1)"
      and s1: "g_devinfo s1 = g_devinfo demo_disk" "g_ready s1" "blk_lookup 0 0 s1 = Some 0"
  proof
    let ?s1 = "brelse 0 (bdirty 0 (upd_buf 0 (\<lambda>x. x\<lparr>bb_data := sec_put 10 [1, 2] (bb_data x)\<rparr>) s'))"
    show "blk_write_bytes g_ram_ops 0 10 [1, 2] demo_disk = (Inr (), ?s1)"
      using b s' by (simp add: blk_write_bytes_def bytes_ok_def BLK_SECTOR_SIZE_def write_bytes_loop.simps
          buf_modify_def)
    show "g_devinfo ?s1 = g_devinfo demo_disk" "g_ready ?s1" "blk_lookup 0 0 ?s1 = Some 0"
      using s' by (simp_all add: brelse_def bdirty_def blk_lookup_upd)
  qed
  have "root_of s1 0 0 = (0, 0)" using s1 by (simp add: root_of_root)
  then obtain sec s2 where "buf_copy g_ram_ops 0 0 s1 = (Inr sec, s2)"
    using s1 by (simp add: buf_copy_def bread_def buf_get_def range_ok_def get_buf_def)
  then have "blk_read_bytes g_ram_ops 0 9 4 s1 = (Inr (sec_get sec 9 4), s2)"
    using s1 by (simp add: blk_read_bytes_def bytes_ok_def BLK_SECTOR_SIZE_def read_bytes_loop.simps)
  with w that show thesis by blast
qed

lemma demo_disk_write:
  "fst (blk_write g_ram_ops 0 3 [replicate BLK_SECTOR_SIZE 7] demo_disk) = Inr ()"
  by (simp add: blk_write_def range_ok_def demo_disk_get_buf)

lemma flush_bufs_none: "\<forall>b \<in> set bs. bb_dev (g_pool s b) \<noteq> Some root \<Longrightarrow> flush_bufs drv root bs err s = (err, s)"
  by (induction bs) auto

lemma demo_disk_flush: "flush_root_locked g_ram_ops 0 demo_disk = (Inr (), demo_disk)"
  by (simp add: flush_root_locked_def flush_bufs_none)

lemma demo_disk_unregister: "fst (blk_unregister g_ram_ops 0 demo_disk) = Inr ()"
proof -
  have "filter (\<lambda>i. g_devs demo_disk i \<noteq> None) [0..<BLK_MAX_DEVICES] = [0]"
    by (simp add: BLK_MAX_DEVICES_def upt_rec)
  then show ?thesis
    unfolding blk_unregister_def blk_unregister_fuel.simps Let_def
    by (simp add: unregister_root_def demo_disk_flush)
qed

section \<open>The block layer over any driver\<close>

text \<open>
  (C18) A cached read is transparent: it returns the sectors of the root device as every
  client sees them, it changes no sector, and out of range it fails and changes nothing.
\<close>

theorem blk_read_coherent:
  assumes "disk_driver drv medium" and "blk_inv medium s" and "blk_read drv d lba count s = (r, s')"
    and "root_of s d lba = (root, pos)"
  shows "blk_inv medium s' \<and> blk_view medium s' = blk_view medium s \<and>
    (\<not> range_ok (g_devinfo s d) lba count \<longrightarrow> r = Inl EINVAL \<and> s' = s) \<and>
    (\<forall>bs. r = Inr bs \<longrightarrow> bs = concat (map (blk_view medium s root) [pos..<pos + count]))"
  using assms(2-4) disk_driver.blk_read_loop_ok [OF assms(1,2), of root pos count "[]" r s']
  by (auto simp: blk_read_def blk_inv_def split: if_splits)

theorem blk_read_coherent_witness:
  "fst (blk_read g_ram_ops 0 3 2 demo_disk) = Inr (concat (map (blk_view ram_medium demo_disk 0) [3..<5]))"
proof -
  have "concat (map (blk_view ram_medium demo_disk 0) [3..<3 + 2]) = replicate (2 * BLK_SECTOR_SIZE) 0"
    using blk_read_coherent [OF ram.disk_driver_axioms demo_disk_inv demo_disk_read demo_disk_root] by simp
  then show ?thesis by (simp add: demo_disk_read)
qed

text \<open>
  (C17) A cached write changes exactly the sectors it is given: on success all of them, on an
  error some prefix of them, and every other sector of every device keeps its contents.
  A read-only device or a range outside the device fails without effect.
\<close>

theorem blk_write_coherent:
  assumes "disk_driver drv medium" and "blk_inv medium s" and "blk_write drv d lba secs s = (r, s')"
    and "root_of s d lba = (root, pos)" and "\<forall>sec \<in> set secs. length sec = BLK_SECTOR_SIZE"
  shows "blk_inv medium s' \<and>
    (\<exists>k \<le> length secs. (r = Inr () \<longrightarrow> k = length secs) \<and>
      (\<forall>d' a. blk_view medium s' d' a =
        (if d' = root \<and> pos \<le> a \<and> a < pos + k then secs ! (a - pos) else blk_view medium s d' a))) \<and>
    (\<not> range_ok (g_devinfo s d) lba (length secs) \<longrightarrow> r = Inl EINVAL \<and> s' = s) \<and>
    (range_ok (g_devinfo s d) lba (length secs) \<and> bd_readonly (g_devinfo s d) \<longrightarrow> r = Inl EROFS \<and> s' = s)"
proof (cases "range_ok (g_devinfo s d) lba (length secs) \<and> \<not> bd_readonly (g_devinfo s d) \<and> \<not> bd_readonly (g_devinfo s root)")
  case True
  then have "blk_write_loop drv root pos secs s = (r, s')"
    using assms(2-4) by (simp add: blk_write_def blk_inv_def)
  from disk_driver.blk_write_loop_ok [OF assms(1,2) this assms(5)] True show ?thesis by auto
next
  case False
  then have "s' = s" "(\<not> range_ok (g_devinfo s d) lba (length secs) \<longrightarrow> r = Inl EINVAL) \<and>
      (range_ok (g_devinfo s d) lba (length secs) \<longrightarrow> r = Inl EROFS)"
    using assms(3,4) by (auto simp: blk_write_def split: if_splits)
  with assms(2) show ?thesis by (auto intro!: exI [of _ 0])
qed

theorem blk_write_coherent_witness:
  "fst (blk_write g_ram_ops 0 3 [replicate BLK_SECTOR_SIZE 7] demo_disk) = Inr () \<and>
   blk_view ram_medium (snd (blk_write g_ram_ops 0 3 [replicate BLK_SECTOR_SIZE 7] demo_disk)) 0 3 =
     replicate BLK_SECTOR_SIZE 7"
proof -
  from blk_write_coherent [OF ram.disk_driver_axioms demo_disk_inv prod.collapse [symmetric] demo_disk_root,
      of "[replicate BLK_SECTOR_SIZE 7]" 3] demo_disk_write
  show ?thesis by auto
qed

text \<open>
  (C19) A successful flush is durable: the medium then holds every sector of the root device as
  clients saw it before, and no client sees a difference, whether the flush succeeds or not.
\<close>

theorem blk_flush_durable:
  assumes "disk_driver drv medium" and "blk_inv medium s" and "blk_flush drv d s = (r, s')"
  shows "blk_inv medium s' \<and> blk_view medium s' = blk_view medium s \<and>
    (r = Inr () \<longrightarrow> medium (g_world s') (fst (root_of s d 0)) = blk_view medium s (fst (root_of s d 0)))"
  using disk_driver.flush_root_locked_ok [OF assms(1,2), of "fst (root_of s d 0)" r s'] assms(3)
  by (simp add: blk_flush_def)

theorem blk_flush_durable_witness:
  "ram_medium (g_world (snd (blk_flush g_ram_ops 0 demo_disk))) 0 = blk_view ram_medium demo_disk 0"
proof -
  have "blk_flush g_ram_ops 0 demo_disk = (Inr (), demo_disk)" by (simp add: blk_flush_def demo_disk_flush)
  from blk_flush_durable [OF ram.disk_driver_axioms demo_disk_inv this] this show ?thesis by simp
qed

text \<open>
  (C20) Byte I/O is a memory: what \<open>blk_write_bytes\<close> stored at an offset is what
  \<open>blk_read_bytes\<close> finds there, for any alignment and length, and all other bytes are kept.
\<close>

theorem blk_bytes_roundtrip:
  assumes "disk_driver drv medium" and "blk_inv medium s" and "dev_flat s d root base"
    and "blk_write_bytes drv d off bs s = (Inr (), s1)" and "blk_read_bytes drv d off' n s1 = (Inr cs, s2)"
  shows "cs = map (\<lambda>i. if off \<le> i \<and> i < off + length bs then bs ! (i - off) else dev_byte medium root base s i)
    [off'..<off' + n]"
proof -
  have inv: "store_inv medium d root base s" using assms(2,3) by (simp add: store_inv_def)
  have "write_bytes_loop drv d off bs s = (Inr (), s1)"
    using assms(4) by (simp add: blk_write_bytes_def split: if_splits)
  note w = disk_driver.write_bytes_loop_ok [OF assms(1) inv this]
  then have inv1: "store_inv medium d root base s1" by simp
  have "read_bytes_loop drv d off' n [] s1 = (Inr cs, s2)"
    using assms(5) by (simp add: blk_read_bytes_def split: if_splits)
  from disk_driver.read_bytes_loop_ok [OF assms(1) inv1 this]
  have "cs = map (dev_byte medium root base s1) [off'..<off' + n]" by simp
  with w show ?thesis by auto
qed

theorem blk_bytes_roundtrip_witness:
  "fst (blk_read_bytes g_ram_ops 0 9 4 (snd (blk_write_bytes g_ram_ops 0 10 [1, 2] demo_disk))) =
   Inr [dev_byte ram_medium 0 0 demo_disk 9, 1, 2, dev_byte ram_medium 0 0 demo_disk 12]"
proof -
  obtain s1 s2 cs where 1: "blk_write_bytes g_ram_ops 0 10 [1, 2] demo_disk = (Inr (), s1)"
    and 2: "blk_read_bytes g_ram_ops 0 9 4 s1 = (Inr cs, s2)" by (rule demo_disk_bytes)
  from blk_bytes_roundtrip [OF ram.disk_driver_axioms demo_disk_inv demo_disk_flat 1 2] 1 2
  show ?thesis by (simp add: upt_rec)
qed



end
