(* ===== verification/FatField.thy ===== *)
theory FatField
  imports Store
begin

text \<open>
  Little-endian fields of \<^verbatim>\<open>src/fs/fat32.c\<close>: reading and writing them in a list of bytes.
  Unsigned fields are naturals, a store into a byte is \<open>of_nat\<close>.
\<close>

section \<open>Fields\<close>

definition le16 :: "u8 list \<Rightarrow> nat \<Rightarrow> nat" where
  "le16 p i = unat (p ! i) + unat (p ! (i + 1)) * 2 ^ 8"

definition le32 :: "u8 list \<Rightarrow> nat \<Rightarrow> nat" where
  "le32 p i = unat (p ! i) + unat (p ! (i + 1)) * 2 ^ 8 + unat (p ! (i + 2)) * 2 ^ 16 + unat (p ! (i + 3)) * 2 ^ 24"

definition put16 :: "nat \<Rightarrow> nat \<Rightarrow> u8 list \<Rightarrow> u8 list" where
  "put16 i v p = p[i := of_nat v, i + 1 := of_nat (v div 2 ^ 8)]"

definition put32 :: "nat \<Rightarrow> nat \<Rightarrow> u8 list \<Rightarrow> u8 list" where
  "put32 i v p = put16 (i + 2) (v div 2 ^ 16) (put16 i v p)"

lemma length_put16 [simp]: "length (put16 i v p) = length p"
  by (simp add: put16_def)

lemma length_put32 [simp]: "length (put32 i v p) = length p"
  by (simp add: put32_def)

lemma le16_put16 [simp]: "i + 1 < length p \<Longrightarrow> le16 (put16 i v p) i = v mod 2 ^ 16"
proof -
  have "v mod 256 + (v div 256 mod 256) * 256 = v mod 65536"
    using mod_mult2_eq [of v 256 256] by simp
  then show "i + 1 < length p \<Longrightarrow> le16 (put16 i v p) i = v mod 2 ^ 16"
    by (simp add: le16_def put16_def unat_of_nat nth_list_update)
qed

lemma le16_put16_other [simp]: "i + 1 < j \<or> j + 1 < i \<Longrightarrow> le16 (put16 i v p) j = le16 p j"
  by (auto simp: le16_def put16_def nth_list_update_neq)

lemma nth_put16 [simp]: "k \<noteq> i \<Longrightarrow> k \<noteq> i + 1 \<Longrightarrow> put16 i v p ! k = p ! k"
  by (simp add: put16_def)

lemma le32_le16: "le32 p i = le16 p i + le16 p (i + 2) * 2 ^ 16"
  by (simp add: le32_def le16_def algebra_simps numeral_3_eq_3)

lemma le32_put32 [simp]: "i + 3 < length p \<Longrightarrow> v < 2 ^ 32 \<Longrightarrow> le32 (put32 i v p) i = v"
proof -
  assume "i + 3 < length p" "v < 2 ^ 32"
  moreover from \<open>v < 2 ^ 32\<close> have "v div 65536 mod 65536 = v div 65536" by (simp add: div_less_iff_less_mult)
  ultimately show ?thesis
    by (simp add: le32_le16 put32_def)
qed

lemma le32_put32_other [simp]: "i + 3 < j \<or> j + 3 < i \<Longrightarrow> le32 (put32 i v p) j = le32 p j"
  by (auto simp: le32_le16 put32_def)

lemma nth_put32 [simp]: "k < i \<or> i + 3 < k \<Longrightarrow> put32 i v p ! k = p ! k"
  by (auto simp: put32_def)

text \<open>Several 16-bit fields stored one after the other.\<close>

lemma length_fold_put16 [simp]: "length (fold (\<lambda>j. put16 (off j) (val j)) js p) = length p"
  by (induction js arbitrary: p) auto

lemma nth_fold_put16:
  "\<forall>j \<in> set js. k \<noteq> off j \<and> k \<noteq> off j + 1 \<Longrightarrow> fold (\<lambda>j. put16 (off j) (val j)) js p ! k = p ! k"
  by (induction js arbitrary: p) auto

lemma le16_fold_put16_other:
  "\<forall>j \<in> set js. off j + 1 < k \<or> k + 1 < off j \<Longrightarrow> le16 (fold (\<lambda>j. put16 (off j) (val j)) js p) k = le16 p k"
  by (induction js arbitrary: p) auto

lemma le16_fold_put16:
  assumes "distinct js" and "i \<in> set js" and "off i + 1 < length p"
    and "\<forall>j \<in> set js. j \<noteq> i \<longrightarrow> off j + 1 < off i \<or> off i + 1 < off j"
  shows "le16 (fold (\<lambda>j. put16 (off j) (val j)) js p) (off i) = val i mod 2 ^ 16"
  using assms
proof (induction js arbitrary: p)
  case (Cons j js)
  show ?case
  proof (cases "j = i")
    case True
    with Cons.prems have "\<forall>j \<in> set js. off j + 1 < off i \<or> off i + 1 < off j" by auto
    with True Cons.prems(3) show ?thesis by (simp add: le16_fold_put16_other)
  next
    case False
    with Cons show ?thesis by auto
  qed
qed simp

lemma le16_put32_other [simp]: "i + 3 < j \<or> j + 1 < i \<Longrightarrow> le16 (put32 i v p) j = le16 p j"
  by (auto simp: le16_def)

end
