(* ===== verification/FatName.thy ===== *)
theory FatName
  imports FatField
begin

text \<open>
  Names of \<^verbatim>\<open>src/fs/fat32.c\<close>: case-insensitive comparison, the two
  conversions between UTF-8 and UTF-16, 8.3 names and their checksum, and the directory
  entries a name is stored in.  Names and paths are lists of bytes without the final NUL.
  Unsigned fields are naturals: shifts, masks and disjoint ors are written as \<open>div\<close>, \<open>mod\<close>
  and \<open>+\<close>, a store into a byte is \<open>of_nat\<close>.
\<close>

section \<open>Constants\<close>

definition FAT32_NAME_MAX :: nat where
  "FAT32_NAME_MAX = 255"

definition FAT32_LFN_SLOTS :: nat where
  "FAT32_LFN_SLOTS = 20"

definition FAT32_ATTR_RO :: u8 where "FAT32_ATTR_RO = 0x01"
definition FAT32_ATTR_DIR :: u8 where "FAT32_ATTR_DIR = 0x10"
definition FAT32_ATTR_ARCH :: u8 where "FAT32_ATTR_ARCH = 0x20"

text \<open>The characters \<open>.\<close>, space and \<open>/\<close>.\<close>

definition DOT :: u8 where "DOT = 0x2E"
definition SPACE :: u8 where "SPACE = 0x20"
definition SLASH :: u8 where "SLASH = 0x2F"

section \<open>Comparing names\<close>

definition fold_case :: "u8 \<Rightarrow> u8" where
  "fold_case c = (if 0x41 \<le> c \<and> c \<le> 0x5A then c + 0x20 else c)"

fun name_eq :: "u8 list \<Rightarrow> u8 list \<Rightarrow> bool" where
  "name_eq (a # as) (b # bs) = (fold_case a = fold_case b \<and> name_eq as bs)"
| "name_eq as bs = (as = [] \<and> bs = [])"

section \<open>UTF-16 to UTF-8\<close>

text \<open>The code point at the front of a sequence of units, and the units after it.\<close>

fun utf16_next :: "nat \<Rightarrow> nat list \<Rightarrow> nat \<times> nat list" where
  "utf16_next u us =
    (if 0xD800 \<le> u \<and> u < 0xDC00
     then (case us of
             v # vs \<Rightarrow> if 0xDC00 \<le> v \<and> v < 0xE000
                       then (0x10000 + (u - 0xD800) * 2 ^ 10 + (v - 0xDC00), vs) else (0x3F, us)
           | [] \<Rightarrow> (0x3F, us))
     else if 0xDC00 \<le> u \<and> u < 0xE000 then (0x3F, us)
     else (u, us))"

lemma utf16_next_length: "(cp, rest) = utf16_next u us \<Longrightarrow> length rest \<le> length us"
  by (auto split: list.splits if_splits)

definition utf8_bytes :: "nat \<Rightarrow> u8 list" where
  "utf8_bytes cp =
    (if cp < 0x80 then [of_nat cp]
     else if cp < 0x800 then [of_nat (0xC0 + cp div 2 ^ 6), of_nat (0x80 + cp mod 2 ^ 6)]
     else if cp < 0x10000
     then [of_nat (0xE0 + cp div 2 ^ 12), of_nat (0x80 + cp div 2 ^ 6 mod 2 ^ 6), of_nat (0x80 + cp mod 2 ^ 6)]
     else [of_nat (0xF0 + cp div 2 ^ 18), of_nat (0x80 + cp div 2 ^ 12 mod 2 ^ 6),
           of_nat (0x80 + cp div 2 ^ 6 mod 2 ^ 6), of_nat (0x80 + cp mod 2 ^ 6)])"

text \<open>The loop over the units; None when the text does not fit into \<open>cap\<close> bytes.\<close>

function utf16_loop :: "nat \<Rightarrow> nat list \<Rightarrow> u8 list \<Rightarrow> u8 list option" where
  "utf16_loop cap [] out = Some out"
| "utf16_loop cap (u # us) out =
    (if u = 0 then Some out
     else let (cp, rest) = utf16_next u us;
              bs = utf8_bytes cp
          in if length out + length bs \<ge> cap then None else utf16_loop cap rest (out @ bs))"
  by pat_completeness auto
termination
  by (relation "measure (\<lambda>(cap, us, out). length us)")
    (auto simp del: utf16_next.simps simp: less_Suc_eq_le dest: utf16_next_length)

definition utf16_to_utf8 :: "nat list \<Rightarrow> nat \<Rightarrow> nat \<Rightarrow> u8 list option" where
  "utf16_to_utf8 units max_units cap =
    (case utf16_loop cap (take max_units units) [] of
       None \<Rightarrow> None
     | Some out \<Rightarrow> if out = [] then None else Some out)"

section \<open>UTF-8 to UTF-16\<close>

definition utf8_lead :: "u8 \<Rightarrow> (nat \<times> nat) option" where
  "utf8_lead c =
    (let n = unat c
     in if n < 0x80 then Some (n, 0)
        else if n div 2 ^ 5 = 6 then Some (n mod 2 ^ 5, 1)
        else if n div 2 ^ 4 = 14 then Some (n mod 2 ^ 4, 2)
        else if n div 2 ^ 3 = 30 then Some (n mod 2 ^ 3, 3)
        else None)"

fun utf8_cont :: "nat \<Rightarrow> nat \<Rightarrow> u8 list \<Rightarrow> (nat \<times> u8 list) option" where
  "utf8_cont 0 cp p = Some (cp, p)"
| "utf8_cont (Suc k) cp [] = None"
| "utf8_cont (Suc k) cp (c # p) =
    (if unat c div 2 ^ 6 \<noteq> 2 then None else utf8_cont k (cp * 2 ^ 6 + unat c mod 2 ^ 6) p)"

lemma utf8_cont_code [code]:
  "utf8_cont k cp p =
    (if k = 0 then Some (cp, p)
     else case p of [] \<Rightarrow> None
          | c # q \<Rightarrow> if unat c div 2 ^ 6 \<noteq> 2 then None else utf8_cont (k - 1) (cp * 2 ^ 6 + unat c mod 2 ^ 6) q)"
  by (cases k; cases p) simp_all

lemma utf8_cont_length: "utf8_cont k cp p = Some (cp', q) \<Longrightarrow> length q \<le> length p"
  by (induction k cp p rule: utf8_cont.induct) (auto split: if_splits)

definition cp_bad :: "nat \<Rightarrow> nat \<Rightarrow> bool" where
  "cp_bad extra cp \<longleftrightarrow>
     extra = 1 \<and> cp < 0x80 \<or> extra = 2 \<and> cp < 0x800 \<or> extra = 3 \<and> cp < 0x10000 \<or>
     cp > 0x10FFFF \<or> 0xD800 \<le> cp \<and> cp \<le> 0xDFFF"

text \<open>Controls and the characters \<open>\ / : * ? " < > |\<close>.\<close>

definition cp_forbidden :: "nat \<Rightarrow> bool" where
  "cp_forbidden cp \<longleftrightarrow>
     cp < 0x20 \<or> cp = 0x5C \<or> cp = 0x2F \<or> cp = 0x3A \<or> cp = 0x2A \<or> cp = 0x3F \<or> cp = 0x22 \<or>
     cp = 0x3C \<or> cp = 0x3E \<or> cp = 0x7C"

definition utf16_units :: "nat \<Rightarrow> nat list" where
  "utf16_units cp =
    (if cp \<ge> 0x10000
     then [0xD800 + (cp - 0x10000) div 2 ^ 10, 0xDC00 + (cp - 0x10000) mod 2 ^ 10]
     else [cp])"

function utf8_loop :: "nat \<Rightarrow> u8 list \<Rightarrow> nat list \<Rightarrow> nat list res" where
  "utf8_loop cap [] out = Inr out"
| "utf8_loop cap (c # p) out =
    (case utf8_lead c of
       None \<Rightarrow> Inl EINVAL
     | Some (cp0, extra) \<Rightarrow>
         (case utf8_cont extra cp0 p of
            None \<Rightarrow> Inl EINVAL
          | Some (cp, q) \<Rightarrow>
              if cp_bad extra cp then Inl EINVAL
              else if cp_forbidden cp then Inl EINVAL
              else if length out + length (utf16_units cp) > cap then Inl ENAMETOOLONG
              else utf8_loop cap q (out @ utf16_units cp)))"
  by pat_completeness auto
termination
  by (relation "measure (\<lambda>(cap, p, out). length p)") (auto dest: utf8_cont_length)

definition utf8_to_utf16 :: "u8 list \<Rightarrow> nat \<Rightarrow> nat list res" where
  "utf8_to_utf16 s cap = utf8_loop cap s []"

definition name_units :: "u8 list \<Rightarrow> nat list res" where
  "name_units name =
    (if name = [] then Inl EINVAL
     else if length name > FAT32_NAME_MAX then Inl ENAMETOOLONG
     else if name = [DOT] \<or> name = [DOT, DOT] then Inl EINVAL
     else if last name = DOT \<or> last name = SPACE then Inl EINVAL
     else utf8_to_utf16 name 255)"

section \<open>8.3 names\<close>

definition short_checksum :: "u8 list \<Rightarrow> u8" where
  "short_checksum name11 = fold (\<lambda>c sum. push_bit 7 (sum AND 1) + drop_bit 1 sum + c) (take 11 name11) 0"

text \<open>Metadata of a directory entry.\<close>

record fat32_info =
  fi_name :: "u8 list"
  fi_short_name :: "u8 list"
  fi_attr :: u8
  fi_first_cluster :: nat
  fi_size :: nat
  fi_wdate :: nat
  fi_wtime :: nat
  fi_dir_cluster :: nat
  fi_dir_pos :: nat

text \<open>A field padded with spaces, without the padding.\<close>

definition strip_spaces :: "u8 list \<Rightarrow> u8 list" where
  "strip_spaces bs = rev (dropWhile (\<lambda>c. c = SPACE) (rev bs))"

definition shown_char :: "bool \<Rightarrow> u8 \<Rightarrow> u8" where
  "shown_char lower c = (if 0x41 \<le> c \<and> c \<le> 0x5A \<and> lower then c + 0x20 else c)"

definition name_char :: "bool \<Rightarrow> u8 \<Rightarrow> u8 list" where
  "name_char lower c =
    (if c \<ge> 0x80 then [0xC0 OR drop_bit 6 c, 0x80 OR (c AND 0x3F)] else [shown_char lower c])"

definition short_char :: "u8 \<Rightarrow> u8" where
  "short_char c = (if c \<ge> 0x80 then 0x5F else c)"

text \<open>\<open>build_short_name\<close>: the name and the short name of an 8.3 entry.\<close>

definition build_short_name :: "u8 list \<Rightarrow> u8 list \<times> u8 list" where
  "build_short_name e =
    (let raw = (if e ! 0 = 0x05 then (take 11 e)[0 := 0xE5] else take 11 e);
         base = strip_spaces (take 8 raw);
         ext = strip_spaces (drop 8 raw);
         lower_base = (e ! 12 AND 0x08 \<noteq> 0);
         lower_ext = (e ! 12 AND 0x10 \<noteq> 0);
         dot = (if ext = [] then [] else [DOT])
     in (concat (map (name_char lower_base) base) @ dot @ concat (map (name_char lower_ext) ext),
         map short_char base @ dot @ map short_char ext))"

record short_gen =
  sg_raw :: "u8 list"
  sg_nt :: u8
  sg_lossy :: bool
  sg_lfn :: bool
  sg_base_len :: nat

definition short_char_ok :: "u8 \<Rightarrow> bool" where
  "short_char_ok c \<longleftrightarrow>
     0x41 \<le> c \<and> c \<le> 0x5A \<or> 0x30 \<le> c \<and> c \<le> 0x39 \<or>
     c \<in> set [0x21, 0x23, 0x24, 0x25, 0x26, 0x27, 0x28, 0x29, 0x2D, 0x40, 0x5E, 0x5F, 0x60, 0x7B, 0x7D, 0x7E]"

text \<open>
  One part of the name (base or extension): the characters kept, whether something was
  lost, and whether lower and upper case letters occurred.
\<close>

record short_part =
  sp_out :: "u8 list"
  sp_lossy :: bool
  sp_lower :: bool
  sp_upper :: bool

definition short_step :: "(u8 \<Rightarrow> bool) \<Rightarrow> nat \<Rightarrow> u8 \<Rightarrow> short_part \<Rightarrow> short_part" where
  "short_step skip cap c p =
    (if skip c then p\<lparr>sp_lossy := True\<rparr>
     else let lower = (0x61 \<le> c \<and> c \<le> 0x7A);
              upper = (0x41 \<le> c \<and> c \<le> 0x5A);
              c1 = (if lower then c - 32 else c);
              bad = (\<not> short_char_ok c1);
              c2 = (if bad then 0x5F else c1);
              full = (\<not> length (sp_out p) < cap)
          in p\<lparr>sp_out := (if full then sp_out p else sp_out p @ [c2]),
               sp_lossy := (sp_lossy p \<or> bad \<or> full),
               sp_lower := (sp_lower p \<or> lower), sp_upper := (sp_upper p \<or> upper)\<rparr>)"

text \<open>The index of the last dot of the name, or its length when there is none from \<open>start\<close> on.\<close>

definition last_dot :: "u8 list \<Rightarrow> nat \<Rightarrow> nat" where
  "last_dot name start =
    (case filter (\<lambda>i. name ! i = DOT) [start..<length name] of [] \<Rightarrow> length name | is \<Rightarrow> last is)"

definition pad_spaces :: "nat \<Rightarrow> u8 list \<Rightarrow> u8 list" where
  "pad_spaces n bs = bs @ replicate (n - length bs) SPACE"

definition name_start :: "u8 list \<Rightarrow> nat" where
  "name_start name = length (takeWhile (\<lambda>c. c = DOT \<or> c = SPACE) name)"

definition name_dot :: "u8 list \<Rightarrow> nat" where
  "name_dot name = last_dot name (name_start name)"

definition base_part :: "u8 list \<Rightarrow> short_part" where
  "base_part name =
    fold (short_step (\<lambda>c. c = SPACE \<or> c = DOT) 8) (drop (name_start name) (take (name_dot name) name))
      \<lparr>sp_out = [], sp_lossy = name_start name > 0, sp_lower = False, sp_upper = False\<rparr>"

definition ext_part :: "u8 list \<Rightarrow> short_part" where
  "ext_part name =
    fold (short_step (\<lambda>c. c = SPACE) 3) (drop (name_dot name + 1) name)
      \<lparr>sp_out = [], sp_lossy = sp_lossy (base_part name), sp_lower = False, sp_upper = False\<rparr>"

definition short_gen_base :: "u8 list \<Rightarrow> short_gen" where
  "short_gen_base name =
    (let b = base_part name;
         x = ext_part name;
         base = (if sp_out b = [] then [0x5F] else sp_out b);
         lossy = (sp_lossy x \<or> sp_out b = []);
         mixed = (sp_lower b \<and> sp_upper b \<or> sp_lower x \<and> sp_upper x)
     in \<lparr>sg_raw = pad_spaces 8 base @ pad_spaces 3 (sp_out x),
         sg_nt = (if mixed then 0 else (if sp_lower b then 0x08 else 0) OR (if sp_lower x then 0x10 else 0)),
         sg_lossy = lossy, sg_lfn = (mixed \<or> lossy), sg_base_len = length base\<rparr>)"

text \<open>The name with the tail \<open>~n\<close>, the candidates of \<open>short_pick_tail\<close>.\<close>

fun decimal_digits :: "nat \<Rightarrow> u8 list" where
  "decimal_digits v = (if v = 0 then [] else decimal_digits (v div 10) @ [of_nat (0x30 + v mod 10)])"

declare decimal_digits.simps [simp del]

definition short_tail :: "short_gen \<Rightarrow> nat \<Rightarrow> u8 list" where
  "short_tail g n =
    (let digits = decimal_digits n;
         keep = min (sg_base_len g) (8 - 1 - length digits)
     in pad_spaces 8 (take keep (sg_raw g) @ [0x7E] @ digits) @ drop 8 (sg_raw g))"

text \<open>The 8.3 name an entry gets: the generated one, or with the tail chosen when it lost something.\<close>

definition short_name_for :: "u8 list \<Rightarrow> nat \<Rightarrow> short_gen" where
  "short_name_for name n =
    (let g = short_gen_base name in if sg_lossy g then g\<lparr>sg_raw := short_tail g n\<rparr> else g)"

section \<open>Directory entries\<close>

definition lfn_offsets :: "nat list" where
  "lfn_offsets = [1, 3, 5, 7, 9, 14, 16, 18, 20, 22, 24, 28, 30]"

text \<open>The long-name entry with ordinal \<open>seq\<close> (the one that comes first on disk has the bit 0x40).\<close>

definition lfn_unit :: "nat list \<Rightarrow> nat \<Rightarrow> nat" where
  "lfn_unit units idx =
    (if idx < length units then units ! idx else if idx = length units then 0 else 0xFFFF)"

definition lfn_entry :: "nat list \<Rightarrow> u8 \<Rightarrow> nat \<Rightarrow> nat \<Rightarrow> u8 list" where
  "lfn_entry units checksum count seq =
    fold (\<lambda>j e. put16 (lfn_offsets ! j) (lfn_unit units ((seq - 1) * 13 + j)) e) [0..<13]
      ((replicate 32 0)[0 := of_nat (seq + (if seq = count then 0x40 else 0)), 11 := 0x0F, 13 := checksum])"

definition short_entry :: "u8 list \<Rightarrow> u8 \<Rightarrow> u8 \<Rightarrow> nat \<Rightarrow> nat \<Rightarrow> nat \<Rightarrow> nat \<Rightarrow> nat \<Rightarrow> nat \<Rightarrow> u8 list" where
  "short_entry raw attr nt first_cluster sz wdate wtime now_date now_time =
    (put32 28 sz \<circ> put16 26 first_cluster \<circ> put16 24 wdate \<circ> put16 22 wtime \<circ>
     put16 20 (first_cluster div 2 ^ 16) \<circ> put16 18 now_date \<circ> put16 16 now_date \<circ> put16 14 now_time)
      ((raw @ replicate 21 0)[11 := attr, 12 := nt])"

text \<open>The entries of a name in the order they have on disk, the 8.3 entry last.\<close>

definition lfn_count :: "short_gen \<Rightarrow> nat list \<Rightarrow> nat" where
  "lfn_count g units = (if sg_lfn g then (length units + 12) div 13 else 0)"

definition new_entries ::
    "short_gen \<Rightarrow> nat list \<Rightarrow> u8 \<Rightarrow> nat \<Rightarrow> nat \<Rightarrow> nat \<Rightarrow> nat \<Rightarrow> nat \<Rightarrow> nat \<Rightarrow> u8 list list" where
  "new_entries g units attr first_cluster sz wdate wtime now_date now_time =
    map (lfn_entry units (short_checksum (sg_raw g)) (lfn_count g units)) (rev [1..<lfn_count g units + 1]) @
    [short_entry (sg_raw g) attr (sg_nt g) first_cluster sz wdate wtime now_date now_time]"

text \<open>
  The state \<open>dir_next\<close> carries from entry to entry: the units of the long name read so far,
  the ordinal of the last one accepted (0 for none), the number of slots and the checksum.
\<close>

record lfn_state =
  ls_units :: "nat list"
  ls_pending :: nat
  ls_total :: nat
  ls_checksum :: u8

definition lfn_start :: lfn_state where
  "lfn_start = \<lparr>ls_units = replicate (FAT32_LFN_SLOTS * 13) 0, ls_pending = 0, ls_total = 0, ls_checksum = 0\<rparr>"

definition lfn_store :: "nat \<Rightarrow> u8 list \<Rightarrow> nat list \<Rightarrow> nat list" where
  "lfn_store slot e units =
    fold (\<lambda>i us. us[(slot - 1) * 13 + i := le16 e (lfn_offsets ! i)]) [0..<13] units"

text \<open>What one entry that is neither the end mark nor deleted does: skip it, or report it.\<close>

definition entry_info :: "lfn_state \<Rightarrow> u8 list \<Rightarrow> nat \<Rightarrow> nat \<Rightarrow> fat32_info" where
  "entry_info ls e cluster pos =
    (let (name, short) = build_short_name e;
         long = (if ls_pending ls = 1 \<and> short_checksum e = ls_checksum ls
                 then utf16_to_utf8 (ls_units ls) (ls_total ls * 13) (FAT32_NAME_MAX + 1) else None)
     in \<lparr>fi_name = (case long of None \<Rightarrow> name | Some l \<Rightarrow> l), fi_short_name = short, fi_attr = e ! 11,
         fi_first_cluster = le16 e 20 * 2 ^ 16 + le16 e 26,
         fi_size = (if e ! 11 AND FAT32_ATTR_DIR \<noteq> 0 then 0 else le32 e 28),
         fi_wdate = le16 e 24, fi_wtime = le16 e 22, fi_dir_cluster = cluster, fi_dir_pos = pos\<rparr>)"

definition lfn_accept :: "lfn_state \<Rightarrow> u8 list \<Rightarrow> lfn_state" where
  "lfn_accept ls e =
    (let seq = unat (e ! 0)
     in if e ! 12 \<noteq> 0 \<or> e ! 26 \<noteq> 0 \<or> e ! 27 \<noteq> 0 then ls\<lparr>ls_pending := 0\<rparr>
        else if e ! 0 AND 0x40 \<noteq> 0
        then let slot = seq mod 2 ^ 6
             in if slot = 0 \<or> slot > FAT32_LFN_SLOTS then ls\<lparr>ls_pending := 0\<rparr>
                else ls\<lparr>ls_total := slot, ls_checksum := e ! 13, ls_pending := slot,
                        ls_units := lfn_store slot e (ls_units ls)\<rparr>
        else if ls_pending ls < 2 \<or> seq \<noteq> ls_pending ls - 1 \<or> e ! 13 \<noteq> ls_checksum ls then ls\<lparr>ls_pending := 0\<rparr>
        else ls\<lparr>ls_pending := seq, ls_units := lfn_store seq e (ls_units ls)\<rparr>)"

definition entry_step :: "lfn_state \<Rightarrow> u8 list \<Rightarrow> nat \<Rightarrow> nat \<Rightarrow> lfn_state + fat32_info" where
  "entry_step ls e cluster pos =
    (if e ! 0 = 0xE5 then Inl (ls\<lparr>ls_pending := 0\<rparr>)
     else if e ! 11 AND 0x3F = 0x0F then Inl (lfn_accept ls e)
     else if e ! 11 AND 0x08 \<noteq> 0 then Inl (ls\<lparr>ls_pending := 0\<rparr>)
     else if e ! 0 = DOT \<and> (e ! 1 = SPACE \<or> e ! 1 = DOT \<and> e ! 2 = SPACE) then Inl (ls\<lparr>ls_pending := 0\<rparr>)
     else Inr (entry_info ls e cluster pos))"

text \<open>
  The visible entries of a directory, from the raw entries in disk order with the cluster and
  the index each is stored at: what repeated calls of \<open>dir_next\<close> report.
\<close>

fun scan_dir :: "lfn_state \<Rightarrow> (u8 list \<times> nat \<times> nat) list \<Rightarrow> fat32_info list" where
  "scan_dir ls [] = []"
| "scan_dir ls ((e, cluster, pos) # es) =
    (if e ! 0 = 0 then []
     else case entry_step ls e cluster pos of
            Inl ls' \<Rightarrow> scan_dir ls' es
          | Inr info \<Rightarrow> info # scan_dir lfn_start es)"

end
