(* ===== verification/FatEntry.thy ===== *)
theory FatEntry
  imports FatName
begin

text \<open>
  Names round-trip through their representations: bytes through little-endian fields, UTF-8
  through UTF-16, and a name through the directory entries that store it.
\<close>

section \<open>UTF-8 and UTF-16\<close>

lemma byte_split:
  "n div 32 = 6 \<Longrightarrow> n = 0xC0 + n mod 32" "n div 16 = 14 \<Longrightarrow> n = 0xE0 + n mod 16"
  "n div 8 = 30 \<Longrightarrow> n = 0xF0 + n mod 8" "n div 64 = 2 \<Longrightarrow> n = 0x80 + n mod 64" for n :: nat
  using div_mult_mod_eq [of n 32] div_mult_mod_eq [of n 16] div_mult_mod_eq [of n 8] div_mult_mod_eq [of n 64]
  by simp_all

lemma u8_eqI: "unat (c :: u8) = n \<Longrightarrow> c = of_nat n"
  by auto

lemma utf8_lead_cases:
  assumes "utf8_lead c = Some (cp0, extra)"
  obtains "extra = 0" "c = of_nat cp0" "cp0 < 0x80"
  | "extra = 1" "c = of_nat (0xC0 + cp0)" "cp0 < 2 ^ 5"
  | "extra = 2" "c = of_nat (0xE0 + cp0)" "cp0 < 2 ^ 4"
  | "extra = 3" "c = of_nat (0xF0 + cp0)" "cp0 < 2 ^ 3"
proof -
  consider "unat c < 0x80" "cp0 = unat c" "extra = 0" | "unat c div 32 = 6" "cp0 = unat c mod 32" "extra = 1"
    | "unat c div 16 = 14" "cp0 = unat c mod 16" "extra = 2" | "unat c div 8 = 30" "cp0 = unat c mod 8" "extra = 3"
    using assms by (auto simp: utf8_lead_def Let_def split: if_splits)
  then show thesis
  proof cases
    case 1 with that(1) u8_eqI [of c] show ?thesis by simp
  next
    case 2 with that(2) u8_eqI [OF byte_split(1) [OF 2(1)]] show ?thesis by simp
  next
    case 3 with that(3) u8_eqI [OF byte_split(2) [OF 3(1)]] show ?thesis by simp
  next
    case 4 with that(4) u8_eqI [OF byte_split(3) [OF 4(1)]] show ?thesis by simp
  qed
qed

lemma utf8_cont_Suc:
  assumes "utf8_cont (Suc k) cp p = Some (cp', q)"
  obtains m p' where "p = of_nat (0x80 + m) # p'" "m < 64" "utf8_cont k (cp * 64 + m) p' = Some (cp', q)"
proof (cases p)
  case (Cons c p')
  with assms have c: "unat c div 64 = 2" "utf8_cont k (cp * 64 + unat c mod 64) p' = Some (cp', q)"
    by (auto split: if_splits)
  have "c = of_nat (0x80 + unat c mod 64)" by (rule u8_eqI [OF byte_split(4) [OF c(1)]])
  with Cons c(2) that [of "unat c mod 64" p'] show thesis by simp
qed (use assms in simp)

text \<open>Repeated division by 64 takes a number apart that was put together by multiplication.\<close>

lemma digits_64:
  fixes a m :: nat
  assumes "m < 64"
  shows "(a * 64 + m) div 64 = a" "(a * 64 + m) mod 64 = m"
  using assms by simp_all

lemma utf8_bytes_64:
  "utf8_bytes cp =
    (if cp < 0x80 then [of_nat cp]
     else if cp < 0x800 then [of_nat (0xC0 + cp div 64), of_nat (0x80 + cp mod 64)]
     else if cp < 0x10000
     then [of_nat (0xE0 + cp div 64 div 64), of_nat (0x80 + cp div 64 mod 64), of_nat (0x80 + cp mod 64)]
     else [of_nat (0xF0 + cp div 64 div 64 div 64), of_nat (0x80 + cp div 64 div 64 mod 64),
           of_nat (0x80 + cp div 64 mod 64), of_nat (0x80 + cp mod 64)])"
  by (simp add: utf8_bytes_def flip: div_mult2_eq)

text \<open>A sequence that decodes to a code point is the encoding of that code point.\<close>

lemma utf8_decode_encode:
  assumes lead: "utf8_lead c = Some (cp0, extra)" and cont: "utf8_cont extra cp0 p = Some (cp, q)"
    and ok: "\<not> cp_bad extra cp"
  shows "c # p = utf8_bytes cp @ q"
  using lead
proof (cases rule: utf8_lead_cases)
  case 1
  then show ?thesis using cont by (simp add: utf8_bytes_def)
next
  case 2
  obtain m p1 where p: "p = of_nat (0x80 + m) # p1" "m < 64" "cp = cp0 * 64 + m" "q = p1"
    using cont 2(1) by (auto elim: utf8_cont_Suc)
  have "cp < 0x800" "\<not> cp < 0x80" using p 2 ok by (auto simp: cp_bad_def)
  with p 2 digits_64 [OF p(2), of cp0] show ?thesis by (simp add: utf8_bytes_64)
next
  case 3
  from cont [unfolded 3(1) numeral_2_eq_2] obtain m p1 where c1: "p = of_nat (0x80 + m) # p1" "m < 64"
    "utf8_cont (Suc 0) (cp0 * 64 + m) p1 = Some (cp, q)" by (rule utf8_cont_Suc)
  from c1(3) obtain m' p2 where "p1 = of_nat (0x80 + m') # p2" "m' < 64"
    "utf8_cont 0 ((cp0 * 64 + m) * 64 + m') p2 = Some (cp, q)" by (rule utf8_cont_Suc)
  with c1 have p: "p = of_nat (0x80 + m) # p1" "m < 64" "p1 = of_nat (0x80 + m') # p2" "m' < 64"
    "cp = (cp0 * 64 + m) * 64 + m'" "q = p2" by simp_all
  define x where "x = cp0 * 64 + m"
  have x: "x div 64 = cp0" "x mod 64 = m" "cp div 64 = x" "cp mod 64 = m'"
    unfolding p(5) x_def by (rule digits_64 p(2) p(4))+
  have "cp < 0x10000" "\<not> cp < 0x800" using p 3 ok by (auto simp: cp_bad_def)
  then show ?thesis using p(1,3,6) 3 by (simp add: utf8_bytes_64 x)
next
  case 4
  from cont [unfolded 4(1) numeral_3_eq_3] obtain m p1 where c1: "p = of_nat (0x80 + m) # p1" "m < 64"
    "utf8_cont (Suc (Suc 0)) (cp0 * 64 + m) p1 = Some (cp, q)" by (rule utf8_cont_Suc)
  from c1(3) obtain m' p2 where c2: "p1 = of_nat (0x80 + m') # p2" "m' < 64"
    "utf8_cont (Suc 0) ((cp0 * 64 + m) * 64 + m') p2 = Some (cp, q)" by (rule utf8_cont_Suc)
  from c2(3) obtain m'' p3 where "p2 = of_nat (0x80 + m'') # p3" "m'' < 64"
    "utf8_cont 0 (((cp0 * 64 + m) * 64 + m') * 64 + m'') p3 = Some (cp, q)" by (rule utf8_cont_Suc)
  with c1 c2 have p: "p = of_nat (0x80 + m) # p1" "m < 64" "p1 = of_nat (0x80 + m') # p2" "m' < 64"
    "p2 = of_nat (0x80 + m'') # p3" "m'' < 64" "cp = ((cp0 * 64 + m) * 64 + m') * 64 + m''" "q = p3" by simp_all
  define x where "x = cp0 * 64 + m"
  define y where "y = x * 64 + m'"
  have x: "x div 64 = cp0" "x mod 64 = m" "y div 64 = x" "y mod 64 = m'" "cp div 64 = y" "cp mod 64 = m''"
    unfolding p(7) y_def x_def by (rule digits_64 p(2) p(4) p(6))+
  have "\<not> cp < 0x10000" using 4 ok by (auto simp: cp_bad_def)
  then show ?thesis using p(1,3,5,8) 4 by (simp add: utf8_bytes_64 x)
qed

lemma utf16_next_units:
  assumes "\<not> cp_bad extra cp"
  shows "\<exists>u us. utf16_units cp = u # us \<and> utf16_next u (us @ rest) = (cp, rest) \<and> (u = 0 \<longrightarrow> cp = 0)"
proof (cases "cp \<ge> 0x10000")
  case True
  define d where "d = cp - 0x10000"
  have d: "d < 2 ^ 20" "cp = 0x10000 + d" using assms True by (auto simp: cp_bad_def d_def)
  then have "d div 1024 < 1024" by (simp add: div_less_iff_less_mult)
  moreover have "d mod 1024 < 1024" by simp
  moreover have "d div 1024 * 1024 + d mod 1024 = d" by simp
  ultimately show ?thesis using True d(2)
    by (simp add: utf16_units_def d_def [symmetric] del: div_mult_mod_eq)
next
  case False
  with assms show ?thesis by (auto simp: utf16_units_def cp_bad_def)
qed

text \<open>The units of a valid text decode to the text, whatever follows after a terminating 0.\<close>

lemma utf8_loop_out: "utf8_loop cap s out = Inr us \<Longrightarrow> \<exists>vs. us = out @ vs"
proof (induction cap s out rule: utf8_loop.induct)
  case (2 cap c p out)
  then show ?case by (fastforce split: option.splits prod.splits if_splits)
qed simp

lemma utf16_of_utf8:
  assumes "utf8_loop cap s out = Inr (out @ us)" and "rest = [] \<or> hd rest = 0" and "length acc + length s < cap'"
  shows "utf16_loop cap' (us @ rest) acc = Some (acc @ s)"
  using assms
proof (induction cap s out arbitrary: us acc rule: utf8_loop.induct)
  case (1 cap out)
  then show ?case by (cases rest) auto
next
  case (2 cap c p out)
  obtain cp0 extra where lead: "utf8_lead c = Some (cp0, extra)"
    using "2.prems"(1) by (auto split: option.splits)
  obtain cp q where cont: "utf8_cont extra cp0 p = Some (cp, q)"
    using "2.prems"(1) lead by (auto split: option.splits)
  have ok: "\<not> cp_bad extra cp" "\<not> cp_forbidden cp" "\<not> length out + length (utf16_units cp) > cap"
    and rec: "utf8_loop cap q (out @ utf16_units cp) = Inr (out @ us)"
    using "2.prems"(1) lead cont by (auto split: if_splits)
  from utf8_loop_out [OF rec] obtain vs where vs: "us = utf16_units cp @ vs" by auto
  have s: "c # p = utf8_bytes cp @ q" by (rule utf8_decode_encode [OF lead cont ok(1)])
  then have len: "length (c # p) = length (utf8_bytes cp) + length q" by simp
  from utf16_next_units [OF ok(1), of "vs @ rest"] obtain u us' where
    u: "utf16_units cp = u # us'" "utf16_next u (us' @ vs @ rest) = (cp, vs @ rest)" "u = 0 \<longrightarrow> cp = 0" by blast
  have "u \<noteq> 0" using u(3) ok(2) by (auto simp: cp_forbidden_def)
  have "utf16_loop cap' (vs @ rest) (acc @ utf8_bytes cp) = Some ((acc @ utf8_bytes cp) @ q)"
    using "2.IH" [OF lead refl cont refl ok, of vs "acc @ utf8_bytes cp"] rec vs "2.prems"(2,3) len by simp
  moreover have "length acc + length (utf8_bytes cp) < cap'"
    using "2.prems"(3) len by (cases q) (auto simp: utf8_bytes_def split: if_splits)
  ultimately show ?case using u \<open>u \<noteq> 0\<close> vs s by (simp del: utf16_next.simps)
qed

lemma utf8_loop_units:
  assumes "utf8_loop cap s out = Inr us" and "\<forall>u \<in> set out. u < 2 ^ 16" and "length out \<le> cap"
  shows "(\<forall>u \<in> set us. u < 2 ^ 16) \<and> length us \<le> cap \<and> (s \<noteq> [] \<longrightarrow> length out < length us)"
  using assms
proof (induction cap s out rule: utf8_loop.induct)
  case (2 cap c p out)
  obtain cp0 extra cp q where lead: "utf8_lead c = Some (cp0, extra)" and cont: "utf8_cont extra cp0 p = Some (cp, q)"
    using "2.prems"(1) by (auto split: option.splits)
  have ok: "\<not> cp_bad extra cp" "\<not> cp_forbidden cp" "\<not> length out + length (utf16_units cp) > cap"
    and rec: "utf8_loop cap q (out @ utf16_units cp) = Inr us"
    using "2.prems"(1) lead cont by (auto split: if_splits)
  have "(cp - 0x10000) div 1024 < 1024" using ok(1) by (auto simp: cp_bad_def div_less_iff_less_mult)
  moreover have "(cp - 0x10000) mod 1024 < 1024" by simp
  ultimately have "\<forall>u \<in> set (utf16_units cp). u < 2 ^ 16" using ok(1) by (auto simp: utf16_units_def cp_bad_def)
  with "2.IH" [OF lead refl cont refl ok rec] "2.prems"(2) ok(3)
  have "(\<forall>u \<in> set us. u < 2 ^ 16) \<and> length us \<le> cap" by auto
  moreover from utf8_loop_out [OF rec] have "length out < length us" by (auto simp: utf16_units_def split: if_splits)
  ultimately show ?case by simp
qed simp

section \<open>Long-name entries\<close>

lemma nth_fold_update:
  assumes "b + n \<le> length us"
  shows "fold (\<lambda>i us. us[b + i := f i]) [0..<n] us ! k = (if b \<le> k \<and> k < b + n then f (k - b) else us ! k) \<and>
    length (fold (\<lambda>i us. us[b + i := f i]) [0..<n] us) = length us"
  using assms
proof (induction n)
  case (Suc n)
  then show ?case by (auto simp: nth_list_update)
qed auto

lemma lfn_field_free:
  "\<forall>j \<in> set [0..<13]. k \<noteq> lfn_offsets ! j \<and> k \<noteq> lfn_offsets ! j + 1" if "k \<in> {0, 11, 12, 13, 26, 27}"
  using that by (elim insertE) (simp_all add: lfn_offsets_def upt_rec)

lemma lfn_offsets_apart:
  assumes "i < 13"
  shows "\<forall>j \<in> set [0..<13]. j \<noteq> i \<longrightarrow> lfn_offsets ! j + 1 < lfn_offsets ! i \<or> lfn_offsets ! i + 1 < lfn_offsets ! j"
    and "lfn_offsets ! i + 1 < 32"
proof -
  have "i \<in> set [0..<13]" using assms by simp
  moreover have "\<forall>i \<in> set [0..<13]. (\<forall>j \<in> set [0..<13]. j \<noteq> i \<longrightarrow> lfn_offsets ! j + 1 < lfn_offsets ! i \<or>
      lfn_offsets ! i + 1 < lfn_offsets ! j) \<and> lfn_offsets ! i + 1 < 32"
    by code_simp
  ultimately show "\<forall>j \<in> set [0..<13]. j \<noteq> i \<longrightarrow> lfn_offsets ! j + 1 < lfn_offsets ! i \<or> lfn_offsets ! i + 1 < lfn_offsets ! j"
    "lfn_offsets ! i + 1 < 32" by blast+
qed

lemma lfn_entry_fields:
  fixes seq count :: nat and units :: "nat list" and checksum :: u8
  defines "e \<equiv> lfn_entry units checksum count seq"
  shows "e ! 0 = of_nat (seq + (if seq = count then 0x40 else 0))" "e ! 11 = 0x0F" "e ! 12 = 0" "e ! 13 = checksum"
    "e ! 26 = 0" "e ! 27 = 0" "length e = 32"
    and "j < 13 \<Longrightarrow> le16 e (lfn_offsets ! j) = lfn_unit units ((seq - 1) * 13 + j) mod 2 ^ 16"
proof -
  let ?p = "(replicate 32 0 :: u8 list)[0 := of_nat (seq + (if seq = count then 0x40 else 0)), 11 := 0x0F, 13 := checksum]"
  have e: "e = fold (\<lambda>j. put16 (lfn_offsets ! j) (lfn_unit units ((seq - 1) * 13 + j))) [0..<13] ?p"
    by (simp add: e_def lfn_entry_def)
  have nth: "e ! k = ?p ! k" if "k \<in> {0, 11, 12, 13, 26, 27}" for k
    unfolding e by (rule nth_fold_put16 [OF lfn_field_free [OF that]])
  show "e ! 0 = of_nat (seq + (if seq = count then 0x40 else 0))" "e ! 11 = 0x0F" "e ! 12 = 0" "e ! 13 = checksum"
    "e ! 26 = 0" "e ! 27 = 0" by (simp_all add: nth nth_list_update)
  show "length e = 32" by (simp add: e)
  show "le16 e (lfn_offsets ! j) = lfn_unit units ((seq - 1) * 13 + j) mod 2 ^ 16" if "j < 13"
    unfolding e using that lfn_offsets_apart [OF that]
    by (intro le16_fold_put16 [where off = "\<lambda>j. lfn_offsets ! j"]) simp_all
qed

text \<open>Where the scan stands after the entries with ordinals \<open>count\<close> down to \<open>k\<close>.\<close>

definition lfn_read :: "nat list \<Rightarrow> u8 \<Rightarrow> nat \<Rightarrow> nat \<Rightarrow> lfn_state \<Rightarrow> bool" where
  "lfn_read units checksum count k ls \<longleftrightarrow>
     ls_pending ls = k \<and> ls_total ls = count \<and> ls_checksum ls = checksum \<and>
     length (ls_units ls) = FAT32_LFN_SLOTS * 13 \<and>
     (\<forall>i. (k - 1) * 13 \<le> i \<and> i < count * 13 \<longrightarrow> ls_units ls ! i = lfn_unit units i)"

lemma lfn_unit_bound: "\<forall>u \<in> set units. u < 2 ^ 16 \<Longrightarrow> lfn_unit units i mod 2 ^ 16 = lfn_unit units i"
  by (auto simp: lfn_unit_def)

lemma lfn_store_nth:
  assumes "length us = FAT32_LFN_SLOTS * 13" and "1 \<le> slot" "slot \<le> FAT32_LFN_SLOTS"
  shows "lfn_store slot e us ! i = (if (slot - 1) * 13 \<le> i \<and> i < slot * 13
      then le16 e (lfn_offsets ! (i - (slot - 1) * 13)) else us ! i)"
    and "length (lfn_store slot e us) = FAT32_LFN_SLOTS * 13"
proof -
  have "(slot - 1) * 13 + 13 = slot * 13" using assms(2) by (cases slot) auto
  moreover have "slot * 13 \<le> FAT32_LFN_SLOTS * 13" using assms(3) by simp
  ultimately show "lfn_store slot e us ! i = (if (slot - 1) * 13 \<le> i \<and> i < slot * 13
      then le16 e (lfn_offsets ! (i - (slot - 1) * 13)) else us ! i)"
    "length (lfn_store slot e us) = FAT32_LFN_SLOTS * 13"
    using nth_fold_update [of "(slot - 1) * 13" 13 us "\<lambda>i. le16 e (lfn_offsets ! i)" i] assms(1)
    by (simp_all add: lfn_store_def)
qed

lemma seq_mark:
  assumes "n \<le> FAT32_LFN_SLOTS"
  shows "(of_nat (n + 0x40) :: u8) AND 0x40 \<noteq> 0" "(of_nat n :: u8) AND 0x40 = 0"
    "unat (of_nat (n + 0x40) :: u8) = n + 0x40" "unat (of_nat n :: u8) = n"
proof -
  have "n \<in> set [0..<21]" using assms by (simp add: FAT32_LFN_SLOTS_def)
  moreover have "\<forall>n \<in> set [0..<21]. (of_nat (n + 0x40) :: u8) AND 0x40 \<noteq> 0 \<and> (of_nat n :: u8) AND 0x40 = 0" by code_simp
  ultimately show "(of_nat (n + 0x40) :: u8) AND 0x40 \<noteq> 0" "(of_nat n :: u8) AND 0x40 = 0" by blast+
  show "unat (of_nat (n + 0x40) :: u8) = n + 0x40" "unat (of_nat n :: u8) = n"
    using assms by (simp_all only: unat_of_nat FAT32_LFN_SLOTS_def) simp_all
qed

lemma lfn_first:
  assumes "\<forall>u \<in> set units. u < 2 ^ 16" and "1 \<le> count" "count \<le> FAT32_LFN_SLOTS"
    and "length (ls_units ls) = FAT32_LFN_SLOTS * 13"
  shows "\<exists>ls'. entry_step ls (lfn_entry units checksum count count) c p = Inl ls' \<and> lfn_read units checksum count count ls'"
proof -
  define e where "e = lfn_entry units checksum count count"
  note f = lfn_entry_fields [where units = units and checksum = checksum and count = count and seq = count, folded e_def]
  have e0: "unat (e ! 0) = count + 0x40" "e ! 0 AND 0x40 \<noteq> 0"
    using seq_mark [OF assms(3)] by (simp_all add: f del: of_nat_add)
  have b: "count \<le> 20" using assms(3) by (simp add: FAT32_LFN_SLOTS_def)
  then have "e ! 0 \<noteq> 0xE5" "(count + 64) mod 64 = count" using e0(1) by auto
  then have "entry_step ls e c p = Inl (ls\<lparr>ls_total := count, ls_checksum := checksum, ls_pending := count,
      ls_units := lfn_store count e (ls_units ls)\<rparr>)"
    using e0 assms(2,3) f(2-6) by (simp add: entry_step_def lfn_accept_def Let_def)
  moreover have "lfn_store count e (ls_units ls) ! i = lfn_unit units i"
    if "(count - 1) * 13 \<le> i" "i < count * 13" for i
  proof -
    have "i - (count - 1) * 13 < 13" using that assms(2) by (cases count) auto
    from f(8) [OF this, unfolded lfn_unit_bound [OF assms(1)]] that assms show ?thesis by (simp add: lfn_store_nth)
  qed
  ultimately show ?thesis using assms unfolding e_def [symmetric] by (auto simp: lfn_read_def lfn_store_nth(2))
qed

lemma lfn_next:
  assumes "\<forall>u \<in> set units. u < 2 ^ 16" and "1 \<le> k" "k < count" "count \<le> FAT32_LFN_SLOTS"
    and ls: "lfn_read units checksum count (k + 1) ls"
  shows "\<exists>ls'. entry_step ls (lfn_entry units checksum count k) c p = Inl ls' \<and> lfn_read units checksum count k ls'"
proof -
  define e where "e = lfn_entry units checksum count k"
  note f = lfn_entry_fields [where units = units and checksum = checksum and count = count and seq = k, folded e_def]
  have k: "k \<le> FAT32_LFN_SLOTS" "k \<le> 20" using assms(3,4) by (simp_all add: FAT32_LFN_SLOTS_def)
  have e0: "unat (e ! 0) = k" "e ! 0 AND 0x40 = 0"
    using seq_mark [OF k(1)] assms(3) by (simp_all add: f del: of_nat_add)
  then have "e ! 0 \<noteq> 0xE5" using k(2) by auto
  then have "entry_step ls e c p = Inl (ls\<lparr>ls_pending := k, ls_units := lfn_store k e (ls_units ls)\<rparr>)"
    using e0 assms(2) f(2-6) ls by (simp add: entry_step_def lfn_accept_def Let_def lfn_read_def)
  moreover have "lfn_store k e (ls_units ls) ! i = lfn_unit units i" if "(k - 1) * 13 \<le> i" "i < count * 13" for i
  proof (cases "i < k * 13")
    case True
    then have "i - (k - 1) * 13 < 13" using that assms(2) by (cases k) auto
    from f(8) [OF this, unfolded lfn_unit_bound [OF assms(1)]] True that assms k(1)
    show ?thesis by (simp add: lfn_store_nth lfn_read_def)
  next
    case False
    with that assms(2) k(1) ls show ?thesis by (simp add: lfn_store_nth lfn_read_def)
  qed
  ultimately show ?thesis using assms k(1) unfolding e_def [symmetric] by (auto simp: lfn_read_def lfn_store_nth(2))
qed

lemma scan_lfn:
  assumes u: "\<forall>u \<in> set units. u < 2 ^ 16" and c: "count \<le> FAT32_LFN_SLOTS"
    and ps: "length ps = k" and k: "k < count" and ls: "lfn_read units checksum count (k + 1) ls"
  shows "\<exists>ls'. lfn_read units checksum count 1 ls' \<and>
    scan_dir ls (zip (map (lfn_entry units checksum count) (rev [1..<k + 1])) ps @ es) = scan_dir ls' es"
  using ps k ls
proof (induction k arbitrary: ps ls)
  case (Suc k)
  then obtain q qs where ps: "ps = q # qs" "length qs = k" by (cases ps) auto
  obtain a b where q: "q = (a, b)" by (cases q)
  obtain ls1 where ls1: "entry_step ls (lfn_entry units checksum count (k + 1)) a b = Inl ls1"
      "lfn_read units checksum count (k + 1) ls1"
    using lfn_next [OF u _ _ c, of "k + 1" checksum ls a b] Suc.prems by auto
  have "lfn_entry units checksum count (k + 1) ! 0 \<noteq> 0"
  proof
    assume "lfn_entry units checksum count (k + 1) ! 0 = 0"
    then have "(of_nat (k + 1) :: u8) = 0" using Suc.prems(2) by (simp add: lfn_entry_fields del: of_nat_add)
    then have "unat (of_nat (k + 1) :: u8) = 0" by simp
    with seq_mark(4) [of "k + 1"] Suc.prems(2) c show False by simp
  qed
  with Suc.IH [OF ps(2) _ ls1(2)] Suc.prems(2) ps q ls1 show ?case by auto
qed auto

lemma lfn_count_bounds:
  assumes "units \<noteq> []" and "length units \<le> 255" and "sg_lfn g"
  shows "1 \<le> lfn_count g units" "lfn_count g units \<le> FAT32_LFN_SLOTS" "length units \<le> lfn_count g units * 13"
proof -
  have "0 < length units" using assms(1) by simp
  moreover have "n \<le> (n + 12) div 13 * 13" for n :: nat by presburger
  moreover have "1 \<le> (n + 12) div 13" if "0 < n" for n :: nat using that by presburger
  ultimately show "1 \<le> lfn_count g units" "length units \<le> lfn_count g units * 13"
    using assms(3) by (simp_all only: lfn_count_def if_True)
  have "(length units + 12) div 13 \<le> (255 + 12) div 13" using assms(2) by (intro div_le_mono) simp
  then show "lfn_count g units \<le> FAT32_LFN_SLOTS" by (simp add: lfn_count_def FAT32_LFN_SLOTS_def)
qed

lemma lfn_units_list:
  assumes "length units \<le> n"
  shows "\<exists>rest. map (lfn_unit units) [0..<n] = units @ rest \<and> (rest = [] \<or> hd rest = 0)"
proof -
  let ?rest = "map (lfn_unit units) [length units..<n]"
  have "[0..<n] = [0..<length units] @ [length units..<n]" using assms upt_add_eq_append [of 0 "length units" "n - length units"] by simp
  moreover have "map (lfn_unit units) [0..<length units] = units" by (rule nth_equalityI) (auto simp: lfn_unit_def)
  moreover have "?rest = [] \<or> hd ?rest = 0" by (cases "length units < n") (auto simp: upt_conv_Cons lfn_unit_def)
  ultimately show ?thesis by (intro exI [of _ ?rest]) simp
qed

lemma long_name_decoded:
  assumes name: "utf8_to_utf16 name 255 = Inr units" "name \<noteq> []" "length name \<le> FAT32_NAME_MAX"
    and n: "length units \<le> count * 13" and c: "count \<le> FAT32_LFN_SLOTS" and ls: "lfn_read units checksum count 1 ls"
  shows "utf16_to_utf8 (ls_units ls) (ls_total ls * 13) (FAT32_NAME_MAX + 1) = Some name"
proof -
  have len: "count * 13 \<le> length (ls_units ls)" using c ls by (simp add: lfn_read_def)
  have "take (count * 13) (ls_units ls) = map (lfn_unit units) [0..<count * 13]"
    using ls len by (intro nth_equalityI) (auto simp: lfn_read_def)
  moreover obtain rest where "map (lfn_unit units) [0..<count * 13] = units @ rest" "rest = [] \<or> hd rest = 0"
    using lfn_units_list [OF n] by blast
  ultimately have "utf16_loop (FAT32_NAME_MAX + 1) (take (count * 13) (ls_units ls)) [] = Some name"
    using utf16_of_utf8 [of 255 name "[]" units rest "[]" "FAT32_NAME_MAX + 1"] name by (simp add: utf8_to_utf16_def)
  then show ?thesis using ls name(2) by (simp add: utf16_to_utf8_def lfn_read_def)
qed

section \<open>8.3 names\<close>

text \<open>The character an 8.3 name has on disk.\<close>

definition upcase :: "u8 \<Rightarrow> u8" where
  "upcase c = (if 0x61 \<le> c \<and> c \<le> 0x7A then c - 32 else c)"

lemma short_char_ok_printable:
  assumes "short_char_ok c"
  shows "c \<noteq> SPACE" "c \<noteq> DOT" "c \<noteq> 0xE5" "c \<noteq> 0x05" "c \<noteq> 0" "\<not> 0x80 \<le> c" "\<not> (0x61 \<le> c \<and> c \<le> 0x7A)"
proof -
  show "c \<noteq> SPACE" "c \<noteq> DOT" "c \<noteq> 0xE5" "c \<noteq> 0x05" "c \<noteq> 0"
    using assms by (auto simp: short_char_ok_def SPACE_def DOT_def)
  show "\<not> 0x80 \<le> c" "\<not> (0x61 \<le> c \<and> c \<le> 0x7A)"
    using assms by (auto simp: short_char_ok_def word_le_nat_alt)
qed

lemma short_fold_ok:
  assumes "\<forall>c \<in> set (sp_out p). short_char_ok c" and "length (sp_out p) \<le> cap"
  shows "(\<forall>c \<in> set (sp_out (fold (short_step skip cap) cs p)). short_char_ok c) \<and>
    length (sp_out (fold (short_step skip cap) cs p)) \<le> cap"
  using assms
proof (induction cs arbitrary: p)
  case (Cons c cs)
  have "short_char_ok 0x5F" by code_simp
  with Cons.prems have "(\<forall>c \<in> set (sp_out (short_step skip cap c p)). short_char_ok c) \<and>
      length (sp_out (short_step skip cap c p)) \<le> cap" by (auto simp: short_step_def Let_def)
  with Cons.IH [of "short_step skip cap c p"] show ?case by simp
qed simp

lemma strip_pad: "\<forall>c \<in> set bs. c \<noteq> SPACE \<Longrightarrow> strip_spaces (pad_spaces n bs) = bs"
proof -
  assume "\<forall>c \<in> set bs. c \<noteq> SPACE"
  then have "dropWhile (\<lambda>c. c = SPACE) (rev bs) = rev bs" by (cases bs rule: rev_cases) auto
  then show ?thesis by (simp add: strip_spaces_def pad_spaces_def dropWhile_append)
qed

lemma length_pad [simp]: "length bs \<le> n \<Longrightarrow> length (pad_spaces n bs) = n"
  by (simp add: pad_spaces_def)

lemma short_fold_exact:
  assumes "\<not> sp_lossy (fold (short_step skip cap) cs p)"
  shows "\<not> sp_lossy p \<and> sp_out (fold (short_step skip cap) cs p) = sp_out p @ map upcase cs \<and>
    (\<forall>c \<in> set cs. \<not> skip c \<and> short_char_ok (upcase c)) \<and>
    sp_lower (fold (short_step skip cap) cs p) = (sp_lower p \<or> (\<exists>c \<in> set cs. 0x61 \<le> c \<and> c \<le> 0x7A)) \<and>
    sp_upper (fold (short_step skip cap) cs p) = (sp_upper p \<or> (\<exists>c \<in> set cs. 0x41 \<le> c \<and> c \<le> 0x5A))"
  using assms
proof (induction cs arbitrary: p)
  case (Cons c cs)
  note r = Cons.IH [of "short_step skip cap c p"]
  have "\<not> sp_lossy (short_step skip cap c p)" using r Cons.prems by simp
  then have "\<not> skip c" "\<not> sp_lossy p" "short_char_ok (upcase c)" "sp_out (short_step skip cap c p) = sp_out p @ [upcase c]"
    "sp_lower (short_step skip cap c p) = (sp_lower p \<or> 0x61 \<le> c \<and> c \<le> 0x7A)"
    "sp_upper (short_step skip cap c p) = (sp_upper p \<or> 0x41 \<le> c \<and> c \<le> 0x5A)"
    by (auto simp: short_step_def upcase_def Let_def split: if_splits)
  with r Cons.prems show ?case by auto
qed simp

lemma shown_upcase:
  assumes "short_char_ok (upcase c)" and "0x61 \<le> c \<and> c \<le> 0x7A \<Longrightarrow> lower" and "lower \<Longrightarrow> \<not> (0x41 \<le> c \<and> c \<le> 0x5A)"
  shows "name_char lower (upcase c) = [c]"
proof -
  have "\<not> 0x80 \<le> upcase c" using assms(1) by (rule short_char_ok_printable)
  moreover have "shown_char lower (upcase c) = c"
  proof (cases "0x61 \<le> c \<and> c \<le> 0x7A")
    case True
    then have "0x41 \<le> c - 32 \<and> c - 32 \<le> 0x5A"
      by (simp add: word_le_nat_alt unat_sub [of 32 c]; linarith)
    then show ?thesis using True assms(2) by (simp add: shown_char_def upcase_def)
  next
    case False
    with assms(3) show ?thesis by (auto simp: shown_char_def upcase_def)
  qed
  ultimately show ?thesis by (simp add: name_char_def)
qed

lemma shown_part:
  assumes "r = fold (short_step skip cap) cs \<lparr>sp_out = [], sp_lossy = lossy, sp_lower = False, sp_upper = False\<rparr>"
    and "\<not> sp_lossy r" and "\<not> (sp_lower r \<and> sp_upper r)"
  shows "concat (map (name_char (sp_lower r)) (sp_out r)) = cs"
proof -
  have *: "sp_out r = map upcase cs" "\<forall>c \<in> set cs. short_char_ok (upcase c)"
    "sp_lower r = (\<exists>c \<in> set cs. 0x61 \<le> c \<and> c \<le> 0x7A)" "sp_upper r = (\<exists>c \<in> set cs. 0x41 \<le> c \<and> c \<le> 0x5A)"
    using short_fold_exact [OF assms(2) [unfolded assms(1)], folded assms(1)] by auto
  have "name_char (sp_lower r) (upcase c) = [c]" if "c \<in> set cs" for c
    by (rule shown_upcase) (use that *(2-4) assms(3) in blast)+
  then have "map (name_char (sp_lower r)) (map upcase cs) = map (\<lambda>c. [c]) cs" by simp
  then show ?thesis unfolding *(1) by (simp only: concat_map_singleton) simp
qed

lemma last_dot_cases:
  "last_dot name start = length name \<or> last_dot name start < length name \<and> name ! last_dot name start = DOT"
proof -
  define js where "js = filter (\<lambda>i. name ! i = DOT) [start..<length name]"
  have "j < length name \<and> name ! j = DOT" if "j \<in> set js" for j using that by (simp add: js_def)
  moreover have "js \<noteq> [] \<Longrightarrow> last js \<in> set js" by simp
  moreover have "last_dot name start = (if js = [] then length name else last js)"
    unfolding last_dot_def js_def [symmetric] by (cases js) simp_all
  ultimately show ?thesis by (metis (full_types))
qed

text \<open>The name an 8.3 entry shows, from the parts its 11 bytes pad.\<close>

lemma build_short_parts:
  assumes e: "take 11 e = pad_spaces 8 base @ pad_spaces 3 ext" and len: "length base \<le> 8" "length ext \<le> 3"
    and ok: "base \<noteq> []" "\<forall>c \<in> set base. short_char_ok c" "\<forall>c \<in> set ext. short_char_ok c"
  shows "fst (build_short_name e) = concat (map (name_char (e ! 12 AND 0x08 \<noteq> 0)) base) @
    (if ext = [] then [] else [DOT]) @ concat (map (name_char (e ! 12 AND 0x10 \<noteq> 0)) ext)"
proof -
  have "length (take 11 e) = 11" using e len by simp
  then have "e ! 0 = take 11 e ! 0" by simp
  also have "\<dots> = base ! 0" unfolding e using ok(1) by (simp add: nth_append pad_spaces_def)
  finally have "e ! 0 \<noteq> 0x05" using ok(1,2) short_char_ok_printable(4) [of "base ! 0"] by simp
  moreover have "strip_spaces (pad_spaces 8 base) = base" "strip_spaces (pad_spaces 3 ext) = ext"
    using ok(2,3) short_char_ok_printable(1) by (auto intro!: strip_pad)
  ultimately show ?thesis using e len by (simp add: build_short_name_def Let_def)
qed

text \<open>The shape of the 11 bytes an entry gets.\<close>

definition raw_ok :: "u8 list \<Rightarrow> bool" where
  "raw_ok raw \<longleftrightarrow> length raw = 11 \<and> short_char_ok (raw ! 0)"

lemma parts_ok:
  "\<forall>c \<in> set (sp_out (base_part name)). short_char_ok c" "length (sp_out (base_part name)) \<le> 8"
  "\<forall>c \<in> set (sp_out (ext_part name)). short_char_ok c" "length (sp_out (ext_part name)) \<le> 3"
  unfolding base_part_def ext_part_def
  by (rule short_fold_ok [THEN conjunct1] short_fold_ok [THEN conjunct2]; simp)+

lemma short_gen_raw_ok: "raw_ok (sg_raw (short_gen_base name))"
proof -
  have "short_char_ok 0x5F" by code_simp
  then show ?thesis using parts_ok [of name]
    by (auto simp: raw_ok_def short_gen_base_def Let_def pad_spaces_def nth_append)
qed

lemma length_decimal_digits: "v < 10 ^ k \<Longrightarrow> length (decimal_digits v) \<le> k"
proof (induction k arbitrary: v)
  case (Suc k)
  have "v div 10 < 10 ^ k" using Suc.prems by (simp add: div_less_iff_less_mult mult.commute)
  with Suc.IH show ?case by (subst decimal_digits.simps) simp
qed (simp add: decimal_digits.simps)

lemma short_tail_raw_ok:
  assumes "raw_ok (sg_raw g)" and "n < 10 ^ 6"
  shows "raw_ok (short_tail g n)"
proof -
  have "length (decimal_digits n) \<le> 6" using assms(2) by (rule length_decimal_digits)
  moreover have "short_char_ok 0x7E" by code_simp
  ultimately show ?thesis using assms(1)
    by (auto simp: raw_ok_def short_tail_def Let_def pad_spaces_def nth_append nth_Cons min_def)
qed

lemma short_name_exact:
  assumes lfn: "\<not> sg_lfn (short_gen_base name)" and name: "name \<noteq> []" "last name \<noteq> DOT"
    and e: "take 11 e = sg_raw (short_gen_base name)" "e ! 12 = sg_nt (short_gen_base name)"
  shows "fst (build_short_name e) = name"
proof -
  let ?b = "base_part name" and ?x = "ext_part name" and ?dot = "name_dot name"
  have plain: "\<not> (sp_lower ?b \<and> sp_upper ?b)" "\<not> (sp_lower ?x \<and> sp_upper ?x)" "\<not> sp_lossy ?x" "sp_out ?b \<noteq> []"
    using lfn by (auto simp: short_gen_base_def Let_def)
  have b: "\<not> sp_lossy ?b" using short_fold_exact [OF plain(3) [unfolded ext_part_def]] by simp
  have start: "name_start name = 0" using short_fold_exact [OF b [unfolded base_part_def]] by simp
  have base: "concat (map (name_char (sp_lower ?b)) (sp_out ?b)) = take ?dot name"
    using shown_part [OF base_part_def b plain(1)] start by simp
  have ext: "concat (map (name_char (sp_lower ?x)) (sp_out ?x)) = drop (?dot + 1) name"
    using shown_part [OF ext_part_def plain(3,2)] .
  have nt: "(e ! 12 AND 0x08 \<noteq> 0) = sp_lower ?b" "(e ! 12 AND 0x10 \<noteq> 0) = sp_lower ?x"
    using e(2) plain by (auto simp: short_gen_base_def Let_def)
  have raw: "take 11 e = pad_spaces 8 (sp_out ?b) @ pad_spaces 3 (sp_out ?x)"
    using e(1) plain(4) by (simp add: short_gen_base_def Let_def)
  have dot: "?dot = length name \<or> ?dot < length name \<and> name ! ?dot = DOT"
    unfolding name_dot_def by (rule last_dot_cases)
  have "(if sp_out ?x = [] then [] else [DOT]) @ drop (?dot + 1) name = drop ?dot name"
  proof (cases "?dot < length name")
    case True
    have "?dot + 1 \<noteq> length name"
    proof
      assume "?dot + 1 = length name"
      then have "name ! ?dot = last name" using name(1) by (simp add: last_conv_nth flip: \<open>?dot + 1 = length name\<close>)
      with True dot name(2) show False by simp
    qed
    with True have "drop (?dot + 1) name \<noteq> []" by simp
    moreover from this have "sp_out ?x \<noteq> []" using ext by auto
    ultimately show ?thesis using True dot by (simp add: Cons_nth_drop_Suc [symmetric])
  next
    case False
    then have "drop (?dot + 1) name = []" "drop ?dot name = []" by simp_all
    moreover from this have "sp_out ?x = []" by (simp add: ext_part_def)
    ultimately show ?thesis by simp
  qed
  then show ?thesis
    unfolding build_short_parts [OF raw parts_ok(2,4) plain(4) parts_ok(1,3)] nt base ext by simp
qed

lemma short_entry_fields:
  assumes "length raw = 11"
  shows "length (short_entry raw attr nt fc sz wd wt nd nt') = 32"
    and "take 11 (short_entry raw attr nt fc sz wd wt nd nt') = raw"
    and "short_entry raw attr nt fc sz wd wt nd nt' ! 11 = attr"
    and "short_entry raw attr nt fc sz wd wt nd nt' ! 12 = nt"
    and "le16 (short_entry raw attr nt fc sz wd wt nd nt') 20 = fc div 2 ^ 16 mod 2 ^ 16"
    and "le16 (short_entry raw attr nt fc sz wd wt nd nt') 26 = fc mod 2 ^ 16"
    and "sz < 2 ^ 32 \<Longrightarrow> le32 (short_entry raw attr nt fc sz wd wt nd nt') 28 = sz"
    and "le16 (short_entry raw attr nt fc sz wd wt nd nt') 24 = wd mod 2 ^ 16"
    and "le16 (short_entry raw attr nt fc sz wd wt nd nt') 22 = wt mod 2 ^ 16"
  using assms by (auto simp: short_entry_def nth_append intro!: nth_equalityI)

section \<open>A name and the entries that store it\<close>

lemma name_units_ok:
  assumes "name_units name = Inr units"
  shows "utf8_to_utf16 name 255 = Inr units" "name \<noteq> []" "length name \<le> FAT32_NAME_MAX" "last name \<noteq> DOT"
    "\<forall>u \<in> set units. u < 2 ^ 16" "length units \<le> 255" "units \<noteq> []"
proof -
  show u: "utf8_to_utf16 name 255 = Inr units" "name \<noteq> []" "length name \<le> FAT32_NAME_MAX" "last name \<noteq> DOT"
    using assms by (auto simp: name_units_def split: if_splits)
  then show "\<forall>u \<in> set units. u < 2 ^ 16" "length units \<le> 255" "units \<noteq> []"
    using utf8_loop_units [of 255 name "[]" units] by (auto simp: utf8_to_utf16_def)
qed

lemma short_name_for_ok:
  assumes "n < 10 ^ 6"
  shows "raw_ok (sg_raw (short_name_for name n))" "sg_lfn (short_name_for name n) = sg_lfn (short_gen_base name)"
    "sg_nt (short_name_for name n) = sg_nt (short_gen_base name)"
    "\<not> sg_lfn (short_gen_base name) \<Longrightarrow> sg_raw (short_name_for name n) = sg_raw (short_gen_base name)"
  using short_gen_raw_ok [of name] short_tail_raw_ok [OF short_gen_raw_ok assms, of name]
  by (auto simp: short_name_for_def Let_def short_gen_base_def)

lemma short_checksum_take: "short_checksum (take 11 e) = short_checksum e"
  by (simp add: short_checksum_def)

lemma short_entry_reported:
  assumes "raw_ok raw" and "take 11 e = raw" and "e ! 11 = attr" and "attr AND 0x08 = 0"
  shows "e ! 0 \<noteq> 0" and "entry_step ls e c p = Inr (entry_info ls e c p)"
proof -
  have e0: "e ! 0 = raw ! 0" using assms(1,2) by (auto simp: raw_ok_def)
  note ok = short_char_ok_printable [of "raw ! 0"]
  show "e ! 0 \<noteq> 0" using ok assms(1) e0 by (simp add: raw_ok_def)
  have "attr AND 0x3F \<noteq> 0x0F"
  proof
    assume "attr AND 0x3F = 0x0F"
    then have "(attr AND 0x3F) AND 0x08 = 0x08" by simp
    with assms(4) show False by (simp add: and.assoc)
  qed
  then show "entry_step ls e c p = Inr (entry_info ls e c p)"
    using ok assms e0 by (simp add: raw_ok_def entry_step_def)
qed

lemma scan_lfn_all:
  assumes u: "\<forall>u \<in> set units. u < 2 ^ 16" and c: "1 \<le> count" "count \<le> FAT32_LFN_SLOTS"
    and ps: "length ps = count" and ls: "length (ls_units ls) = FAT32_LFN_SLOTS * 13"
  shows "\<exists>ls'. lfn_read units checksum count 1 ls' \<and>
    scan_dir ls (zip (map (lfn_entry units checksum count) (rev [1..<count + 1])) ps @ es) = scan_dir ls' es"
proof -
  obtain k where k: "count = k + 1" using c(1) by (cases count) auto
  obtain a b qs where q: "ps = (a, b) # qs" "length qs = k" using ps k by (cases ps) auto
  obtain ls1 where ls1: "entry_step ls (lfn_entry units checksum count count) a b = Inl ls1"
      "lfn_read units checksum count count ls1"
    using lfn_first [OF u c ls] by blast
  have "lfn_entry units checksum count count ! 0 \<noteq> 0"
  proof
    assume "lfn_entry units checksum count count ! 0 = 0"
    then have "unat (of_nat (count + 0x40) :: u8) = 0" by (simp add: lfn_entry_fields del: of_nat_add)
    with seq_mark [OF c(2)] show False by simp
  qed
  then have "scan_dir ls (zip (map (lfn_entry units checksum count) (rev [1..<count + 1])) ps @ es) =
      scan_dir ls1 (zip (map (lfn_entry units checksum count) (rev [1..<k + 1])) qs @ es)"
    using ls1(1) q(1) k by simp
  with scan_lfn [OF u c(2) q(2), of checksum ls1 es] ls1(2) k show ?thesis by simp
qed

text \<open>
  (C24) The entries \<open>dir_add_entry\<close> writes for a name it accepts are read back by \<open>dir_next\<close> as
  exactly one visible entry with that name, byte for byte, whichever form it needed: 8.3 with the
  case bits, 8.3 plus long-name entries, or a \<open>~N\<close> alias plus long-name entries. The attributes, first
  cluster, size, date and time written are the ones reported, and the position reported is that
  of the 8.3 entry, which comes last.
\<close>

theorem dir_entry_roundtrip:
  assumes name: "name_units name = Inr units" and n: "n < 10 ^ 6" and attr: "attr AND 0x08 = 0"
    and fields: "fc < 2 ^ 32" "sz < 2 ^ 32" "wdate < 2 ^ 16" "wtime < 2 ^ 16"
    and ls: "ls_pending ls = 0" "length (ls_units ls) = FAT32_LFN_SLOTS * 13"
    and ps: "length ps = lfn_count (short_name_for name n) units"
  shows "\<exists>short. scan_dir ls (zip (new_entries (short_name_for name n) units attr fc sz wdate wtime now_date now_time) (ps @ [(c, p)]) @ es) =
    \<lparr>fi_name = name, fi_short_name = short, fi_attr = attr, fi_first_cluster = fc,
     fi_size = (if attr AND FAT32_ATTR_DIR \<noteq> 0 then 0 else sz), fi_wdate = wdate, fi_wtime = wtime,
     fi_dir_cluster = c, fi_dir_pos = p\<rparr> # scan_dir lfn_start es"
proof -
  define g where "g = short_name_for name n"
  define e where "e = short_entry (sg_raw g) attr (sg_nt g) fc sz wdate wtime now_date now_time"
  note u = name_units_ok [OF name] and g = short_name_for_ok [OF n, of name, folded g_def]
  have raw: "length (sg_raw g) = 11" using g(1) by (simp add: raw_ok_def)
  note f = short_entry_fields [OF raw, where attr = attr and nt = "sg_nt g" and fc = fc and sz = sz and wd = wdate and wt = wtime
      and nd = now_date and nt' = now_time, folded e_def]
  note r = short_entry_reported [OF g(1) f(2,3) attr]
  have fc: "fc div 2 ^ 16 mod 2 ^ 16 * 2 ^ 16 + fc mod 2 ^ 16 = fc"
    using fields(1) by (simp add: div_less_iff_less_mult)
  have info: "entry_info ls' e c p = \<lparr>fi_name = name, fi_short_name = snd (build_short_name e), fi_attr = attr, fi_first_cluster = fc,
     fi_size = (if attr AND FAT32_ATTR_DIR \<noteq> 0 then 0 else sz), fi_wdate = wdate, fi_wtime = wtime,
     fi_dir_cluster = c, fi_dir_pos = p\<rparr>" if "fi_name (entry_info ls' e c p) = name" for ls'
    using that fields fc by (simp add: entry_info_def f split_beta Let_def)
  have "\<exists>ls'. scan_dir ls (zip (new_entries g units attr fc sz wdate wtime now_date now_time) (ps @ [(c, p)]) @ es) =
      scan_dir ls' ((e, c, p) # es) \<and> fi_name (entry_info ls' e c p) = name"
  proof (cases "sg_lfn g")
    case True
    let ?count = "lfn_count g units"
    note k = lfn_count_bounds [OF u(7,6) True]
    obtain ls' where ls': "lfn_read units (short_checksum (sg_raw g)) ?count 1 ls'"
        "scan_dir ls (zip (map (lfn_entry units (short_checksum (sg_raw g)) ?count) (rev [1..<?count + 1])) ps @ (e, c, p) # es) =
          scan_dir ls' ((e, c, p) # es)"
      using scan_lfn_all [OF u(5) k(1,2) ps [folded g_def] ls(2)] by blast
    have "ls_pending ls' = 1" "short_checksum e = ls_checksum ls'"
      using ls'(1) f(2) short_checksum_take [of e] by (simp_all add: lfn_read_def)
    then have "fi_name (entry_info ls' e c p) = name"
      using long_name_decoded [OF u(1,2,3) k(3,2) ls'(1)] by (simp add: entry_info_def split_beta Let_def)
    with ls'(2) ps show ?thesis by (auto simp: new_entries_def e_def [symmetric] g_def [symmetric])
  next
    case False
    then have "fst (build_short_name e) = name" using g u f by (intro short_name_exact) simp_all
    then have "fi_name (entry_info ls e c p) = name" using ls(1) by (simp add: entry_info_def split_beta Let_def)
    moreover have "ps = []" "lfn_count g units = 0" using False ps by (simp_all add: g_def lfn_count_def)
    ultimately show ?thesis by (auto simp: new_entries_def e_def [symmetric])
  qed
  then show ?thesis using r info unfolding g_def by fastforce
qed

theorem dir_entry_roundtrip_witness:
  "\<exists>short. scan_dir lfn_start (zip (new_entries (short_name_for [0x4F, 0x6C, 0xC3, 0xA1] 1) [0x4F, 0x6C, 0xE1] FAT32_ATTR_ARCH
        70000 1234 0x5A21 0x4321 0 0) ([(5, 7)] @ [(5, 8)]) @ []) =
    \<lparr>fi_name = [0x4F, 0x6C, 0xC3, 0xA1], fi_short_name = short, fi_attr = FAT32_ATTR_ARCH, fi_first_cluster = 70000,
     fi_size = (if FAT32_ATTR_ARCH AND FAT32_ATTR_DIR \<noteq> 0 then 0 else 1234), fi_wdate = 0x5A21, fi_wtime = 0x4321,
     fi_dir_cluster = 5, fi_dir_pos = 8\<rparr> # scan_dir lfn_start []"
proof (rule dir_entry_roundtrip)
  show "name_units [0x4F, 0x6C, 0xC3, 0xA1] = Inr [0x4F, 0x6C, 0xE1]"
    by (simp add: name_units_def utf8_to_utf16_def utf8_lead_def cp_bad_def cp_forbidden_def utf16_units_def
        FAT32_NAME_MAX_def DOT_def SPACE_def Let_def)
  show "length [(5, 7)] = lfn_count (short_name_for [0x4F, 0x6C, 0xC3, 0xA1] 1) [0x4F, 0x6C, 0xE1]"
    by (simp add: lfn_count_def short_name_for_def short_gen_base_def base_part_def ext_part_def name_start_def
        name_dot_def last_dot_def short_step_def short_char_ok_def DOT_def SPACE_def Let_def upt_rec)
qed (simp_all add: FAT32_ATTR_ARCH_def lfn_start_def FAT32_LFN_SLOTS_def)

end
