(* ===== verification/Io.thy ===== *)
theory Io
  imports Store
begin

text \<open>
  Operations that thread a state and may fail, and the rules to reason about them.  An operation
  takes the state and gives a result (an error or a value) and the next state; \<open>io_bind\<close> is the
  early return on error that the source writes after each call.
\<close>

type_synonym ('s, 'a) io = "'s \<Rightarrow> 'a res \<times> 's"

definition io_return :: "'a \<Rightarrow> ('s, 'a) io" where
  "io_return x s = (Inr x, s)"

definition io_fail :: "errno \<Rightarrow> ('s, 'a) io" where
  "io_fail e s = (Inl e, s)"

definition io_bind :: "('s, 'a) io \<Rightarrow> ('a \<Rightarrow> ('s, 'b) io) \<Rightarrow> ('s, 'b) io" where
  "io_bind m f s = (case m s of (Inl e, t) \<Rightarrow> (Inl e, t) | (Inr x, t) \<Rightarrow> f x t)"

text \<open>The result of an operation as a value, for callers that look at the error or ignore it.\<close>

definition io_try :: "('s, 'a) io \<Rightarrow> ('s, 'a res) io" where
  "io_try m s = (case m s of (r, t) \<Rightarrow> (Inr r, t))"

definition io_get :: "('s \<Rightarrow> 'a) \<Rightarrow> ('s, 'a) io" where
  "io_get f s = (Inr (f s), s)"

definition io_modify :: "('s \<Rightarrow> 's) \<Rightarrow> ('s, unit) io" where
  "io_modify f s = (Inr (), f s)"

definition io_lift :: "'a res \<Rightarrow> ('s, 'a) io" where
  "io_lift r s = (r, s)"

primrec io_for :: "'x list \<Rightarrow> ('x \<Rightarrow> 'a \<Rightarrow> ('s, 'a) io) \<Rightarrow> 'a \<Rightarrow> ('s, 'a) io" where
  "io_for [] f a = io_return a"
| "io_for (x # xs) f a = io_bind (f x a) (io_for xs f)"

lemma io_bind_cong [fundef_cong]:
  assumes "m s = m' s'" and "\<And>x t. m' s' = (Inr x, t) \<Longrightarrow> f x t = f' x t"
  shows "io_bind m f s = io_bind m' f' s'"
  using assms by (auto simp: io_bind_def split: prod.splits sum.splits)

lemma io_try_cong [fundef_cong]: "m s = m' s' \<Longrightarrow> io_try m s = io_try m' s'"
  by (simp add: io_try_def)

lemma io_bind_Inr: "io_bind m f s = (Inr y, u) \<longleftrightarrow> (\<exists>x t. m s = (Inr x, t) \<and> f x t = (Inr y, u))"
  by (auto simp: io_bind_def split: prod.splits sum.splits)

lemma io_bind_simps [simp]:
  "io_bind (io_return x) f = f x" "io_bind (io_fail e) f = io_fail e"
  by (auto simp: io_bind_def io_return_def io_fail_def)

lemma io_bind_assoc: "io_bind (io_bind m f) h = io_bind m (\<lambda>x. io_bind (f x) h)"
  by (rule ext) (auto simp: io_bind_def split: prod.splits sum.splits)

section \<open>Triples\<close>

text \<open>
  \<open>triple P m Q E\<close>: from a state with \<open>P\<close>, \<open>m\<close> either gives a value and a state with \<open>Q\<close>, or an error
  and a state with \<open>E\<close>.
\<close>

definition triple :: "('s \<Rightarrow> bool) \<Rightarrow> ('s, 'a) io \<Rightarrow> ('a \<Rightarrow> 's \<Rightarrow> bool) \<Rightarrow> (errno \<Rightarrow> 's \<Rightarrow> bool) \<Rightarrow> bool" where
  "triple P m Q E \<longleftrightarrow> (\<forall>s. P s \<longrightarrow> (case m s of (Inl e, t) \<Rightarrow> E e t | (Inr x, t) \<Rightarrow> Q x t))"

named_theorems triples \<open>triples of the operations\<close>

lemma tripleI:
  assumes "\<And>s x t. P s \<Longrightarrow> m s = (Inr x, t) \<Longrightarrow> Q x t" and "\<And>s e t. P s \<Longrightarrow> m s = (Inl e, t) \<Longrightarrow> E e t"
  shows "triple P m Q E"
  unfolding triple_def using assms by (auto split: prod.splits sum.splits)

lemma triple_Inr: "triple P m Q E \<Longrightarrow> P s \<Longrightarrow> m s = (Inr x, t) \<Longrightarrow> Q x t"
  by (auto simp: triple_def)

lemma triple_Inl: "triple P m Q E \<Longrightarrow> P s \<Longrightarrow> m s = (Inl e, t) \<Longrightarrow> E e t"
  by (auto simp: triple_def)

lemma triple_weaken:
  assumes "triple P m Q E" and "\<And>s. P' s \<Longrightarrow> P s" and "\<And>x s. Q x s \<Longrightarrow> Q' x s" and "\<And>e s. E e s \<Longrightarrow> E' e s"
  shows "triple P' m Q' E'"
  using assms by (fastforce simp: triple_def split: prod.splits sum.splits)

lemma triple_pre: "triple P m Q E \<Longrightarrow> (\<And>s. P' s \<Longrightarrow> P s) \<Longrightarrow> triple P' m Q E"
  by (rule triple_weaken)

lemma triple_return [intro]: "(\<And>s. P s \<Longrightarrow> Q x s) \<Longrightarrow> triple P (io_return x) Q E"
  by (simp add: triple_def io_return_def)

lemma triple_fail [intro]: "(\<And>s. P s \<Longrightarrow> E e s) \<Longrightarrow> triple P (io_fail e) Q E"
  by (simp add: triple_def io_fail_def)

lemma triple_get [intro]: "(\<And>s. P s \<Longrightarrow> Q (f s) s) \<Longrightarrow> triple P (io_get f) Q E"
  by (simp add: triple_def io_get_def)

lemma triple_modify [intro]: "(\<And>s. P s \<Longrightarrow> Q () (f s)) \<Longrightarrow> triple P (io_modify f) Q E"
  by (simp add: triple_def io_modify_def)

lemma triple_lift:
  "(\<And>s x. P s \<Longrightarrow> r = Inr x \<Longrightarrow> Q x s) \<Longrightarrow> (\<And>s e. P s \<Longrightarrow> r = Inl e \<Longrightarrow> E e s) \<Longrightarrow> triple P (io_lift r) Q E"
  by (cases r) (auto simp: triple_def io_lift_def)

lemma triple_try [intro]:
  "triple P m (\<lambda>x. Q (Inr x)) (\<lambda>e. Q (Inl e)) \<Longrightarrow> triple P (io_try m) Q E"
  unfolding triple_def io_try_def by (auto split: prod.splits sum.splits) (metis old.sum.exhaust)

lemma triple_bind:
  assumes "triple P m R E" and "\<And>x. triple (R x) (f x) Q E"
  shows "triple P (io_bind m f) Q E"
  using assms by (fastforce simp: triple_def io_bind_def split: prod.splits sum.splits)

lemma triple_if:
  assumes "b \<Longrightarrow> triple P m Q E" and "\<not> b \<Longrightarrow> triple P m' Q E"
  shows "triple P (if b then m else m') Q E"
  using assms by simp

lemma triple_for:
  assumes "\<And>x a. x \<in> set xs \<Longrightarrow> triple (I a) (f x a) I E"
  shows "triple (I a) (io_for xs f a) I E"
  using assms
proof (induction xs arbitrary: a)
  case (Cons x xs)
  then show ?case by (auto intro: triple_bind)
qed (simp add: triple_return)

text \<open>An invariant over the prefix of the loop that has been done.\<close>

lemma triple_for_upto:
  assumes "\<And>k a. k < n \<Longrightarrow> triple (I k a) (f k a) (I (Suc k)) E"
  shows "triple (I 0 a) (io_for [0..<n] f a) (I n) E"
proof -
  have "triple (I k a) (io_for [k..<n] f a) (I n) E" if "k \<le> n" for k
    using that
  proof (induction "n - k" arbitrary: k a)
    case (Suc d)
    then have "[k..<n] = k # [Suc k..<n]" "k < n" by (simp_all add: upt_conv_Cons)
    with Suc assms show ?case by (auto intro!: triple_bind)
  qed (simp add: triple_return)
  then show ?thesis by simp
qed

end
