(* ===== verification/Fat.thy ===== *)
theory Fat
  imports FatName Io
begin

text \<open>
  The FAT32 volume of \<^verbatim>\<open>src/fs/fat32.c\<close> and its file allocation table: mounting, the chain of a
  file, allocating and freeing clusters.  Operations take the block device they run on as a
  \<open>store\<close>.  The fields of \<open>struct fat32_vol\<close> that \<open>fat32_mount\<close> sets once and for all are the
  record \<open>fat32_geom\<close>; the fields protected by the lock of the volume are, with the state of the
  device, the state \<open>'s fat\<close> that the operations thread.
\<close>

section \<open>Constants and data\<close>

definition FAT32_MIN_CLUSTERS :: nat where "FAT32_MIN_CLUSTERS = 65525"
definition FAT32_MAX_CLUSTERS :: nat where "FAT32_MAX_CLUSTERS = 0x0FFFFFF5"
definition FAT32_EOC_MIN :: nat where "FAT32_EOC_MIN = 0x0FFFFFF8"
definition FAT32_EOC :: nat where "FAT32_EOC = 0x0FFFFFFF"
definition FAT32_UNKNOWN :: nat where "FAT32_UNKNOWN = 0xFFFFFFFF"
definition FAT32_MAX_SIZE :: nat where "FAT32_MAX_SIZE = 0xFFFFFFFF"

record fat32_geom =
  v_readonly :: bool
  v_num_fats :: nat
  v_fat_size :: nat
  v_fat_active :: nat
  v_mirror :: bool
  v_fat0_lba :: nat
  v_fat_lba :: nat
  v_fsinfo_lba :: nat
  v_data_lba :: nat
  v_clusters :: nat
  v_root_cluster :: nat
  v_spc_shift :: nat
  v_label :: "u8 list"

text \<open>The cursor of a directory and the state of an open file or directory (\<open>struct fat32_node\<close>).\<close>

record fat32_dircur =
  dc_cluster :: nat
  dc_pos :: nat
  dc_steps :: nat

record fat32_node =
  nd_info :: fat32_info
  nd_chain_index :: nat
  nd_chain_cluster :: nat
  nd_rd_next :: nat
  nd_rd_cur :: fat32_dircur
  nd_rd_valid :: bool
  nd_dirty :: bool

text \<open>
  An open vnode.  \<open>fv_id\<close> stands for its address; \<open>fv_dir\<close> is \<open>vn.type == VNODE_DIR\<close>, \<open>fv_size\<close> is
  \<open>vn.size\<close>.
\<close>

record fat32_vnode =
  fv_id :: nat
  fv_path :: "u8 list"
  fv_dir :: bool
  fv_size :: nat
  fv_node :: fat32_node
  fv_opens :: nat

record 's fat =
  fs_dev :: 's
  fs_free_count :: nat
  fs_next_free :: nat
  fs_fsinfo_dirty :: bool
  fs_dir_busy :: bool
  fs_open_nodes :: nat
  fs_open_list :: "fat32_vnode list"

definition v_spc :: "fat32_geom \<Rightarrow> nat" where
  "v_spc g = 2 ^ v_spc_shift g"

definition v_entries_per_cluster :: "fat32_geom \<Rightarrow> nat" where
  "v_entries_per_cluster g = v_spc g * 16"

lemma v_spc_pos [simp]: "0 < v_spc g" "0 < v_entries_per_cluster g"
  by (simp_all add: v_spc_def v_entries_per_cluster_def)

text \<open>\<open>cluster - 2u\<close> wraps for the cluster numbers 0 and 1, which no data cluster has.\<close>

definition cluster_lba :: "fat32_geom \<Rightarrow> nat \<Rightarrow> nat" where
  "cluster_lba g cluster = v_data_lba g + (cluster + 2 ^ 32 - 2) mod 2 ^ 32 * 2 ^ v_spc_shift g"

definition is_cluster :: "fat32_geom \<Rightarrow> nat \<Rightarrow> bool" where
  "is_cluster g cluster \<longleftrightarrow> 2 \<le> cluster \<and> cluster < v_clusters g + 2"

text \<open>Operations of the device, on the state of the volume.\<close>

definition fs_lift :: "('s, 'a) io \<Rightarrow> ('s fat, 'a) io" where
  "fs_lift m fs = (case m (fs_dev fs) of (r, d) \<Rightarrow> (r, fs\<lparr>fs_dev := d\<rparr>))"

definition fs_edit :: "'s store \<Rightarrow> nat \<Rightarrow> (u8 list \<Rightarrow> u8 list option) \<Rightarrow> ('s fat, u8 list) io" where
  "fs_edit st lba f = fs_lift (st_edit st lba f)"

definition fs_copy :: "'s store \<Rightarrow> nat \<Rightarrow> ('s fat, u8 list) io" where
  "fs_copy st lba = fs_lift (st_copy st lba)"

text \<open>The clock: the date and time of the source that is set, or the fixed default.\<close>

definition fat_now :: "(nat \<times> nat) option \<Rightarrow> nat \<times> nat" where
  "fat_now clock = (case clock of Some now \<Rightarrow> now | None \<Rightarrow> (46 * 2 ^ 9 + 1 * 2 ^ 5 + 1, 0))"

section \<open>The FAT\<close>

definition fat_value :: "u8 list \<Rightarrow> nat \<Rightarrow> nat" where
  "fat_value sec cluster = le32 sec (cluster mod 128 * 4) mod 2 ^ 28"

definition fat_change :: "nat \<Rightarrow> nat \<Rightarrow> u8 list \<Rightarrow> u8 list" where
  "fat_change cluster v sec =
    put32 (cluster mod 128 * 4) (le32 sec (cluster mod 128 * 4) div 2 ^ 28 * 2 ^ 28 + v mod 2 ^ 28) sec"

text \<open>\<open>Some next\<close> is the next cluster of the chain, \<open>None\<close> its end.\<close>

definition fat_next :: "'s store \<Rightarrow> fat32_geom \<Rightarrow> nat \<Rightarrow> ('s fat, nat option) io" where
  "fat_next st g cluster =
    (if \<not> is_cluster g cluster then io_fail EIO
     else io_bind (fs_copy st (v_fat_lba g + cluster div 128)) (\<lambda>sec.
       let v = fat_value sec cluster
       in if v \<ge> FAT32_EOC_MIN then io_return None
          else if \<not> is_cluster g v then io_fail EIO
          else io_return (Some v)))"

definition fat_count_free :: "'s store \<Rightarrow> fat32_geom \<Rightarrow> ('s fat, nat) io" where
  "fat_count_free st g =
    (let fin = v_clusters g + 2
     in io_for [0..<(fin + 127) div 128] (\<lambda>k count.
          io_bind (fs_copy st (v_fat_lba g + k)) (\<lambda>sec.
            io_return (count + length (filter (\<lambda>c. \<not> c < 2 \<and> c < fin \<and> fat_value sec c = 0) [k * 128..<k * 128 + 128])))) 0)"

definition fat32_free_clusters :: "'s store \<Rightarrow> fat32_geom \<Rightarrow> ('s fat, nat) io" where
  "fat32_free_clusters st g =
    io_bind (io_get fs_free_count) (\<lambda>known.
      if known = FAT32_UNKNOWN
      then io_bind (fat_count_free st g) (\<lambda>counted.
             io_bind (io_modify (\<lambda>fs. if fs_free_count fs = FAT32_UNKNOWN then fs\<lparr>fs_free_count := counted\<rparr> else fs)) (\<lambda>_.
               io_return counted))
      else io_return known)"

definition fat_put_copy :: "'s store \<Rightarrow> fat32_geom \<Rightarrow> nat \<Rightarrow> nat \<Rightarrow> nat \<Rightarrow> ('s fat, unit) io" where
  "fat_put_copy st g copy cluster v =
    io_bind (fs_edit st (v_fat0_lba g + copy * v_fat_size g + cluster div 128) (\<lambda>sec. Some (fat_change cluster v sec)))
      (\<lambda>_. io_return ())"

definition fat_set :: "'s store \<Rightarrow> fat32_geom \<Rightarrow> nat \<Rightarrow> nat \<Rightarrow> ('s fat, unit) io" where
  "fat_set st g cluster v =
    (if \<not> is_cluster g cluster then io_fail EIO
     else if \<not> v_mirror g then fat_put_copy st g (v_fat_active g) cluster v
     else io_for [0..<v_num_fats g] (\<lambda>copy _. fat_put_copy st g copy cluster v) ())"

section \<open>Allocating clusters\<close>

text \<open>The first free entry among \<open>span\<close> entries from \<open>cl\<close> on, all in the sector \<open>sec\<close>.\<close>

definition find_free :: "nat \<Rightarrow> nat \<Rightarrow> u8 list \<Rightarrow> nat option" where
  "find_free cl span sec = find (\<lambda>c. fat_value sec c = 0) [cl..<cl + span]"

text \<open>The bookkeeping under the lock when \<open>found\<close> is reserved.\<close>

definition note_alloc :: "fat32_geom \<Rightarrow> nat \<Rightarrow> 's fat \<Rightarrow> 's fat" where
  "note_alloc g found fs =
    fs\<lparr>fs_free_count := (if fs_free_count fs \<noteq> FAT32_UNKNOWN \<and> fs_free_count fs \<noteq> 0 then fs_free_count fs - 1 else fs_free_count fs),
       fs_next_free := (if found + 1 < v_clusters g + 2 then found + 1 else 2), fs_fsinfo_dirty := True\<rparr>"

text \<open>The other copies of the FAT; when one fails the reservation is undone in the active one.\<close>

primrec alloc_mirror :: "'s store \<Rightarrow> fat32_geom \<Rightarrow> nat \<Rightarrow> nat list \<Rightarrow> ('s fat, nat) io" where
  "alloc_mirror st g found [] = io_return found"
| "alloc_mirror st g found (copy # copies) =
    (if copy = v_fat_active g then alloc_mirror st g found copies
     else io_bind (io_try (fat_put_copy st g copy found FAT32_EOC)) (\<lambda>r.
       case r of
         Inl e \<Rightarrow>
           io_bind (io_try (fat_put_copy st g (v_fat_active g) found 0)) (\<lambda>_.
             io_bind (io_modify (\<lambda>fs. fs\<lparr>fs_free_count := (if fs_free_count fs \<noteq> FAT32_UNKNOWN then fs_free_count fs + 1 else FAT32_UNKNOWN)\<rparr>)) (\<lambda>_.
               io_fail e))
       | Inr _ \<Rightarrow> alloc_mirror st g found copies))"

text \<open>
  The circular search.  \<open>cl\<close> is always below \<open>clusters + 2\<close> (\<open>cluster_alloc\<close> starts there and the
  loop wraps), which the guard on the last bound of \<open>span\<close> makes explicit.
\<close>

definition alloc_span :: "fat32_geom \<Rightarrow> nat \<Rightarrow> nat \<Rightarrow> nat" where
  "alloc_span g cl remaining =
    (let span = min (128 - cl mod 128) remaining
     in if cl < v_clusters g + 2 then min span (v_clusters g + 2 - cl) else span)"

lemma alloc_span_pos: "0 < remaining \<Longrightarrow> 0 < alloc_span g cl remaining \<and> alloc_span g cl remaining \<le> remaining"
proof -
  have "cl mod 128 < 128" by simp
  then show "0 < remaining \<Longrightarrow> 0 < alloc_span g cl remaining \<and> alloc_span g cl remaining \<le> remaining"
    by (auto simp: alloc_span_def Let_def)
qed

function alloc_loop :: "'s store \<Rightarrow> fat32_geom \<Rightarrow> nat \<Rightarrow> nat \<Rightarrow> ('s fat, nat) io" where
  "alloc_loop st g cl remaining =
    (if remaining = 0 then io_fail ENOSPC
     else let span = alloc_span g cl remaining
          in io_bind (fs_edit st (v_fat_lba g + cl div 128)
                 (\<lambda>sec. map_option (\<lambda>c. fat_change c FAT32_EOC sec) (find_free cl span sec))) (\<lambda>sec.
               case find_free cl span sec of
                 Some found \<Rightarrow>
                   io_bind (io_modify (note_alloc g found)) (\<lambda>_.
                     if v_mirror g then alloc_mirror st g found [0..<v_num_fats g] else io_return found)
               | None \<Rightarrow> alloc_loop st g (if cl + span \<ge> v_clusters g + 2 then 2 else cl + span) (remaining - span)))"
  by pat_completeness auto
termination
  by (relation "measure (\<lambda>(st, g, cl, remaining). remaining)") (auto simp: alloc_span_pos diff_less)

declare alloc_loop.simps [simp del]

definition cluster_alloc :: "'s store \<Rightarrow> fat32_geom \<Rightarrow> ('s fat, nat) io" where
  "cluster_alloc st g =
    (if v_readonly g then io_fail EROFS
     else io_bind (io_get fs_next_free) (\<lambda>cl.
       alloc_loop st g (if is_cluster g cl then cl else 2) (v_clusters g)))"

section \<open>Freeing a chain\<close>

text \<open>The loop gives the error it stopped at, how many clusters it freed and the lowest one.\<close>

function free_loop :: "'s store \<Rightarrow> fat32_geom \<Rightarrow> nat \<Rightarrow> nat \<Rightarrow> nat \<Rightarrow> ('s fat, errno option \<times> nat \<times> nat) io" where
  "free_loop st g cl freed lowest =
    (if \<not> is_cluster g cl then io_return (None, freed, lowest)
     else if freed \<ge> v_clusters g then io_return (Some EIO, freed, lowest)
     else io_bind (io_try (fat_next st g cl)) (\<lambda>link.
       io_bind (io_try (fat_set st g cl 0)) (\<lambda>r.
         case r of
           Inl e \<Rightarrow> io_return (Some e, freed, lowest)
         | Inr _ \<Rightarrow>
             (case link of
                Inl e \<Rightarrow> io_return (Some e, freed + 1, min cl lowest)
              | Inr None \<Rightarrow> io_return (None, freed + 1, min cl lowest)
              | Inr (Some next) \<Rightarrow> free_loop st g next (freed + 1) (min cl lowest)))))"
  by pat_completeness auto
termination
  by (relation "measure (\<lambda>(st, g, cl, freed, lowest). v_clusters g - freed)") auto

declare free_loop.simps [simp del]

definition note_free :: "fat32_geom \<Rightarrow> nat \<Rightarrow> nat \<Rightarrow> 's fat \<Rightarrow> 's fat" where
  "note_free g freed lowest fs =
    fs\<lparr>fs_free_count := (if fs_free_count fs \<noteq> FAT32_UNKNOWN then min (fs_free_count fs + freed) (v_clusters g) else FAT32_UNKNOWN),
       fs_next_free := min lowest (fs_next_free fs), fs_fsinfo_dirty := True\<rparr>"

definition cluster_free_chain :: "'s store \<Rightarrow> fat32_geom \<Rightarrow> nat \<Rightarrow> ('s fat, unit) io" where
  "cluster_free_chain st g first =
    io_bind (free_loop st g first 0 FAT32_UNKNOWN) (\<lambda>(err, freed, lowest).
      io_bind (io_modify (\<lambda>fs. if freed \<noteq> 0 then note_free g freed lowest fs else fs)) (\<lambda>_.
        case err of None \<Rightarrow> io_return () | Some e \<Rightarrow> io_fail e))"

definition cluster_zero :: "'s store \<Rightarrow> fat32_geom \<Rightarrow> nat \<Rightarrow> ('s fat, unit) io" where
  "cluster_zero st g cluster =
    io_for [0..<v_spc g] (\<lambda>i _. fs_lift (st_new st (cluster_lba g cluster + i))) ()"

definition chain_grow :: "'s store \<Rightarrow> fat32_geom \<Rightarrow> nat \<Rightarrow> bool \<Rightarrow> ('s fat, nat) io" where
  "chain_grow st g prev zero =
    io_bind (cluster_alloc st g) (\<lambda>fresh.
      io_bind (io_try (io_bind (if zero then cluster_zero st g fresh else io_return ()) (\<lambda>_.
                 if prev \<noteq> 0 then fat_set st g prev fresh else io_return ()))) (\<lambda>r.
        case r of
          Inl e \<Rightarrow> io_bind (io_try (cluster_free_chain st g fresh)) (\<lambda>_. io_fail e)
        | Inr _ \<Rightarrow> io_return fresh))"

section \<open>Mounting\<close>

text \<open>The number of sectors per cluster is a power of two of at most 128.\<close>

definition spc_shift_of :: "nat \<Rightarrow> nat" where
  "spc_shift_of spc = length (takeWhile (\<lambda>k. 2 ^ k < spc) [0..<8])"

definition boot_label :: "u8 list \<Rightarrow> u8 list" where
  "boot_label bs =
    (if bs ! 66 = 0x29
     then map (\<lambda>c. if 0x20 \<le> c \<and> c < 0x7F then c else 0x3F) (strip_spaces (sec_get bs 71 11)) else [])"

text \<open>The geometry the boot sector describes, with the checks that refuse it.\<close>

definition boot_geom :: "u8 list \<Rightarrow> nat \<Rightarrow> bool \<Rightarrow> fat32_geom res" where
  "boot_geom bs sectors ro =
    (let spc = unat (bs ! 13); reserved = le16 bs 14; nfats = unat (bs ! 16);
         total = (if le16 bs 19 \<noteq> 0 then le16 bs 19 else le32 bs 32);
         fat_size = le32 bs 36; single = bit (le16 bs 40) 7; root = le32 bs 44;
         meta = reserved + nfats * fat_size; shift = spc_shift_of spc;
         clusters = min ((total - meta) div 2 ^ shift) FAT32_MAX_CLUSTERS;
         active = (if single then le16 bs 40 mod 2 ^ 4 else 0)
     in if bs ! 510 \<noteq> 0x55 \<or> bs ! 511 \<noteq> 0xAA then Inl EINVAL
        else if le16 bs 11 \<noteq> BLK_SECTOR_SIZE then Inl EINVAL
        else if \<not> is_pow2 spc \<or> spc > 128 then Inl EINVAL
        else if reserved = 0 \<or> nfats = 0 \<or> nfats > 4 then Inl EINVAL
        else if le16 bs 17 \<noteq> 0 \<or> le16 bs 22 \<noteq> 0 then Inl EINVAL
        else if total = 0 \<or> fat_size = 0 then Inl EINVAL
        else if total > sectors then Inl EINVAL
        else if meta \<ge> total then Inl EINVAL
        else if (total - meta) div 2 ^ shift < FAT32_MIN_CLUSTERS then Inl EINVAL
        else if fat_size * 128 < clusters + 2 then Inl EINVAL
        else if root < 2 \<or> root \<ge> clusters + 2 then Inl EINVAL
        else if active \<ge> nfats then Inl EINVAL
        else Inr \<lparr>v_readonly = ro, v_num_fats = nfats, v_fat_size = fat_size, v_fat_active = active,
                  v_mirror = (\<not> single), v_fat0_lba = reserved, v_fat_lba = reserved + active * fat_size,
                  v_fsinfo_lba = 0, v_data_lba = meta, v_clusters = clusters, v_root_cluster = root,
                  v_spc_shift = shift, v_label = boot_label bs\<rparr>)"

text \<open>The counters of the FSInfo sector: the sector is used when its three marks are right.\<close>

definition fsinfo_valid :: "u8 list \<Rightarrow> bool" where
  "fsinfo_valid f \<longleftrightarrow> le32 f 0 = 0x41615252 \<and> le32 f 484 = 0x61417272 \<and> le32 f 508 = 0xAA550000"

definition read_fsinfo :: "'s store \<Rightarrow> nat \<Rightarrow> fat32_geom \<times> 's fat \<Rightarrow> fat32_geom \<times> 's fat" where
  "read_fsinfo st fsinfo vol =
    (case vol of (g, fs) \<Rightarrow>
       case fs_copy st fsinfo fs of
         (Inl e, fs') \<Rightarrow> (g, fs')
       | (Inr f, fs') \<Rightarrow>
           if fsinfo_valid f
           then let fc = le32 f 488; nf = le32 f 492
                in (g\<lparr>v_fsinfo_lba := fsinfo\<rparr>,
                    fs'\<lparr>fs_free_count := (if fc \<le> v_clusters g then fc else fs_free_count fs'),
                        fs_next_free := (if is_cluster g nf then nf else fs_next_free fs')\<rparr>)
           else (g, fs'))"

text \<open>The volume with the counters of the FSInfo sector, when it has one; then with the count of free clusters.\<close>

definition mount_hints :: "'s store \<Rightarrow> u8 list \<Rightarrow> fat32_geom \<Rightarrow> 's \<Rightarrow> fat32_geom \<times> 's fat" where
  "mount_hints st bs g d =
    (let fs0 = \<lparr>fs_dev = d, fs_free_count = FAT32_UNKNOWN, fs_next_free = 2, fs_fsinfo_dirty = False,
                fs_dir_busy = False, fs_open_nodes = 0, fs_open_list = []\<rparr>;
         fsinfo = le16 bs 48
     in if 1 \<le> fsinfo \<and> fsinfo < v_fat0_lba g then read_fsinfo st fsinfo (g, fs0) else (g, fs0))"

definition mount_count :: "'s store \<Rightarrow> fat32_geom \<Rightarrow> 's fat \<Rightarrow> (fat32_geom \<times> 's fat) res \<times> 's" where
  "mount_count st g fs1 =
    (if fs_free_count fs1 = FAT32_UNKNOWN \<and> \<not> v_readonly g
     then (case fat_count_free st g fs1 of
             (Inl e, fs2) \<Rightarrow> (Inl e, fs_dev fs2)
           | (Inr n, fs2) \<Rightarrow>
               (Inr (g, fs2\<lparr>fs_free_count := n, fs_fsinfo_dirty := (v_fsinfo_lba g \<noteq> 0)\<rparr>), fs_dev fs2))
     else (Inr (g, fs1), fs_dev fs1))"

text \<open>
  \<open>sectors\<close> and \<open>ro\<close> are the size and the flag of the device, \<open>mem\<close> tells whether the volume could be
  allocated.
\<close>

definition fat32_mount :: "'s store \<Rightarrow> nat \<Rightarrow> bool \<Rightarrow> bool \<Rightarrow> 's \<Rightarrow> (fat32_geom \<times> 's fat) res \<times> 's" where
  "fat32_mount st sectors ro mem d =
    (case st_copy st 0 d of
       (Inl e, d1) \<Rightarrow> (Inl e, d1)
     | (Inr bs, d1) \<Rightarrow>
         (case boot_geom bs sectors ro of
            Inl e \<Rightarrow> (Inl e, d1)
          | Inr g0 \<Rightarrow>
              if \<not> mem then (Inl ENOMEM, d1)
              else (case mount_hints st bs g0 d1 of (g, fs1) \<Rightarrow> mount_count st g fs1)))"

definition fat32_sync :: "'s store \<Rightarrow> fat32_geom \<Rightarrow> ('s fat, unit) io" where
  "fat32_sync st g =
    (if v_readonly g then io_return ()
     else io_bind (io_get (\<lambda>fs. (fs_fsinfo_dirty fs, fs_free_count fs, fs_next_free fs))) (\<lambda>(dirty, free_count, next_free).
       io_bind (io_modify (\<lambda>fs. fs\<lparr>fs_fsinfo_dirty := False\<rparr>)) (\<lambda>_.
         io_bind (io_try (if dirty \<and> v_fsinfo_lba g \<noteq> 0
                          then fs_edit st (v_fsinfo_lba g) (\<lambda>sec. Some (put32 492 next_free (put32 488 free_count sec)))
                          else io_return [])) (\<lambda>r.
           case r of
             Inl e \<Rightarrow> io_bind (io_modify (\<lambda>fs. fs\<lparr>fs_fsinfo_dirty := True\<rparr>)) (\<lambda>_. io_fail e)
           | Inr _ \<Rightarrow> fs_lift (st_sync st)))))"

definition fat32_unmount :: "'s store \<Rightarrow> fat32_geom \<Rightarrow> ('s fat, unit) io" where
  "fat32_unmount st g =
    io_bind (io_get fs_open_nodes) (\<lambda>open_nodes.
      if open_nodes \<noteq> 0 then io_fail EBUSY else fat32_sync st g)"

definition fat32_label :: "fat32_geom \<Rightarrow> u8 list" where
  "fat32_label g = v_label g"

definition fat32_cluster_count :: "fat32_geom \<Rightarrow> nat" where
  "fat32_cluster_count g = v_clusters g"

definition fat32_cluster_size :: "fat32_geom \<Rightarrow> nat" where
  "fat32_cluster_size g = v_spc g * BLK_SECTOR_SIZE"

definition fat32_readonly :: "fat32_geom \<Rightarrow> bool" where
  "fat32_readonly g = v_readonly g"

end
