(* ===== verification/FatAlloc.thy ===== *)
theory FatAlloc
  imports Fat
begin

text \<open>
  The file allocation table keeps its promises: allocation hands out a free cluster and changes
  nothing else, it fails for lack of space only when every cluster is taken, and freeing a chain
  frees exactly its clusters.  The lemmas are proved for any device that keeps the contract of
  \<open>sector_store\<close>.
\<close>

section \<open>Geometry and views\<close>

definition geom_ok :: "fat32_geom \<Rightarrow> bool" where
  "geom_ok g \<longleftrightarrow>
     1 \<le> v_num_fats g \<and> v_fat_active g < v_num_fats g \<and> (v_mirror g \<longrightarrow> v_fat_active g = 0) \<and>
     v_fat_lba g = v_fat0_lba g + v_fat_active g * v_fat_size g \<and> v_clusters g + 2 \<le> v_fat_size g * 128 \<and>
     v_data_lba g = v_fat0_lba g + v_num_fats g * v_fat_size g \<and> v_clusters g \<le> FAT32_MAX_CLUSTERS \<and>
     1 \<le> v_clusters g \<and> is_cluster g (v_root_cluster g) \<and> v_fsinfo_lba g < v_fat0_lba g \<and> v_spc_shift g \<le> 7"

text \<open>The entry of a cluster in a copy of the FAT, and in the copy that is read.\<close>

definition fat_of :: "fat32_geom \<Rightarrow> (nat \<Rightarrow> u8 list) \<Rightarrow> nat \<Rightarrow> nat \<Rightarrow> nat" where
  "fat_of g v copy c = fat_value (v (v_fat0_lba g + copy * v_fat_size g + c div 128)) c"

definition fat_act :: "fat32_geom \<Rightarrow> (nat \<Rightarrow> u8 list) \<Rightarrow> nat \<Rightarrow> nat" where
  "fat_act g v c = fat_of g v (v_fat_active g) c"

text \<open>The copies that are kept up to date.\<close>

definition live_copy :: "fat32_geom \<Rightarrow> nat \<Rightarrow> bool" where
  "live_copy g copy \<longleftrightarrow> copy < v_num_fats g \<and> (v_mirror g \<or> copy = v_fat_active g)"

text \<open>Only the entries of the clusters \<open>C\<close> may have changed.\<close>

definition only_fat :: "fat32_geom \<Rightarrow> nat set \<Rightarrow> (nat \<Rightarrow> u8 list) \<Rightarrow> (nat \<Rightarrow> u8 list) \<Rightarrow> bool" where
  "only_fat g C v v' \<longleftrightarrow>
     (\<forall>copy c. copy < v_num_fats g \<longrightarrow> is_cluster g c \<longrightarrow> c \<notin> C \<longrightarrow> fat_of g v' copy c = fat_of g v copy c) \<and>
     (\<forall>a. a < v_fat0_lba g \<or> v_data_lba g \<le> a \<longrightarrow> v' a = v a)"

lemma only_fat_refl [simp]: "only_fat g C v v"
  by (simp add: only_fat_def)

lemma only_fat_trans: "only_fat g C v v1 \<Longrightarrow> only_fat g D v1 v2 \<Longrightarrow> C \<subseteq> E \<Longrightarrow> D \<subseteq> E \<Longrightarrow> only_fat g E v v2"
  unfolding only_fat_def by (metis subsetD)

lemma only_fat_act: "only_fat g C v v' \<Longrightarrow> geom_ok g \<Longrightarrow> is_cluster g c \<Longrightarrow> c \<notin> C \<Longrightarrow> fat_act g v' c = fat_act g v c"
  by (simp add: only_fat_def fat_act_def geom_ok_def)

lemma live_active: "geom_ok g \<Longrightarrow> live_copy g (v_fat_active g)"
  by (simp add: live_copy_def geom_ok_def)

section \<open>One entry of a sector\<close>

lemma length_fat_change [simp]: "length (fat_change c v sec) = length sec"
  by (simp add: fat_change_def)

lemma le32_bound: "le32 p i < 2 ^ 32"
proof -
  have "unat (p ! j) < 256" for j using unsigned_less [of "p ! j"] by simp
  from this [of i] this [of "i + 1"] this [of "i + 2"] this [of "i + 3"] show ?thesis by (simp add: le32_def)
qed

lemma fat_value_change:
  assumes "length sec = BLK_SECTOR_SIZE"
  shows "fat_value (fat_change c v sec) c = v mod 2 ^ 28"
    and "c' mod 128 \<noteq> c mod 128 \<Longrightarrow> fat_value (fat_change c v sec) c' = fat_value sec c'"
proof -
  have m: "c mod 128 * 4 + 3 < length sec" using assms mod_less_divisor [of 128 c] by (simp add: BLK_SECTOR_SIZE_def)
  let ?old = "le32 sec (c mod 128 * 4)"
  have "?old div 2 ^ 28 \<le> 15"
    using le32_bound [of sec "c mod 128 * 4"] less_mult_imp_div_less [of ?old 16 "2 ^ 28"] by simp
  then have "?old div 2 ^ 28 * 2 ^ 28 + v mod 2 ^ 28 < 2 ^ 32"
    using mod_less_divisor [of "2 ^ 28" v] by simp
  then show "fat_value (fat_change c v sec) c = v mod 2 ^ 28"
    using m by (simp add: fat_value_def fat_change_def)
  show "fat_value (fat_change c v sec) c' = fat_value sec c'" if "c' mod 128 \<noteq> c mod 128"
  proof -
    from that have "c mod 128 * 4 + 3 < c' mod 128 * 4 \<or> c' mod 128 * 4 + 3 < c mod 128 * 4" by linarith
    then show ?thesis by (simp only: fat_value_def fat_change_def le32_put32_other)
  qed
qed

text \<open>Sectors of different copies, or of clusters 128 apart, are different.\<close>

lemma fat_sector_inj:
  assumes "geom_ok g" and "is_cluster g c" and "is_cluster g c'"
    and "v_fat0_lba g + copy * v_fat_size g + c div 128 = v_fat0_lba g + copy' * v_fat_size g + c' div 128"
  shows "copy = copy' \<and> c div 128 = c' div 128"
proof -
  have lt: "x div 128 < v_fat_size g" if "is_cluster g x" for x
    using that assms(1) by (auto simp: is_cluster_def geom_ok_def div_less_iff_less_mult)
  have eq: "copy * v_fat_size g + c div 128 = copy' * v_fat_size g + c' div 128" using assms(4) by simp
  have "copy = (copy * v_fat_size g + c div 128) div v_fat_size g" using lt [OF assms(2)] by simp
  also have "\<dots> = copy'" unfolding eq using lt [OF assms(3)] by simp
  finally show ?thesis using eq by simp
qed

lemma fat_sector_area:
  assumes "geom_ok g" and "is_cluster g c" and "copy < v_num_fats g"
  shows "v_fat0_lba g \<le> v_fat0_lba g + copy * v_fat_size g + c div 128" "v_fat0_lba g + copy * v_fat_size g + c div 128 < v_data_lba g"
proof -
  have "c div 128 < v_fat_size g" using assms(1,2) by (auto simp: is_cluster_def geom_ok_def div_less_iff_less_mult)
  then have "copy * v_fat_size g + c div 128 < (copy + 1) * v_fat_size g" by simp
  also have "\<dots> \<le> v_num_fats g * v_fat_size g" using assms(3) by (intro mult_right_mono) simp_all
  finally show "v_fat0_lba g + copy * v_fat_size g + c div 128 < v_data_lba g" using assms(1) by (simp add: geom_ok_def)
qed simp

text \<open>The view after one entry of one copy is written.\<close>

lemma fat_of_update:
  assumes g: "geom_ok g" "is_cluster g c" "copy < v_num_fats g" and len: "\<And>a. length (v a) = BLK_SECTOR_SIZE"
    and v': "v' = v(v_fat0_lba g + copy * v_fat_size g + c div 128 := fat_change c x (v (v_fat0_lba g + copy * v_fat_size g + c div 128)))"
  shows "is_cluster g c' \<Longrightarrow> fat_of g v' copy' c' = (if copy' = copy \<and> c' = c then x mod 2 ^ 28 else fat_of g v copy' c')"
    and "only_fat g {c} v v'"
proof -
  show upd: "fat_of g v' copy' c' = (if copy' = copy \<and> c' = c then x mod 2 ^ 28 else fat_of g v copy' c')"
    if "is_cluster g c'" for copy' c'
  proof (cases "v_fat0_lba g + copy' * v_fat_size g + c' div 128 = v_fat0_lba g + copy * v_fat_size g + c div 128")
    case True
    have same: "copy' = copy" "c' div 128 = c div 128" using fat_sector_inj [OF g(1) that g(2) True] by simp_all
    show ?thesis
    proof (cases "c' = c")
      case False
      then have "c' mod 128 \<noteq> c mod 128" using same(2) div_mod_eq_imp_eq by blast
      then show ?thesis using same False fat_value_change(2) [OF len] by (simp add: fat_of_def v')
    next
      case True
      then show ?thesis using same fat_value_change(1) [OF len] by (simp add: fat_of_def v')
    qed
  next
    case False
    then show ?thesis by (auto simp: fat_of_def v')
  qed
  show "only_fat g {c} v v'"
    using upd fat_sector_area [OF g] by (auto simp: only_fat_def v')
qed

section \<open>Operations on the FAT\<close>

text \<open>States that differ in the device only.\<close>

definition vol_same :: "'s fat \<Rightarrow> 's fat \<Rightarrow> bool" where
  "vol_same s s' \<longleftrightarrow> s' = s\<lparr>fs_dev := fs_dev s'\<rparr>"

lemma vol_same_refl [simp]: "vol_same s s"
  by (simp add: vol_same_def)

lemma vol_same_dev [simp]: "vol_same s (s\<lparr>fs_dev := d\<rparr>)"
  by (simp add: vol_same_def)

lemma vol_same_trans: "vol_same s t \<Longrightarrow> vol_same t u \<Longrightarrow> vol_same s u"
  by (cases s, cases t, cases u) (simp add: vol_same_def)

lemma vol_sameD:
  assumes "vol_same s t"
  shows "fs_free_count t = fs_free_count s" "fs_next_free t = fs_next_free s" "fs_fsinfo_dirty t = fs_fsinfo_dirty s"
    "fs_dir_busy t = fs_dir_busy s" "fs_open_nodes t = fs_open_nodes s" "fs_open_list t = fs_open_list s"
  using assms by (metis fat.select_convs fat.surjective fat.update_convs(1) vol_same_def)+

locale fat_volume = sector_store st inv view
  for st :: "'s store" and inv and view +
  fixes g :: fat32_geom
  assumes geom: "geom_ok g"
begin

abbreviation V :: "'s fat \<Rightarrow> nat \<Rightarrow> u8 list" where
  "V fs \<equiv> view (fs_dev fs)"

text \<open>A step that touches nothing but the device, and one that does not even change what it holds.\<close>

abbreviation dev_step :: "'s fat \<Rightarrow> 's fat \<Rightarrow> bool" where
  "dev_step s s' \<equiv> inv (fs_dev s') \<and> vol_same s s'"

abbreviation quiet :: "'s fat \<Rightarrow> 's fat \<Rightarrow> bool" where
  "quiet s s' \<equiv> dev_step s s' \<and> V s' = V s"

lemma V_length: "inv (fs_dev s) \<Longrightarrow> length (V s a) = BLK_SECTOR_SIZE"
  by (rule view_length)

lemma copy_fs:
  assumes "fs_copy st lba s = (r, s')" and "inv (fs_dev s)"
  shows "quiet s s' \<and> (\<forall>sec. r = Inr sec \<longrightarrow> sec = V s lba)"
proof -
  obtain d where "st_copy st lba (fs_dev s) = (r, d)" "s' = s\<lparr>fs_dev := d\<rparr>"
    using assms(1) by (auto simp: fs_copy_def fs_lift_def split: prod.splits)
  with copy_view [OF assms(2)] show ?thesis by simp
qed

lemma copy_triple:
  "triple (quiet s) (fs_copy st lba) (\<lambda>sec t. quiet s t \<and> sec = V s lba) (\<lambda>e. quiet s)"
proof (rule tripleI)
  fix t sec u assume t: "quiet s t" and run: "fs_copy st lba t = (Inr sec, u)"
  have "quiet t u \<and> sec = V t lba" using copy_fs [OF run] t by simp
  then show "quiet s u \<and> sec = V s lba" using t vol_same_trans [of s t u] by simp
next
  fix t e u assume t: "quiet s t" and run: "fs_copy st lba t = (Inl e, u)"
  have "quiet t u" using copy_fs [OF run] t by simp
  then show "quiet s u" using t vol_same_trans [of s t u] by simp
qed

lemma edit_fs:
  assumes "fs_edit st lba f s = (r, s')" and "inv (fs_dev s)" and "keeps_size f"
  shows "dev_step s s' \<and>
    (case r of Inl e \<Rightarrow> V s' = V s
     | Inr sec \<Rightarrow> sec = V s lba \<and> V s' = (case f (V s lba) of None \<Rightarrow> V s | Some new \<Rightarrow> (V s)(lba := new)))"
proof -
  obtain d where d: "st_edit st lba f (fs_dev s) = (r, d)" "s' = s\<lparr>fs_dev := d\<rparr>"
    using assms(1) by (auto simp: fs_edit_def fs_lift_def split: prod.splits)
  show ?thesis
  proof (cases r)
    case (Inl e)
    with edit_error [OF assms(2) d(1) [unfolded Inl]] d(2) show ?thesis by simp
  next
    case (Inr sec)
    with edit_ok [OF assms(2,3) d(1) [unfolded Inr]] d(2) show ?thesis by simp
  qed
qed

lemma fat_act_sector: "fat_act g (V s) c = fat_value (V s (v_fat_lba g + c div 128)) c"
  using geom by (simp add: fat_act_def fat_of_def geom_ok_def)

lemma fat_next_ok:
  assumes "fat_next st g c s = (r, s')" and "inv (fs_dev s)"
  shows "quiet s s' \<and> (r = Inr None \<longrightarrow> is_cluster g c \<and> fat_act g (V s) c \<ge> FAT32_EOC_MIN) \<and>
    (\<forall>n. r = Inr (Some n) \<longrightarrow> is_cluster g c \<and> is_cluster g n \<and> fat_act g (V s) c = n)"
proof (cases "is_cluster g c")
  case True
  obtain q t where q: "fs_copy st (v_fat_lba g + c div 128) s = (q, t)" by force
  have t: "quiet s t" "\<And>sec. q = Inr sec \<Longrightarrow> fat_value sec c = fat_act g (V s) c"
    using copy_fs [OF q assms(2)] by (auto simp: fat_act_sector)
  show ?thesis
  proof (cases q)
    case (Inl e)
    then show ?thesis using assms(1) True q t(1) by (auto simp: fat_next_def io_bind_def)
  next
    case (Inr sec)
    then show ?thesis using assms(1) True q t
      by (auto simp: fat_next_def io_bind_def io_return_def io_fail_def Let_def split: if_splits)
  qed
next
  case False
  then show ?thesis using assms by (auto simp: fat_next_def io_fail_def)
qed

lemma put_copy_ok:
  assumes "fat_put_copy st g copy c x s = (r, s')" and "inv (fs_dev s)" and "is_cluster g c" and "copy < v_num_fats g"
  shows "dev_step s s' \<and> only_fat g {c} (V s) (V s') \<and>
    (\<forall>copy'. fat_of g (V s') copy' c = (if copy' = copy \<and> r = Inr () then x mod 2 ^ 28 else fat_of g (V s) copy' c))"
proof -
  let ?lba = "v_fat0_lba g + copy * v_fat_size g + c div 128"
  let ?f = "\<lambda>sec. Some (fat_change c x sec)"
  obtain q t where q: "fs_edit st ?lba ?f s = (q, t)" by force
  have k: "keeps_size ?f" by (simp add: keeps_size_def)
  note e = edit_fs [OF q assms(2) k]
  show ?thesis
  proof (cases q)
    case (Inl err)
    then show ?thesis using assms(1) q e by (auto simp: fat_put_copy_def io_bind_def)
  next
    case (Inr sec)
    then have r: "r = Inr ()" "s' = t" using assms(1) q by (auto simp: fat_put_copy_def io_bind_def io_return_def)
    have "V s' = (V s)(?lba := fat_change c x (V s ?lba))" using e Inr r by simp
    note fat_of_update [OF geom assms(3,4) V_length [OF assms(2)] this]
    then show ?thesis using e r assms(3) by auto
  qed
qed

lemma put_copies_ok:
  assumes "io_for copies (\<lambda>copy _. fat_put_copy st g copy c x) () s = (r, s')" and "inv (fs_dev s)" and "is_cluster g c"
    and "\<forall>copy \<in> set copies. copy < v_num_fats g"
  shows "dev_step s s' \<and> only_fat g {c} (V s) (V s') \<and>
    (\<forall>copy. copy \<notin> set copies \<longrightarrow> fat_of g (V s') copy c = fat_of g (V s) copy c) \<and>
    (r = Inr () \<longrightarrow> (\<forall>copy \<in> set copies. fat_of g (V s') copy c = x mod 2 ^ 28))"
  using assms
proof (induction copies arbitrary: s)
  case Nil
  then show ?case by (auto simp: io_return_def)
next
  case (Cons copy copies)
  obtain q t where q: "fat_put_copy st g copy c x s = (q, t)" by force
  note one = put_copy_ok [OF q Cons.prems(2,3)]
  show ?case
  proof (cases q)
    case (Inl e)
    then show ?thesis using Cons.prems q one by (auto simp: io_bind_def)
  next
    case (Inr u)
    then have rest: "io_for copies (\<lambda>copy _. fat_put_copy st g copy c x) () t = (r, s')"
      using Cons.prems(1) q by (simp add: io_bind_def)
    have "inv (fs_dev t)" using one Cons.prems(4) by simp
    note ih = Cons.IH [OF rest this Cons.prems(3)]
    have "only_fat g {c} (V s) (V s')"
      using one ih Cons.prems(4) by (auto elim: only_fat_trans)
    moreover have "dev_step s s'" using one ih Cons.prems(4) by (auto elim: vol_same_trans)
    ultimately show ?thesis using one ih Cons.prems(4) Inr by auto
  qed
qed

lemma fat_set_ok:
  assumes "fat_set st g c x s = (r, s')" and "inv (fs_dev s)"
  shows "dev_step s s' \<and> only_fat g {c} (V s) (V s') \<and>
    (r = Inr () \<longrightarrow> is_cluster g c \<and> (\<forall>copy. live_copy g copy \<longrightarrow> fat_of g (V s') copy c = x mod 2 ^ 28))"
proof (cases "is_cluster g c")
  case True
  show ?thesis
  proof (cases "v_mirror g")
    case True
    then have "io_for [0..<v_num_fats g] (\<lambda>copy _. fat_put_copy st g copy c x) () s = (r, s')"
      using assms(1) \<open>is_cluster g c\<close> by (simp add: fat_set_def)
    from put_copies_ok [OF this assms(2) \<open>is_cluster g c\<close>] show ?thesis
      using True \<open>is_cluster g c\<close> by (auto simp: live_copy_def)
  next
    case False
    then have "fat_put_copy st g (v_fat_active g) c x s = (r, s')"
      using assms(1) \<open>is_cluster g c\<close> by (simp add: fat_set_def)
    moreover have "v_fat_active g < v_num_fats g" using geom by (simp add: geom_ok_def)
    ultimately show ?thesis
      using put_copy_ok assms(2) \<open>is_cluster g c\<close> False by (auto simp: live_copy_def)
  qed
next
  case False
  then show ?thesis using assms by (auto simp: fat_set_def io_fail_def)
qed

end

section \<open>Allocation\<close>

definition free_set :: "fat32_geom \<Rightarrow> (nat \<Rightarrow> u8 list) \<Rightarrow> nat set" where
  "free_set g v = {c. is_cluster g c \<and> fat_act g v c = 0}"

lemma finite_free_set [simp]: "finite (free_set g v)"
  by (rule finite_subset [of _ "{..<v_clusters g + 2}"]) (auto simp: free_set_def is_cluster_def)

lemma card_free_set: "card (free_set g v) \<le> v_clusters g"
proof -
  have "free_set g v \<subseteq> {2..<v_clusters g + 2}" by (auto simp: free_set_def is_cluster_def)
  then have "card (free_set g v) \<le> card {2..<v_clusters g + 2}" by (intro card_mono) simp_all
  then show ?thesis by simp
qed

lemma find_free_Some:
  assumes "find_free cl span sec = Some c"
  shows "cl \<le> c" "c < cl + span" "fat_value sec c = 0"
  using find_SomeD [OF assms [unfolded find_free_def]] by auto

lemma find_free_None: "find_free cl span sec = None \<Longrightarrow> cl \<le> c \<Longrightarrow> c < cl + span \<Longrightarrow> fat_value sec c \<noteq> 0"
  by (auto simp: find_free_def find_None_iff)

lemma alloc_span_sector:
  assumes "cl \<le> c" and "c < cl + alloc_span g cl remaining"
  shows "c div 128 = cl div 128"
proof -
  have "alloc_span g cl remaining \<le> 128 - cl mod 128" by (auto simp: alloc_span_def Let_def)
  then have "c < cl + (128 - cl mod 128)" using assms(2) by linarith
  moreover have "cl + (128 - cl mod 128) = (cl div 128 + 1) * 128"
    by presburger
  ultimately have "c div 128 < cl div 128 + 1" by (metis less_mult_imp_div_less)
  moreover have "cl div 128 \<le> c div 128" using assms(1) by (rule div_le_mono)
  ultimately show ?thesis by simp
qed

lemma alloc_span_cluster:
  "is_cluster g cl \<Longrightarrow> cl \<le> c \<Longrightarrow> c < cl + alloc_span g cl remaining \<Longrightarrow> is_cluster g c"
  by (auto simp: is_cluster_def alloc_span_def Let_def split: if_splits)

lemma note_alloc_dev [simp]: "fs_dev (note_alloc g c s) = fs_dev s"
  by (simp add: note_alloc_def)

lemma note_alloc_same: "vol_same s t \<Longrightarrow> vol_same (note_alloc g c s) (note_alloc g c t)"
  by (cases s; cases t) (simp add: vol_same_def note_alloc_def)

text \<open>What an allocation does, whatever its result: at most one free cluster is touched.\<close>

definition alloc_frame :: "fat32_geom \<Rightarrow> (nat \<Rightarrow> u8 list) \<Rightarrow> (nat \<Rightarrow> u8 list) \<Rightarrow> bool" where
  "alloc_frame g v v' \<longleftrightarrow> (\<exists>c \<in> free_set g v. only_fat g {c} v v') \<or> v' = v"

context fat_volume
begin

lemma alloc_mirror_ok:
  assumes "alloc_mirror st g found copies s = (r, s')" and "inv (fs_dev s)" and "is_cluster g found"
    and "\<forall>copy \<in> set copies. copy < v_num_fats g"
  shows "inv (fs_dev s') \<and> only_fat g {found} (V s) (V s') \<and>
    (\<forall>c. r = Inr c \<longrightarrow> c = found \<and> vol_same s s' \<and>
      (\<forall>copy. fat_of g (V s') copy found =
        (if copy \<in> set copies \<and> copy \<noteq> v_fat_active g then FAT32_EOC else fat_of g (V s) copy found)))"
  using assms
proof (induction copies arbitrary: s)
  case Nil
  then show ?case by (auto simp: io_return_def)
next
  case (Cons copy copies)
  show ?case
  proof (cases "copy = v_fat_active g")
    case True
    then show ?thesis using Cons.IH [of s] Cons.prems by auto
  next
    case False
    obtain q t where q: "fat_put_copy st g copy found FAT32_EOC s = (q, t)" by force
    have one: "dev_step s t \<and> only_fat g {found} (V s) (V t) \<and> (\<forall>copy'. fat_of g (V t) copy' found =
        (if copy' = copy \<and> q = Inr () then FAT32_EOC else fat_of g (V s) copy' found))"
      using put_copy_ok [OF q Cons.prems(2,3)] Cons.prems(4) by (simp add: FAT32_EOC_def)
    show ?thesis
    proof (cases q)
      case (Inl e)
      obtain q2 u where u: "fat_put_copy st g (v_fat_active g) found 0 t = (q2, u)" by force
      have "dev_step t u \<and> only_fat g {found} (V t) (V u)"
        using put_copy_ok [OF u] one Cons.prems(3) geom by (simp add: geom_ok_def)
      moreover have "r = Inl e" "fs_dev s' = fs_dev u"
        using Cons.prems(1) False q Inl u by (auto simp: io_bind_def io_try_def io_modify_def io_fail_def)
      ultimately show ?thesis using one by (auto elim: only_fat_trans)
    next
      case (Inr x)
      then have rest: "alloc_mirror st g found copies t = (r, s')"
        using Cons.prems(1) False q by (simp add: io_bind_def io_try_def)
      have i: "inv (fs_dev t)" "\<forall>copy \<in> set copies. copy < v_num_fats g" using one Cons.prems(4) by simp_all
      note ih = Cons.IH [OF rest i(1) Cons.prems(3) i(2)]
      have "only_fat g {found} (V s) (V s')" using one ih by (blast intro: only_fat_trans)
      with ih one Inr False show ?thesis by (auto elim: vol_same_trans)
    qed
  qed
qed

lemma alloc_found_ok:
  assumes edit: "fs_edit st (v_fat_lba g + cl div 128)
      (\<lambda>sec. map_option (\<lambda>c. fat_change c FAT32_EOC sec) (find_free cl span sec)) s = (Inr sec, t)"
    and s: "inv (fs_dev s)" and cl: "is_cluster g cl" "span = alloc_span g cl remaining" and c: "find_free cl span sec = Some c"
  shows "is_cluster g c \<and> fat_act g (V s) c = 0 \<and> dev_step s t \<and> only_fat g {c} (V s) (V t) \<and>
    (\<forall>copy. fat_of g (V t) copy c = (if copy = v_fat_active g then FAT32_EOC else fat_of g (V s) copy c))"
proof -
  let ?f = "\<lambda>sec. map_option (\<lambda>c. fat_change c FAT32_EOC sec) (find_free cl span sec)"
  have k: "keeps_size ?f" by (auto simp: keeps_size_def)
  have e: "dev_step s t" "sec = V s (v_fat_lba g + cl div 128)"
      "V t = (V s)(v_fat_lba g + cl div 128 := fat_change c FAT32_EOC (V s (v_fat_lba g + cl div 128)))"
    using edit_fs [OF edit s k] c by auto
  note f = find_free_Some [OF c]
  have sector: "c div 128 = cl div 128" and ic: "is_cluster g c"
    using f cl alloc_span_sector alloc_span_cluster by blast+
  have active: "v_fat_active g < v_num_fats g" "v_fat_lba g + cl div 128 = v_fat0_lba g + v_fat_active g * v_fat_size g + c div 128"
    using geom sector by (simp_all add: geom_ok_def)
  note u = fat_of_update [OF geom ic active(1) V_length [OF s] e(3) [unfolded active(2)]]
  have "fat_act g (V s) c = 0" using f(3) e(2) sector by (simp add: fat_act_sector)
  then show ?thesis using e(1) ic u by (auto simp: FAT32_EOC_def)
qed

lemma alloc_miss_ok:
  assumes edit: "fs_edit st (v_fat_lba g + cl div 128)
      (\<lambda>sec. map_option (\<lambda>c. fat_change c FAT32_EOC sec) (find_free cl span sec)) s = (r, t)"
    and s: "inv (fs_dev s)" and cl: "is_cluster g cl" "span = alloc_span g cl remaining"
    and r: "case r of Inl e \<Rightarrow> True | Inr sec \<Rightarrow> find_free cl span sec = None"
  shows "quiet s t \<and> (\<forall>sec. r = Inr sec \<longrightarrow> (\<forall>c. cl \<le> c \<and> c < cl + span \<longrightarrow> fat_act g (V s) c \<noteq> 0))"
proof -
  let ?f = "\<lambda>sec. map_option (\<lambda>c. fat_change c FAT32_EOC sec) (find_free cl span sec)"
  have k: "keeps_size ?f" by (auto simp: keeps_size_def)
  have "fat_act g (V s) c \<noteq> 0" if "find_free cl span (V s (v_fat_lba g + cl div 128)) = None" "cl \<le> c" "c < cl + span" for c
    using find_free_None [OF that] alloc_span_sector [of cl c g remaining] that cl(2) by (simp add: fat_act_sector)
  then show ?thesis using edit_fs [OF edit s k] r by (auto split: sum.splits)
qed

text \<open>One round of the search, by cases: the device fails, a free entry is found, or none is.\<close>

lemma alloc_round:
  assumes run: "alloc_loop st g cl remaining s = (r, s')" and s: "inv (fs_dev s)" and cl: "is_cluster g cl" and n: "remaining \<noteq> 0"
  obtains (error) e where "r = Inl e" "quiet s s'" "\<exists>lba f d d'. st_edit st lba f d = (Inl e, d')"
  | (found) c t where "is_cluster g c" "fat_act g (V s) c = 0" "dev_step s t" "only_fat g {c} (V s) (V t)"
      "\<And>copy. fat_of g (V t) copy c = (if copy = v_fat_active g then FAT32_EOC else fat_of g (V s) copy c)"
      "(if v_mirror g then alloc_mirror st g c [0..<v_num_fats g] else io_return c) (note_alloc g c t) = (r, s')"
  | (miss) t where "quiet s t" "\<And>c. cl \<le> c \<Longrightarrow> c < cl + alloc_span g cl remaining \<Longrightarrow> fat_act g (V s) c \<noteq> 0"
      "alloc_loop st g (if cl + alloc_span g cl remaining \<ge> v_clusters g + 2 then 2 else cl + alloc_span g cl remaining)
         (remaining - alloc_span g cl remaining) t = (r, s')"
proof -
  let ?span = "alloc_span g cl remaining"
  let ?f = "\<lambda>sec. map_option (\<lambda>c. fat_change c FAT32_EOC sec) (find_free cl ?span sec)"
  obtain q t where q: "fs_edit st (v_fat_lba g + cl div 128) ?f s = (q, t)" by force
  note run' = run [unfolded alloc_loop.simps [of st g cl remaining] Let_def]
  show thesis
  proof (cases q)
    case (Inl e)
    then have "r = Inl e" "s' = t" using run' n q by (simp_all add: io_bind_def)
    moreover have "\<exists>lba f d d'. st_edit st lba f d = (Inl e, d')"
      using q Inl by (auto simp: fs_edit_def fs_lift_def split: prod.splits)
    ultimately show thesis using error alloc_miss_ok [OF q s cl refl] Inl by simp
  next
    case (Inr sec)
    show thesis
    proof (cases "find_free cl ?span sec")
      case None
      then have "alloc_loop st g (if cl + ?span \<ge> v_clusters g + 2 then 2 else cl + ?span) (remaining - ?span) t = (r, s')"
        using run' n q Inr by (simp add: io_bind_def)
      then show thesis using miss alloc_miss_ok [OF q s cl refl] Inr None by auto
    next
      case (Some c)
      then have "(if v_mirror g then alloc_mirror st g c [0..<v_num_fats g] else io_return c) (note_alloc g c t) = (r, s')"
        using run' n q Inr by (simp add: io_bind_def io_modify_def)
      then show thesis using found alloc_found_ok [OF q [unfolded Inr] s cl refl Some] by blast
    qed
  qed
qed

lemma alloc_step_cluster: "is_cluster g (if cl + span \<ge> v_clusters g + 2 then 2 else cl + span)" if "is_cluster g cl"
  using geom that by (auto simp: is_cluster_def geom_ok_def)

lemma alloc_tail_ok:
  assumes c: "is_cluster g c" "fat_act g (V s) c = 0" "dev_step s t" "only_fat g {c} (V s) (V t)"
      "\<And>copy. fat_of g (V t) copy c = (if copy = v_fat_active g then FAT32_EOC else fat_of g (V s) copy c)"
    and run: "(if v_mirror g then alloc_mirror st g c [0..<v_num_fats g] else io_return c) (note_alloc g c t) = (r, s')"
  shows "inv (fs_dev s') \<and> only_fat g {c} (V s) (V s') \<and>
    (\<forall>x. r = Inr x \<longrightarrow> x = c \<and> vol_same (note_alloc g c s) s' \<and> (\<forall>copy. live_copy g copy \<longrightarrow> fat_of g (V s') copy c = FAT32_EOC))"
proof (cases "v_mirror g")
  case True
  have run': "alloc_mirror st g c [0..<v_num_fats g] (note_alloc g c t) = (r, s')" using run True by simp
  have i: "inv (fs_dev (note_alloc g c t))" "\<forall>copy \<in> set [0..<v_num_fats g]. copy < v_num_fats g" using c(3) by simp_all
  note m = alloc_mirror_ok [OF run' i(1) c(1) i(2), unfolded note_alloc_dev]
  have "only_fat g {c} (V s) (V s')" using m c(4) by (blast intro: only_fat_trans)
  moreover have "vol_same (note_alloc g c s) s'" if "vol_same (note_alloc g c t) s'"
    using c(3) that note_alloc_same vol_same_trans by blast
  ultimately show ?thesis using m c(5) by (auto simp: live_copy_def)
next
  case False
  then show ?thesis using run c by (auto simp: io_return_def live_copy_def note_alloc_same)
qed

lemma alloc_loop_ok:
  assumes "alloc_loop st g cl remaining s = (r, s')" and "inv (fs_dev s)" and "is_cluster g cl"
  shows "inv (fs_dev s') \<and> alloc_frame g (V s) (V s') \<and>
    (\<forall>c. r = Inr c \<longrightarrow> c \<in> free_set g (V s) \<and> only_fat g {c} (V s) (V s') \<and> vol_same (note_alloc g c s) s' \<and>
      (\<forall>copy. live_copy g copy \<longrightarrow> fat_of g (V s') copy c = FAT32_EOC))"
  using assms
proof (induction remaining arbitrary: cl s rule: less_induct)
  case (less remaining)
  show ?case
  proof (cases "remaining = 0")
    case True
    then show ?thesis using less.prems by (subst (asm) alloc_loop.simps) (auto simp: io_fail_def alloc_frame_def)
  next
    case False
    from less.prems False show ?thesis
    proof (cases rule: alloc_round)
      case (error e)
      then show ?thesis by (simp add: alloc_frame_def)
    next
      case (found c t)
      have "c \<in> free_set g (V s)" using found(1,2) by (simp add: free_set_def)
      then show ?thesis using alloc_tail_ok [OF found] by (auto simp: alloc_frame_def)
    next
      case (miss t)
      have "remaining - alloc_span g cl remaining < remaining" using alloc_span_pos False by simp
      note ih = less.IH [OF this miss(3) _ alloc_step_cluster [OF less.prems(3)]]
      have "vol_same (note_alloc g c s) s'" if "vol_same (note_alloc g c t) s'" for c
        using miss(1) that note_alloc_same vol_same_trans by blast
      then show ?thesis using ih miss(1) by auto
    qed
  qed
qed

lemma put_copy_error: "fat_put_copy st g copy c x s = (Inl e, s') \<Longrightarrow> \<exists>lba f d d'. st_edit st lba f d = (Inl e, d')"
  by (auto simp: fat_put_copy_def fs_edit_def fs_lift_def io_bind_def io_return_def split: prod.splits sum.splits)

lemma alloc_mirror_error:
  "alloc_mirror st g c copies s = (Inl e, s') \<Longrightarrow> \<exists>lba f d d'. st_edit st lba f d = (Inl e, d')"
proof (induction copies arbitrary: s)
  case (Cons copy copies)
  then show ?case
    by (auto simp: io_bind_def io_try_def io_modify_def io_fail_def split: if_splits prod.splits sum.splits dest: put_copy_error)
qed (simp add: io_return_def)

text \<open>The search visits the clusters in circular order, and gives up only after \<open>remaining\<close> of them.\<close>

lemma alloc_loop_full:
  assumes "alloc_loop st g cl remaining s = (Inl ENOSPC, s')" and "inv (fs_dev s)" and "is_cluster g cl"
    and dev: "\<And>lba f d d'. st_edit st lba f d \<noteq> (Inl ENOSPC, d')" and "i < remaining"
  shows "fat_act g (V s) (2 + (cl - 2 + i) mod v_clusters g) \<noteq> 0"
  using assms
proof (induction remaining arbitrary: cl s i rule: less_induct)
  case (less remaining)
  let ?span = "alloc_span g cl remaining" and ?N = "v_clusters g"
  have n: "remaining \<noteq> 0" using less.prems(5) by simp
  have span: "cl + ?span \<le> ?N + 2" "0 < ?span" "2 \<le> cl"
    using less.prems(3) alloc_span_pos [of remaining g cl] n
    by (auto simp: is_cluster_def alloc_span_def Let_def min_def)
  from less.prems(1-3) n show ?case
  proof (cases rule: alloc_round)
    case (error e)
    then show ?thesis using dev by blast
  next
    case (found c t)
    then have "\<exists>lba f d d'. st_edit st lba f d = (Inl ENOSPC, d')"
      by (auto simp: io_return_def split: if_splits dest: alloc_mirror_error)
    then show ?thesis using dev by blast
  next
    case (miss t)
    show ?thesis
    proof (cases "i < ?span")
      case True
      then have "(cl - 2 + i) mod ?N = cl - 2 + i" using span by (intro mod_less) linarith
      then have "2 + (cl - 2 + i) mod ?N = cl + i" using span(3) by simp
      then show ?thesis using miss(2) [of "cl + i"] True by simp
    next
      case False
      define cl' where "cl' = (if cl + ?span \<ge> ?N + 2 then 2 else cl + ?span)"
      have "fat_act g (V t) (2 + (cl' - 2 + (i - ?span)) mod ?N) \<noteq> 0"
      proof (rule less.IH)
        show "remaining - ?span < remaining" using span(2) n by simp
        show "alloc_loop st g cl' (remaining - ?span) t = (Inl ENOSPC, s')" unfolding cl'_def by (rule miss(3))
        show "inv (fs_dev t)" using miss(1) by simp
        show "is_cluster g cl'" unfolding cl'_def by (rule alloc_step_cluster) (rule less.prems(3))
        show "i - ?span < remaining - ?span" using less.prems(5) False by simp
      qed (rule dev)
      moreover have "(cl' - 2 + (i - ?span)) mod ?N = (cl - 2 + i) mod ?N"
      proof (cases "cl + ?span \<ge> ?N + 2")
        case True
        then have "cl - 2 + i = ?N + (i - ?span)" using span False by linarith
        then show ?thesis using True by (simp add: cl'_def)
      next
        case False
        then have "cl' - 2 + (i - ?span) = cl - 2 + i" using span \<open>\<not> i < ?span\<close> by (simp add: cl'_def)
        then show ?thesis by simp
      qed
      ultimately show ?thesis using miss(1) by simp
    qed
  qed
qed

lemma alloc_start: "is_cluster g (if is_cluster g cl then cl else 2)"
  using geom by (simp add: is_cluster_def geom_ok_def)

lemma cluster_alloc_ok:
  assumes "cluster_alloc st g s = (r, s')" and "inv (fs_dev s)"
  shows "inv (fs_dev s') \<and> alloc_frame g (V s) (V s') \<and>
    (\<forall>c. r = Inr c \<longrightarrow> c \<in> free_set g (V s) \<and> only_fat g {c} (V s) (V s') \<and> vol_same (note_alloc g c s) s' \<and>
      (\<forall>copy. live_copy g copy \<longrightarrow> fat_of g (V s') copy c = FAT32_EOC))"
proof (cases "v_readonly g")
  case True
  then show ?thesis using assms by (auto simp: cluster_alloc_def io_fail_def alloc_frame_def)
next
  case False
  then have "alloc_loop st g (if is_cluster g (fs_next_free s) then fs_next_free s else 2) (v_clusters g) s = (r, s')"
    using assms(1) by (simp add: cluster_alloc_def io_bind_def io_get_def)
  from alloc_loop_ok [OF this assms(2) alloc_start] show ?thesis .
qed

lemma cluster_alloc_none:
  assumes run: "cluster_alloc st g s = (Inl ENOSPC, s')" and s: "inv (fs_dev s)" and dev: "\<And>lba f d d'. st_edit st lba f d \<noteq> (Inl ENOSPC, d')"
  shows "free_set g (V s) = {}"
proof -
  let ?cl = "if is_cluster g (fs_next_free s) then fs_next_free s else 2" and ?N = "v_clusters g"
  have loop: "alloc_loop st g ?cl ?N s = (Inl ENOSPC, s')"
    using run by (auto simp: cluster_alloc_def io_bind_def io_get_def io_fail_def split: if_splits)
  have "fat_act g (V s) c \<noteq> 0" if c: "is_cluster g c" for c
  proof -
    define i where "i = (c - 2 + ?N - (?cl - 2)) mod ?N"
    have cl: "?cl - 2 < ?N" "c - 2 < ?N" "0 < ?N" "2 \<le> c"
      using alloc_start [of "fs_next_free s"] c geom by (auto simp: is_cluster_def geom_ok_def)
    have "(?cl - 2 + i) mod ?N = (?cl - 2 + (c - 2 + ?N - (?cl - 2))) mod ?N" by (simp add: i_def mod_add_right_eq)
    also have "?cl - 2 + (c - 2 + ?N - (?cl - 2)) = c - 2 + ?N" using cl by linarith
    also have "(c - 2 + ?N) mod ?N = c - 2" using cl by (simp only: mod_add_self2 mod_less)
    finally have "2 + (?cl - 2 + i) mod ?N = c" using cl(4) by simp
    moreover have "i < ?N" using cl by (simp add: i_def)
    ultimately show ?thesis using alloc_loop_full [OF loop s alloc_start dev, of i] by metis
  qed
  then show ?thesis by (auto simp: free_set_def)
qed

end

end
