(* ===== verification/FatChain.thy ===== *)
theory FatChain
  imports FatAlloc
begin

text \<open>
  Cluster chains: the files of a volume as lists of clusters linked by the FAT.  Freeing a chain
  frees exactly its clusters, growing one appends a free cluster, and neither touches another
  file; the count of free clusters stays exact.
\<close>

section \<open>Chains\<close>

fun is_chain :: "fat32_geom \<Rightarrow> (nat \<Rightarrow> nat) \<Rightarrow> nat list \<Rightarrow> bool" where
  "is_chain g f [] = False"
| "is_chain g f [c] = (is_cluster g c \<and> f c \<ge> FAT32_EOC_MIN)"
| "is_chain g f (c # d # cs) = (is_cluster g c \<and> f c = d \<and> is_chain g f (d # cs))"

lemma is_chain_cluster: "is_chain g f cs \<Longrightarrow> c \<in> set cs \<Longrightarrow> is_cluster g c"
  by (induction g f cs rule: is_chain.induct) auto

lemma is_chain_suffix: "is_chain g f (xs @ c # ys) \<Longrightarrow> is_chain g f (c # ys)"
proof (induction xs)
  case (Cons x xs)
  then show ?case by (cases xs) auto
qed simp

lemma cluster_not_eoc: "geom_ok g \<Longrightarrow> is_cluster g c \<Longrightarrow> c < FAT32_EOC_MIN"
  by (auto simp: geom_ok_def is_cluster_def FAT32_MAX_CLUSTERS_def FAT32_EOC_MIN_def)

lemma is_chain_unique:
  assumes "geom_ok g" and "is_chain g f (c # cs)" and "is_chain g f (c # ds)"
  shows "cs = ds"
  using assms(2,3)
proof (induction cs arbitrary: c ds)
  case Nil
  then show ?case using cluster_not_eoc [OF assms(1)] is_chain_cluster [of g f ds] by (cases ds) (auto, force)
next
  case (Cons d cs)
  have "is_cluster g d" using Cons.prems(1) is_chain_cluster by (metis is_chain.simps(3) list.set_intros(1))
  then have "f c < FAT32_EOC_MIN" using Cons.prems(1) cluster_not_eoc [OF assms(1)] by simp
  then have "ds \<noteq> []" using Cons.prems(2) by auto
  then show ?case using Cons by (cases ds) auto
qed

lemma is_chain_Cons: "is_chain g f (c # cs) \<Longrightarrow> cs \<noteq> [] \<Longrightarrow> is_chain g f cs"
  by (cases cs) auto

lemma is_chain_distinct:
  assumes g: "geom_ok g" and "is_chain g f cs"
  shows "distinct cs"
  using assms(2)
proof (induction cs)
  case (Cons c cs)
  have "c \<notin> set cs"
  proof
    assume "c \<in> set cs"
    then obtain xs ys where split: "cs = xs @ c # ys" by (meson split_list)
    then have "is_chain g f (c # ys)" using Cons.prems is_chain_suffix [of g f "c # xs" c ys] by simp
    then have "cs = ys" using is_chain_unique [OF g Cons.prems] by simp
    with split show False by simp
  qed
  then show ?case using Cons is_chain_Cons by (cases "cs = []") auto
qed simp

lemma is_chain_length:
  assumes "geom_ok g" and "is_chain g f cs"
  shows "length cs \<le> v_clusters g"
proof -
  have "set cs \<subseteq> {2..<v_clusters g + 2}" using is_chain_cluster [OF assms(2)] by (auto simp: is_cluster_def)
  then have "card (set cs) \<le> card {2..<v_clusters g + 2}" by (intro card_mono) simp_all
  then show ?thesis using is_chain_distinct [OF assms] by (simp add: distinct_card)
qed

lemma is_chain_cong:
  assumes "is_chain g f cs" and "\<And>c. c \<in> set cs \<Longrightarrow> f' c = f c"
  shows "is_chain g f' cs"
  using assms by (induction g f cs rule: is_chain.induct) auto

text \<open>Another file is not touched by an operation on other clusters.\<close>

lemma is_chain_frame:
  assumes "geom_ok g" and "is_chain g (fat_act g v) cs" and "only_fat g C v v'" and "set cs \<inter> C = {}"
  shows "is_chain g (fat_act g v') cs"
  using assms(2)
proof (rule is_chain_cong)
  fix c assume "c \<in> set cs"
  then show "fat_act g v' c = fat_act g v c"
    using only_fat_act [OF assms(3,1)] is_chain_cluster [OF assms(2)] assms(4) by blast
qed

section \<open>Freeing\<close>

definition list_min :: "nat list \<Rightarrow> nat \<Rightarrow> nat" where
  "list_min cs low = fold min cs low"

context fat_volume
begin

lemma free_loop_ok:
  assumes "free_loop st g c freed lowest s = (r, s')" and "inv (fs_dev s)"
    and "is_chain g (fat_act g (V s)) (c # cs)" and "freed + length (c # cs) \<le> v_clusters g"
  shows "dev_step s s' \<and> only_fat g (set (c # cs)) (V s) (V s') \<and>
    (\<exists>err k low. r = Inr (err, k, low) \<and>
      (err = None \<longrightarrow> k = freed + length (c # cs) \<and> low = list_min (c # cs) lowest \<and>
        (\<forall>x \<in> set (c # cs). \<forall>copy. live_copy g copy \<longrightarrow> fat_of g (V s') copy x = 0)))"
  using assms
proof (induction cs arbitrary: c s freed lowest)
  case Nil
  have c: "is_cluster g c" "fat_act g (V s) c \<ge> FAT32_EOC_MIN" using Nil.prems(3) by simp_all
  obtain l t where l: "fat_next st g c s = (l, t)" by force
  obtain q u where q: "fat_set st g c 0 t = (q, u)" by force
  have t: "quiet s t" "\<forall>n. l \<noteq> Inr (Some n)"
    using fat_next_ok [OF l Nil.prems(2)] c(2) cluster_not_eoc [OF geom] by (auto simp: not_le [symmetric])
  have u: "dev_step t u" "only_fat g {c} (V t) (V u)"
      "q = Inr () \<longrightarrow> (\<forall>copy. live_copy g copy \<longrightarrow> fat_of g (V u) copy c = 0)"
    using fat_set_ok [OF q] t by auto
  have "vol_same s u" using t(1) u(1) by (blast intro: vol_same_trans)
  moreover have "free_loop st g c freed lowest s =
      (Inr (case q of Inl e \<Rightarrow> (Some e, freed, lowest)
        | Inr _ \<Rightarrow> (case l of Inl e \<Rightarrow> Some e | Inr _ \<Rightarrow> None, freed + 1, min c lowest)), u)"
    using Nil.prems(4) c(1) l q t(2)
    by (subst free_loop.simps) (auto simp: io_bind_def io_try_def io_return_def split: sum.splits option.splits)
  ultimately show ?case using Nil.prems(1) t(1) u by (auto simp: list_min_def split: sum.splits)
next
  case (Cons d cs)
  have c: "is_cluster g c" "fat_act g (V s) c = d" "is_chain g (fat_act g (V s)) (d # cs)" using Cons.prems(3) by simp_all
  have d: "is_cluster g d" using c(3) is_chain_cluster by (metis list.set_intros(1))
  have notin: "c \<notin> set (d # cs)" using is_chain_distinct [OF geom Cons.prems(3)] by simp
  obtain l t where l: "fat_next st g c s = (l, t)" by force
  obtain q u where q: "fat_set st g c 0 t = (q, u)" by force
  have t: "quiet s t" "l \<noteq> Inr None" "\<forall>n. l = Inr (Some n) \<longrightarrow> n = d"
    using fat_next_ok [OF l Cons.prems(2)] c(2) cluster_not_eoc [OF geom d] by auto
  have u: "dev_step t u" "only_fat g {c} (V t) (V u)"
      "q = Inr () \<longrightarrow> (\<forall>copy. live_copy g copy \<longrightarrow> fat_of g (V u) copy c = 0)"
    using fat_set_ok [OF q] t by auto
  have su: "vol_same s u" using t(1) u(1) by (blast intro: vol_same_trans)
  have bound: "\<not> freed \<ge> v_clusters g" using Cons.prems(4) by simp
  show ?case
  proof (cases "\<exists>e. q = Inl e \<or> q = Inr () \<and> l = Inl e")
    case True
    then have "\<exists>e k low. r = Inr (Some e, k, low) \<and> s' = u"
      using Cons.prems(1) bound c(1) l q
      by (subst (asm) free_loop.simps) (auto simp: io_bind_def io_try_def io_return_def)
    then show ?thesis using su u t by (auto elim!: only_fat_trans)
  next
    case False
    then have ql: "q = Inr ()" "l = Inr (Some d)" using t by (cases q; cases l; auto)+
    then have rest: "free_loop st g d (freed + 1) (min c lowest) u = (r, s')"
      using Cons.prems(1) bound c(1) l q
      by (subst (asm) free_loop.simps) (auto simp: io_bind_def io_try_def io_return_def)
    have "is_chain g (fat_act g (V u)) (d # cs)"
      using is_chain_frame [OF geom c(3)] u(2) t(1) notin by auto
    then have ih: "dev_step u s' \<and> only_fat g (set (d # cs)) (V u) (V s') \<and>
      (\<exists>err k low. r = Inr (err, k, low) \<and>
        (err = None \<longrightarrow> k = freed + 1 + length (d # cs) \<and> low = list_min (d # cs) (min c lowest) \<and>
          (\<forall>x \<in> set (d # cs). \<forall>copy. live_copy g copy \<longrightarrow> fat_of g (V s') copy x = 0)))"
      using Cons.IH [OF rest] u(1) Cons.prems(4) by simp
    have cc: "fat_of g (V s') copy c = 0" if "live_copy g copy" for copy
      using ih u(3) ql(1) that notin c(1) by (auto simp: only_fat_def live_copy_def)
    have "only_fat g (set (c # d # cs)) (V s) (V s')"
      using t(1) u(2) ih by (auto intro: only_fat_trans [of g "{c}" _ "V u" "set (d # cs)"])
    moreover have "dev_step s s'" using su ih by (blast intro: vol_same_trans)
    ultimately show ?thesis using ih cc by (auto simp: list_min_def)
  qed
qed

lemma cluster_free_chain_ok:
  assumes run: "cluster_free_chain st g c s = (r, s')" and s: "inv (fs_dev s)" and chain: "is_chain g (fat_act g (V s)) (c # cs)"
  shows "inv (fs_dev s') \<and> only_fat g (set (c # cs)) (V s) (V s') \<and>
    (r = Inr () \<longrightarrow> vol_same (note_free g (length (c # cs)) (list_min (c # cs) FAT32_UNKNOWN) s) s' \<and>
      (\<forall>x \<in> set (c # cs). \<forall>copy. live_copy g copy \<longrightarrow> fat_of g (V s') copy x = 0))"
proof -
  have len: "0 + length (c # cs) \<le> v_clusters g" using is_chain_length [OF geom chain] by simp
  obtain q t where q: "free_loop st g c 0 FAT32_UNKNOWN s = (q, t)" by force
  from free_loop_ok [OF q s chain len] obtain err k low where t: "dev_step s t" "only_fat g (set (c # cs)) (V s) (V t)"
      "q = Inr (err, k, low)" "err = None \<longrightarrow> k = length (c # cs) \<and> low = list_min (c # cs) FAT32_UNKNOWN \<and>
        (\<forall>x \<in> set (c # cs). \<forall>copy. live_copy g copy \<longrightarrow> fat_of g (V t) copy x = 0)"
    by auto
  have same: "vol_same (note_free g n m s) (note_free g n m t)" for n m
    using t(1) by (cases s; cases t) (simp add: vol_same_def note_free_def)
  have "s' = (if k \<noteq> 0 then note_free g k low t else t)" "r = Inr () \<longrightarrow> err = None"
    using run q t(3) by (auto simp: cluster_free_chain_def io_bind_def io_modify_def io_return_def io_fail_def split: option.splits)
  moreover have "fs_dev (note_free g k low t) = fs_dev t" by (simp add: note_free_def)
  ultimately show ?thesis using t same by auto
qed

end

text \<open>The free clusters after an allocation and after a chain is freed.\<close>

lemma free_set_alloc:
  assumes "geom_ok g" and "only_fat g {c} v v'" and "fat_act g v' c = FAT32_EOC"
  shows "free_set g v' = free_set g v - {c}"
proof -
  have "(fat_act g v' x = 0) = (x \<noteq> c \<and> fat_act g v x = 0)" if "is_cluster g x" for x
    using only_fat_act [OF assms(2,1) that] assms(3) by (cases "x = c") (auto simp: FAT32_EOC_def)
  then show ?thesis by (auto simp: free_set_def)
qed

lemma free_set_free:
  assumes "geom_ok g" and "only_fat g C v v'" and "\<And>c. c \<in> C \<Longrightarrow> is_cluster g c \<and> fat_act g v' c = 0"
  shows "free_set g v' = free_set g v \<union> C"
proof -
  have "(fat_act g v' x = 0) = (x \<in> C \<or> fat_act g v x = 0)" if "is_cluster g x" for x
    using only_fat_act [OF assms(2,1) that] assms(3) by (cases "x \<in> C") auto
  then show ?thesis using assms(3) by (auto simp: free_set_def)
qed

lemma chain_not_free:
  assumes "geom_ok g" and "is_chain g (fat_act g v) cs"
  shows "set cs \<inter> free_set g v = {}"
  using assms(2)
proof (induction cs)
  case (Cons c cs)
  have "fat_act g v c \<noteq> 0"
  proof (cases cs)
    case (Cons d ds)
    have "is_cluster g d" "fat_act g v c = d"
      using Cons.prems Cons is_chain_cluster [OF Cons.prems, of d] by simp_all
    then show ?thesis by (auto simp: is_cluster_def)
  qed (use Cons.prems in \<open>auto simp: FAT32_EOC_MIN_def\<close>)
  then show ?case using Cons is_chain_Cons [OF Cons.prems] by (cases "cs = []") (auto simp: free_set_def)
qed simp

lemma fat_volumeI: "sector_store st dinv view \<Longrightarrow> geom_ok g \<Longrightarrow> fat_volume st dinv view g"
  by (simp add: fat_volume_def fat_volume_axioms_def)

section \<open>A small volume\<close>

text \<open>Two mirrored copies of the FAT, four clusters of one sector, the root directory in the first.\<close>

definition demo_geom :: fat32_geom where
  "demo_geom =
    \<lparr>v_readonly = False, v_num_fats = 2, v_fat_size = 1, v_fat_active = 0, v_mirror = True, v_fat0_lba = 2,
     v_fat_lba = 2, v_fsinfo_lba = 1, v_data_lba = 4, v_clusters = 4, v_root_cluster = 2, v_spc_shift = 0, v_label = []\<rparr>"

text \<open>The entry of cluster 3 is a parameter; clusters 4 and 5 form a file.\<close>

definition demo_sectors :: "nat \<Rightarrow> nat \<Rightarrow> u8 list" where
  "demo_sectors x lba =
    (let zero = replicate BLK_SECTOR_SIZE 0
     in if lba = 2 \<or> lba = 3 then put32 20 FAT32_EOC (put32 16 5 (put32 12 x (put32 8 FAT32_EOC zero))) else zero)"

definition demo_fat :: "nat \<Rightarrow> (nat \<Rightarrow> u8 list) fat" where
  "demo_fat x =
    \<lparr>fs_dev = demo_sectors x, fs_free_count = 1, fs_next_free = 2, fs_fsinfo_dirty = False, fs_dir_busy = False,
     fs_open_nodes = 0, fs_open_list = []\<rparr>"

lemma demo_fat_entries:
  assumes "x < 2 ^ 28" and "lba = 2 \<or> lba = 3"
  shows "fat_value (demo_sectors x lba) 2 = FAT32_EOC" "fat_value (demo_sectors x lba) 3 = x"
    "fat_value (demo_sectors x lba) 4 = 5" "fat_value (demo_sectors x lba) 5 = FAT32_EOC"
proof -
  have zero: "le32 (replicate BLK_SECTOR_SIZE 0) i = 0" if "i < 500" for i
    using that by (simp add: le32_def BLK_SECTOR_SIZE_def)
  have "lba = 2 \<or> lba = 3" using assms(2) .
  then have s: "demo_sectors x lba = put32 20 FAT32_EOC (put32 16 5 (put32 12 x (put32 8 FAT32_EOC (replicate BLK_SECTOR_SIZE 0))))"
    by (simp add: demo_sectors_def Let_def)
  show "fat_value (demo_sectors x lba) 2 = FAT32_EOC" "fat_value (demo_sectors x lba) 3 = x"
    "fat_value (demo_sectors x lba) 4 = 5" "fat_value (demo_sectors x lba) 5 = FAT32_EOC"
    using assms(1) by (simp_all add: fat_value_def s zero, simp_all add: BLK_SECTOR_SIZE_def FAT32_EOC_def)
qed

lemma length_demo_sectors: "length (demo_sectors x lba) = BLK_SECTOR_SIZE"
  by (simp add: demo_sectors_def Let_def)

lemmas demo_eval = cluster_alloc_def io_bind_def io_get_def io_modify_def io_return_def io_try_def io_fail_def fs_edit_def
  fs_copy_def fs_lift_def st_copy_def mem_store_def note_alloc_def alloc_span_def find_free_def Let_def is_cluster_def
  fat_put_copy_def fat_set_def fat_next_def cluster_free_chain_def note_free_def fat_value_change length_demo_sectors
  demo_fat_entries

lemma demo_geom_ok: "geom_ok demo_geom"
  by (simp add: geom_ok_def demo_geom_def is_cluster_def FAT32_MAX_CLUSTERS_def)

lemma demo_inv: "mem_inv (fs_dev (demo_fat x))"
  by (simp add: mem_inv_def demo_fat_def length_demo_sectors)

interpretation memvol: fat_volume mem_store mem_inv "\<lambda>s. s" demo_geom
  by (rule fat_volumeI) (rule mem.sector_store_axioms, rule demo_geom_ok)

section \<open>Properties\<close>

text \<open>
  (C25) Allocation hands out a cluster that was free, marks it as the end of a chain in every copy of
  the FAT that is kept up to date, and changes nothing else: every other entry of every copy
  and every sector outside the FAT stay as they were, so that no other file is affected.  The
  count of free clusters, when exact, stays exact.
\<close>

theorem cluster_alloc_fresh:
  assumes "sector_store st dinv view" and "geom_ok g" and "dinv (fs_dev s)"
    and "cluster_alloc st g s = (Inr c, s')"
  shows "is_cluster g c \<and> fat_act g (view (fs_dev s)) c = 0 \<and> only_fat g {c} (view (fs_dev s)) (view (fs_dev s')) \<and>
    (\<forall>copy. live_copy g copy \<longrightarrow> fat_of g (view (fs_dev s')) copy c = FAT32_EOC) \<and>
    (fs_free_count s = card (free_set g (view (fs_dev s))) \<longrightarrow>
      fs_free_count s' = card (free_set g (view (fs_dev s'))))"
proof -
  let ?v = "view (fs_dev s)" and ?v' = "view (fs_dev s')"
  have a: "c \<in> free_set g ?v" "only_fat g {c} ?v ?v'" "vol_same (note_alloc g c s) s'"
      "\<forall>copy. live_copy g copy \<longrightarrow> fat_of g ?v' copy c = FAT32_EOC"
    using fat_volume.cluster_alloc_ok [OF fat_volumeI [OF assms(1,2)] assms(4,3)] by blast+
  have "free_set g ?v' = free_set g ?v - {c}"
    using a(2,4) live_active [OF assms(2)] by (intro free_set_alloc [OF assms(2)]) (simp_all add: fat_act_def)
  then have "card (free_set g ?v') = card (free_set g ?v) - 1" "card (free_set g ?v) \<noteq> 0" using a(1) by auto
  moreover have "card (free_set g ?v) \<noteq> FAT32_UNKNOWN"
    using card_free_set [of g ?v] assms(2) by (auto simp: geom_ok_def FAT32_UNKNOWN_def FAT32_MAX_CLUSTERS_def)
  ultimately have "fs_free_count s' = card (free_set g ?v')" if "fs_free_count s = card (free_set g ?v)"
    using that vol_sameD(1) [OF a(3)] by (simp add: note_alloc_def)
  then show ?thesis using a by (simp add: free_set_def)
qed

theorem cluster_alloc_fresh_witness:
  "mem_inv (fs_dev (demo_fat 0)) \<and> fst (cluster_alloc mem_store demo_geom (demo_fat 0)) = Inr 3 \<and>
   fat_act demo_geom (fs_dev (demo_fat 0)) 3 = 0 \<and>
   fat_of demo_geom (fs_dev (snd (cluster_alloc mem_store demo_geom (demo_fat 0)))) 1 3 = FAT32_EOC"
proof -
  have run: "fst (cluster_alloc mem_store demo_geom (demo_fat 0)) = Inr 3"
    by (simp add: demo_eval alloc_loop.simps [of _ _ 2] demo_geom_def demo_fat_def upt_rec FAT32_EOC_def)
  then have "cluster_alloc mem_store demo_geom (demo_fat 0) = (Inr 3, snd (cluster_alloc mem_store demo_geom (demo_fat 0)))"
    by (metis prod.collapse)
  from cluster_alloc_fresh [OF mem.sector_store_axioms demo_geom_ok demo_inv this]
  show ?thesis using run demo_inv by (simp add: live_copy_def demo_geom_def)
qed

text \<open>
  (C26) Allocation reports \<open>ENOSPC\<close> only when every cluster of the volume is in use: starting from the
  hint, the circular search has then looked at all of them.  The device is assumed not to
  report \<open>ENOSPC\<close> itself.
\<close>

theorem cluster_alloc_enospc:
  assumes "sector_store st dinv view" and "geom_ok g" and "dinv (fs_dev s)"
    and "\<forall>lba f d. fst (st_edit st lba f d) \<noteq> Inl ENOSPC"
    and "cluster_alloc st g s = (Inl ENOSPC, s')" and "is_cluster g c"
  shows "fat_act g (view (fs_dev s)) c \<noteq> 0"
proof -
  have "st_edit st lba f d \<noteq> (Inl ENOSPC, d')" for lba f d d' using assms(4) by (metis fst_conv)
  from fat_volume.cluster_alloc_none [OF fat_volumeI [OF assms(1,2)] assms(5,3) this] show ?thesis
    using assms(6) by (auto simp: free_set_def)
qed

theorem cluster_alloc_enospc_witness:
  "fst (cluster_alloc mem_store demo_geom (demo_fat FAT32_EOC)) = Inl ENOSPC \<and> fat_act demo_geom (fs_dev (demo_fat FAT32_EOC)) 5 \<noteq> 0"
proof -
  have run: "fst (cluster_alloc mem_store demo_geom (demo_fat FAT32_EOC)) = Inl ENOSPC"
    by (simp add: demo_eval alloc_loop.simps demo_geom_def demo_fat_def upt_rec FAT32_EOC_def)
  then have full: "cluster_alloc mem_store demo_geom (demo_fat FAT32_EOC) = (Inl ENOSPC, snd (cluster_alloc mem_store demo_geom (demo_fat FAT32_EOC)))"
    by (metis prod.collapse)
  note demo_inv [of FAT32_EOC]
  moreover have "\<forall>lba f d. fst (st_edit mem_store lba f d) \<noteq> Inl ENOSPC" by (simp add: mem_store_def)
  moreover have "is_cluster demo_geom 5" by (simp add: is_cluster_def demo_geom_def)
  ultimately have "fat_act demo_geom (fs_dev (demo_fat FAT32_EOC)) 5 \<noteq> 0"
    using cluster_alloc_enospc [OF mem.sector_store_axioms demo_geom_ok _ _ full, of 5] by simp
  then show ?thesis using run by simp
qed

text \<open>
  (C27) Freeing the chain of a file frees exactly its clusters: afterwards the free clusters are the
  ones that were free before and the clusters of the chain, every other entry of the FAT and
  every sector outside it are unchanged, and the count of free clusters, when exact, stays
  exact.
\<close>

theorem cluster_free_chain_exact:
  assumes "sector_store st dinv view" and "geom_ok g" and "dinv (fs_dev s)"
    and "is_chain g (fat_act g (view (fs_dev s))) (c # cs)"
    and "cluster_free_chain st g c s = (Inr (), s')"
  shows "free_set g (view (fs_dev s')) = free_set g (view (fs_dev s)) \<union> set (c # cs) \<and>
    only_fat g (set (c # cs)) (view (fs_dev s)) (view (fs_dev s')) \<and>
    (fs_free_count s = card (free_set g (view (fs_dev s))) \<longrightarrow>
      fs_free_count s' = card (free_set g (view (fs_dev s'))))"
proof -
  let ?v = "view (fs_dev s)" and ?v' = "view (fs_dev s')"
  have f: "only_fat g (set (c # cs)) ?v ?v'" "vol_same (note_free g (length (c # cs)) (list_min (c # cs) FAT32_UNKNOWN) s) s'"
      "\<forall>x \<in> set (c # cs). \<forall>copy. live_copy g copy \<longrightarrow> fat_of g ?v' copy x = 0"
    using fat_volume.cluster_free_chain_ok [OF fat_volumeI [OF assms(1,2)] assms(5,3,4)] by blast+
  have free: "free_set g ?v' = free_set g ?v \<union> set (c # cs)"
    using f(3) live_active [OF assms(2)] is_chain_cluster [OF assms(4)]
    by (intro free_set_free [OF assms(2) f(1)]) (auto simp: fat_act_def)
  then have "card (free_set g ?v') = card (free_set g ?v) + length (c # cs)"
    using chain_not_free [OF assms(2,4)] is_chain_distinct [OF assms(2,4)]
    by (simp only: free) (subst card_Un_disjoint, auto simp: distinct_card simp del: set_simps)
  moreover have "card (free_set g ?v') \<le> v_clusters g" "card (free_set g ?v) \<noteq> FAT32_UNKNOWN"
    using card_free_set [of g ?v] card_free_set [of g ?v'] assms(2) by (auto simp: geom_ok_def FAT32_UNKNOWN_def FAT32_MAX_CLUSTERS_def)
  ultimately have "fs_free_count s' = card (free_set g ?v')" if "fs_free_count s = card (free_set g ?v)"
    using that vol_sameD(1) [OF f(2)] by (simp add: note_free_def)
  then show ?thesis using f(1) free by simp
qed

theorem cluster_free_chain_exact_witness:
  "is_chain demo_geom (fat_act demo_geom (fs_dev (demo_fat 0))) [4, 5] \<and>
   fst (cluster_free_chain mem_store demo_geom 4 (demo_fat 0)) = Inr () \<and>
   free_set demo_geom (fs_dev (snd (cluster_free_chain mem_store demo_geom 4 (demo_fat 0)))) =
     free_set demo_geom (fs_dev (demo_fat 0)) \<union> set [4, 5]"
proof -
  have chain: "is_chain demo_geom (fat_act demo_geom (fs_dev (demo_fat 0))) [4, 5]"
    by (simp add: fat_act_def fat_of_def demo_geom_def demo_fat_def is_cluster_def demo_fat_entries FAT32_EOC_def FAT32_EOC_MIN_def)
  have run: "fst (cluster_free_chain mem_store demo_geom 4 (demo_fat 0)) = Inr ()"
    by (simp add: demo_eval free_loop.simps demo_geom_def demo_fat_def upt_rec FAT32_EOC_def FAT32_EOC_MIN_def)
  then have "cluster_free_chain mem_store demo_geom 4 (demo_fat 0) = (Inr (), snd (cluster_free_chain mem_store demo_geom 4 (demo_fat 0)))"
    by (metis prod.collapse)
  from cluster_free_chain_exact [OF mem.sector_store_axioms demo_geom_ok demo_inv chain this]
  show ?thesis using chain run by blast
qed

end
