(* ===== verification/FatMount.thy ===== *)
theory FatMount
  imports FatChain
begin

text \<open>
  Mounting: a volume that \<open>fat32_mount\<close> accepts has a geometry the other operations can rely on,
  whatever the boot sector says, and the count of free clusters it computes is the number of
  free entries of the FAT.
\<close>

section \<open>Counting free clusters\<close>

lemma count_range: "length (filter P [a..<b]) = card {c. a \<le> c \<and> c < b \<and> P c}"
proof -
  have "length (filter P [a..<b]) = card (set (filter P [a..<b]))" by (simp add: distinct_card del: set_filter)
  also have "set (filter P [a..<b]) = {c. a \<le> c \<and> c < b \<and> P c}" by auto
  finally show ?thesis .
qed

context fat_volume
begin

lemma count_sector:
  assumes "sec = V s (v_fat_lba g + k)"
  shows "length (filter (\<lambda>c. \<not> c < 2 \<and> c < v_clusters g + 2 \<and> fat_value sec c = 0) [k * 128..<k * 128 + 128]) =
    card {c \<in> free_set g (V s). k * 128 \<le> c \<and> c < k * 128 + 128}"
proof -
  have "c div 128 = k" if "k * 128 \<le> c" "c < k * 128 + 128" for c
    using that by (metis add.commute div_nat_eqI mult.commute mult_Suc)
  then have "{c. k * 128 \<le> c \<and> c < k * 128 + 128 \<and> \<not> c < 2 \<and> c < v_clusters g + 2 \<and> fat_value sec c = 0} =
      {c \<in> free_set g (V s). k * 128 \<le> c \<and> c < k * 128 + 128}"
    using assms by (auto simp: free_set_def is_cluster_def fat_act_sector)
  then show ?thesis by (simp add: count_range)
qed

lemma count_free_triple:
  "triple (\<lambda>t. quiet s t) (fat_count_free st g) (\<lambda>n t. quiet s t \<and> n = card (free_set g (V s))) (\<lambda>e t. quiet s t)"
proof -
  let ?fin = "v_clusters g + 2"
  let ?I = "\<lambda>k n t. quiet s t \<and> n = card {c \<in> free_set g (V s). c < k * 128}"
  let ?body = "\<lambda>k count. io_bind (fs_copy st (v_fat_lba g + k)) (\<lambda>sec.
      io_return (count + length (filter (\<lambda>c. \<not> c < 2 \<and> c < ?fin \<and> fat_value sec c = 0) [k * 128..<k * 128 + 128])))"
  have step: "triple (?I k n) (?body k n) (?I (Suc k)) (\<lambda>e t. quiet s t)" for k n
  proof (rule triple_bind)
    show "triple (?I k n) (fs_copy st (v_fat_lba g + k)) (\<lambda>sec t. ?I k n t \<and> sec = V s (v_fat_lba g + k)) (\<lambda>e t. quiet s t)"
      by (cases "n = card {c \<in> free_set g (V s). c < k * 128}")
        (rule triple_weaken [OF copy_triple [of s]], simp_all, simp add: triple_def)
    have fin: "finite {c \<in> free_set g (V s). P c}" for P by (rule finite_subset [OF _ finite_free_set]) auto
    have eq: "{c \<in> free_set g (V s). c < Suc k * 128} =
        {c \<in> free_set g (V s). c < k * 128} \<union> {c \<in> free_set g (V s). k * 128 \<le> c \<and> c < k * 128 + 128}" by auto
    have "card {c \<in> free_set g (V s). c < Suc k * 128} =
        card {c \<in> free_set g (V s). c < k * 128} + card {c \<in> free_set g (V s). k * 128 \<le> c \<and> c < k * 128 + 128}"
      unfolding eq by (rule card_Un_disjoint [OF fin fin]) auto
    then show "triple (\<lambda>t. ?I k n t \<and> sec = V s (v_fat_lba g + k))
        (io_return (n + length (filter (\<lambda>c. \<not> c < 2 \<and> c < ?fin \<and> fat_value sec c = 0) [k * 128..<k * 128 + 128])))
        (?I (Suc k)) (\<lambda>e t. quiet s t)" for sec
      using count_sector [of sec s k] by (intro triple_return) presburger
  qed
  let ?n = "(?fin + 127) div 128"
  have "triple (?I 0 0) (io_for [0..<?n] ?body 0) (?I ?n) (\<lambda>e t. quiet s t)"
    by (rule triple_for_upto) (rule step)
  moreover have "?fin \<le> ?n * 128" by presburger
  then have "{c \<in> free_set g (V s). c < ?n * 128} = free_set g (V s)" by (auto simp: free_set_def is_cluster_def)
  ultimately show ?thesis unfolding fat_count_free_def Let_def by (elim triple_weaken) simp_all
qed

end

section \<open>Geometry\<close>

lemma pow2_gap: "is_pow2 n \<Longrightarrow> \<not> (2 ^ k < n \<and> n < 2 ^ Suc k)"
proof
  assume n: "is_pow2 n" and "2 ^ k < n \<and> n < 2 ^ Suc k"
  then have "n div 2 ^ k = 1" "(n - 1) div 2 ^ k = 1" by (auto intro!: div_nat_eqI)
  then have "bit n k" "bit (n - 1) k" by (simp_all add: bit_iff_odd)
  then have "bit (n AND (n - 1)) k" by (simp add: bit_and_iff)
  with n show False by (simp add: is_pow2_def)
qed

lemma spc_shift_of_pow2:
  assumes "is_pow2 spc" and "spc \<le> 128"
  shows "2 ^ spc_shift_of spc = spc" "spc_shift_of spc \<le> 7"
proof -
  have "spc \<noteq> 0" using assms(1) by (simp add: is_pow2_def)
  then obtain k where k: "2 ^ k \<le> spc" "spc < 2 ^ (k + 1)" using ex_power_ivl1 [of 2 spc] by auto
  then have spc: "spc = 2 ^ k" using pow2_gap [OF assms(1), of k] by auto
  then have "2 ^ k \<le> (2 :: nat) ^ 7" using assms(2) by simp
  then have "k \<le> 7" by (rule power_le_imp_le_exp [rotated]) simp
  then have "k \<in> {0, 1, 2, 3, 4, 5, 6, 7}" by auto
  then show "2 ^ spc_shift_of spc = spc" "spc_shift_of spc \<le> 7" unfolding spc by (auto simp: spc_shift_of_def upt_rec)
qed

lemma cluster_lba_eq:
  "is_cluster g c \<Longrightarrow> v_clusters g \<le> FAT32_MAX_CLUSTERS \<Longrightarrow> cluster_lba g c = v_data_lba g + (c - 2) * v_spc g"
proof -
  assume "is_cluster g c" "v_clusters g \<le> FAT32_MAX_CLUSTERS"
  then have "c + 2 ^ 32 - 2 = (c - 2) + 2 ^ 32" "c - 2 < 2 ^ 32" by (auto simp: is_cluster_def FAT32_MAX_CLUSTERS_def)
  then have "(c + 2 ^ 32 - 2) mod 2 ^ 32 = c - 2" by (simp only: mod_add_self2 mod_less)
  then show ?thesis by (simp add: cluster_lba_def v_spc_def)
qed

text \<open>Every sector of every cluster lies on the device.\<close>

definition fits_device :: "fat32_geom \<Rightarrow> nat \<Rightarrow> bool" where
  "fits_device g sectors \<longleftrightarrow> v_data_lba g + v_clusters g * v_spc g \<le> sectors"

lemma fits_device_cluster:
  assumes "fits_device g sectors" and "is_cluster g c" and "v_clusters g \<le> FAT32_MAX_CLUSTERS"
  shows "cluster_lba g c + v_spc g \<le> sectors"
proof -
  have "c - 2 + 1 \<le> v_clusters g" using assms(2) by (auto simp: is_cluster_def)
  then have "(c - 2 + 1) * v_spc g \<le> v_clusters g * v_spc g" by (rule mult_right_mono) simp
  then show ?thesis using assms(1) cluster_lba_eq [OF assms(2,3)] by (simp add: fits_device_def algebra_simps)
qed

lemma boot_geom_ok:
  assumes "boot_geom bs sectors ro = Inr g"
  shows "geom_ok g" "fits_device g sectors" "v_fsinfo_lba g = 0" "1 \<le> v_fat0_lba g"
proof -
  define spc where "spc = unat (bs ! 13)"
  define shift where "shift = spc_shift_of spc"
  define total where "total = (if le16 bs 19 \<noteq> 0 then le16 bs 19 else le32 bs 32)"
  define meta where "meta = le16 bs 14 + unat (bs ! 16) * le32 bs 36"
  define clusters where "clusters = min ((total - meta) div 2 ^ shift) FAT32_MAX_CLUSTERS"
  define single where "single = bit (le16 bs 40) 7"
  define active where "active = (if single then le16 bs 40 mod 2 ^ 4 else 0)"
  note defs = spc_def [symmetric] shift_def [symmetric] total_def [symmetric] meta_def [symmetric]
    clusters_def [symmetric] single_def [symmetric] active_def [symmetric]
  have c: "is_pow2 spc" "spc \<le> 128" "le16 bs 14 \<noteq> 0" "unat (bs ! 16) \<noteq> 0" "total \<le> sectors" "meta < total"
      "FAT32_MIN_CLUSTERS \<le> (total - meta) div 2 ^ shift" "clusters + 2 \<le> le32 bs 36 * 128"
      "2 \<le> le32 bs 44" "le32 bs 44 < clusters + 2" "active < unat (bs ! 16)"
    and g: "g = \<lparr>v_readonly = ro, v_num_fats = unat (bs ! 16), v_fat_size = le32 bs 36, v_fat_active = active,
        v_mirror = (\<not> single), v_fat0_lba = le16 bs 14, v_fat_lba = le16 bs 14 + active * le32 bs 36,
        v_fsinfo_lba = 0, v_data_lba = meta, v_clusters = clusters, v_root_cluster = le32 bs 44,
        v_spc_shift = shift, v_label = boot_label bs\<rparr>"
    using assms unfolding boot_geom_def Let_def defs by (auto split: if_splits simp: not_le not_less)
  have sh: "2 ^ shift = spc" "shift \<le> 7" using spc_shift_of_pow2 [OF c(1,2)] by (simp_all add: shift_def)
  have cl: "1 \<le> clusters" "clusters \<le> FAT32_MAX_CLUSTERS"
    using c(7) by (auto simp: clusters_def FAT32_MIN_CLUSTERS_def FAT32_MAX_CLUSTERS_def min_def)
  show "geom_ok g" using c cl sh by (simp add: g geom_ok_def is_cluster_def meta_def active_def)
  have "clusters * 2 ^ shift \<le> (total - meta) div 2 ^ shift * 2 ^ shift" by (simp add: clusters_def)
  also have "\<dots> \<le> total - meta" by (rule div_times_less_eq_dividend)
  finally show "fits_device g sectors" using c(5,6) by (simp add: g fits_device_def v_spc_def)
  show "v_fsinfo_lba g = 0" "1 \<le> v_fat0_lba g" using c(3) by (simp_all add: g)
qed

lemma geom_ok_fsinfo: "geom_ok g \<Longrightarrow> fsinfo < v_fat0_lba g \<Longrightarrow> geom_ok (g\<lparr>v_fsinfo_lba := fsinfo\<rparr>)"
  by (simp add: geom_ok_def is_cluster_def)

section \<open>Mounting\<close>

text \<open>What \<open>fat32_mount\<close> promises of the volume it gives.\<close>

definition mounted :: "fat32_geom \<Rightarrow> 's fat \<Rightarrow> nat \<Rightarrow> bool" where
  "mounted g fs sectors \<longleftrightarrow>
     geom_ok g \<and> fits_device g sectors \<and> is_cluster g (fs_next_free fs) \<and>
     (fs_free_count fs \<le> v_clusters g \<or> v_readonly g \<and> fs_free_count fs = FAT32_UNKNOWN) \<and>
     fs_open_nodes fs = 0 \<and> fs_open_list fs = [] \<and> \<not> fs_dir_busy fs"

context sector_store
begin

lemma read_fsinfo_ok:
  assumes g: "geom_ok g" "fits_device g sectors" "fsinfo < v_fat0_lba g" and s: "inv (fs_dev s)"
    and fs: "fs_free_count s = FAT32_UNKNOWN" "fs_next_free s = 2" "fs_open_nodes s = 0" "fs_open_list s = []" "\<not> fs_dir_busy s"
    and run: "read_fsinfo st fsinfo (g, s) = (g', s')"
  shows "geom_ok g' \<and> fits_device g' sectors \<and> v_readonly g' = v_readonly g \<and> v_clusters g' = v_clusters g \<and>
    inv (fs_dev s') \<and> view (fs_dev s') = view (fs_dev s) \<and> is_cluster g' (fs_next_free s') \<and>
    (fs_free_count s' \<le> v_clusters g \<or> fs_free_count s' = FAT32_UNKNOWN) \<and>
    fs_open_nodes s' = 0 \<and> fs_open_list s' = [] \<and> \<not> fs_dir_busy s'"
proof -
  obtain r t where r: "fs_copy st fsinfo s = (r, t)" by force
  have t: "inv (fs_dev t)" "view (fs_dev t) = view (fs_dev s)" "vol_same s t"
    using fat_volume.copy_fs [OF fat_volumeI [OF sector_store_axioms g(1)] r s] by simp_all
  have two: "is_cluster g 2" using g(1) by (simp add: geom_ok_def is_cluster_def)
  note f = vol_sameD [OF t(3)]
  have same: "is_cluster (g\<lparr>v_fsinfo_lba := fsinfo\<rparr>) c = is_cluster g c" "fits_device (g\<lparr>v_fsinfo_lba := fsinfo\<rparr>) sectors"
    for c using g(2) by (simp_all add: is_cluster_def fits_device_def v_spc_def)
  show ?thesis
  proof (cases r)
    case (Inl e)
    then have "g' = g" "s' = t" using run r by (simp_all add: read_fsinfo_def)
    then show ?thesis using t g f fs two by simp
  next
    case (Inr sec)
    show ?thesis
    proof (cases "fsinfo_valid sec")
      case True
      then have "g' = g\<lparr>v_fsinfo_lba := fsinfo\<rparr>"
          "s' = t\<lparr>fs_free_count := (if le32 sec 488 \<le> v_clusters g then le32 sec 488 else fs_free_count t),
                  fs_next_free := (if is_cluster g (le32 sec 492) then le32 sec 492 else fs_next_free t)\<rparr>"
        using run r Inr by (simp_all add: read_fsinfo_def Let_def)
      then show ?thesis using t geom_ok_fsinfo [OF g(1,3)] same f fs two by simp
    next
      case False
      then have "g' = g" "s' = t" using run r Inr by (simp_all add: read_fsinfo_def)
      then show ?thesis using t g f fs two by simp
    qed
  qed
qed

lemma mount_hints_ok:
  assumes bs: "boot_geom bs sectors ro = Inr g0" and d: "inv d" and run: "mount_hints st bs g0 d = (g, fs)"
  shows "geom_ok g \<and> fits_device g sectors \<and> inv (fs_dev fs) \<and> view (fs_dev fs) = view d \<and> is_cluster g (fs_next_free fs) \<and>
    (fs_free_count fs \<le> v_clusters g \<or> fs_free_count fs = FAT32_UNKNOWN) \<and>
    fs_open_nodes fs = 0 \<and> fs_open_list fs = [] \<and> \<not> fs_dir_busy fs"
proof -
  define fs0 where "fs0 = \<lparr>fs_dev = d, fs_free_count = FAT32_UNKNOWN, fs_next_free = 2, fs_fsinfo_dirty = False,
      fs_dir_busy = False, fs_open_nodes = 0, fs_open_list = []\<rparr>"
  note geom0 = boot_geom_ok [OF bs]
  have two: "is_cluster g0 2" using geom0(1) by (simp add: geom_ok_def is_cluster_def)
  show ?thesis
  proof (cases "1 \<le> le16 bs 48 \<and> le16 bs 48 < v_fat0_lba g0")
    case True
    then have "read_fsinfo st (le16 bs 48) (g0, fs0) = (g, fs)" using run by (simp add: mount_hints_def fs0_def Let_def)
    from read_fsinfo_ok [OF geom0(1,2) _ _ _ _ _ _ _ this] show ?thesis using True d by (auto simp: fs0_def)
  next
    case False
    then have "g = g0" "fs = fs0" using run by (auto simp: mount_hints_def fs0_def Let_def)
    then show ?thesis using geom0 d two by (simp add: fs0_def)
  qed
qed

lemma mount_count_ok:
  assumes run: "mount_count st g fs1 = (Inr (g', fs), d')" and geom: "geom_ok g" and fs1: "inv (fs_dev fs1)"
  shows "g' = g \<and> inv (fs_dev fs) \<and> view (fs_dev fs) = view (fs_dev fs1) \<and> fs_next_free fs = fs_next_free fs1 \<and>
    (fs_free_count fs = (if fs_free_count fs1 = FAT32_UNKNOWN \<and> \<not> v_readonly g
       then card (free_set g (view (fs_dev fs1))) else fs_free_count fs1)) \<and>
    fs_open_nodes fs = fs_open_nodes fs1 \<and> fs_open_list fs = fs_open_list fs1 \<and> fs_dir_busy fs = fs_dir_busy fs1"
proof (cases "fs_free_count fs1 = FAT32_UNKNOWN \<and> \<not> v_readonly g")
  case True
  obtain r fs2 where r: "fat_count_free st g fs1 = (r, fs2)" by force
  obtain n where n: "r = Inr n" "g' = g" "fs = fs2\<lparr>fs_free_count := n, fs_fsinfo_dirty := (v_fsinfo_lba g \<noteq> 0)\<rparr>"
    using run True r by (cases r) (auto simp: mount_count_def)
  have "inv (fs_dev fs2) \<and> vol_same fs1 fs2 \<and> view (fs_dev fs2) = view (fs_dev fs1) \<and> n = card (free_set g (view (fs_dev fs1)))"
    using triple_Inr [OF fat_volume.count_free_triple [OF fat_volumeI [OF sector_store_axioms geom], of fs1] _ r [unfolded n(1)]] fs1
    by simp
  then show ?thesis using True n vol_sameD [of fs1 fs2] by simp
next
  case False
  then show ?thesis using run fs1 by (auto simp: mount_count_def)
qed

lemma fat32_mount_ok:
  assumes run: "fat32_mount st sectors ro mem d = (Inr (g, fs), d')" and d: "inv d"
  shows "mounted g fs sectors \<and> inv (fs_dev fs) \<and> view (fs_dev fs) = view d"
proof -
  obtain r d1 where r: "st_copy st 0 d = (r, d1)" by force
  obtain bs where bs: "r = Inr bs" using run r by (cases r) (auto simp: fat32_mount_def)
  obtain g0 where g0: "boot_geom bs sectors ro = Inr g0"
    using run r bs by (cases "boot_geom bs sectors ro") (auto simp: fat32_mount_def)
  obtain g1 fs1 where h: "mount_hints st bs g0 d1 = (g1, fs1)" by force
  have c: "mount_count st g1 fs1 = (Inr (g, fs), d')"
    using run r bs g0 h by (auto simp: fat32_mount_def split: if_splits)
  have d1: "inv d1" "view d1 = view d" using copy_ok [OF d r [unfolded bs]] by simp_all
  note hints = mount_hints_ok [OF g0 d1(1) h]
  have "g = g1 \<and> inv (fs_dev fs) \<and> view (fs_dev fs) = view (fs_dev fs1) \<and> fs_next_free fs = fs_next_free fs1 \<and>
    (fs_free_count fs = (if fs_free_count fs1 = FAT32_UNKNOWN \<and> \<not> v_readonly g1
       then card (free_set g1 (view (fs_dev fs1))) else fs_free_count fs1)) \<and>
    fs_open_nodes fs = fs_open_nodes fs1 \<and> fs_open_list fs = fs_open_list fs1 \<and> fs_dir_busy fs = fs_dir_busy fs1"
    using mount_count_ok [OF c] hints by blast
  then show ?thesis using hints d1(2) card_free_set [of g1 "view (fs_dev fs1)"] by (auto simp: mounted_def)
qed

end

section \<open>Properties\<close>

text \<open>
  (C28) Whatever the boot sector and the FSInfo sector say, a volume that mounts has a consistent
  geometry: the copies of the FAT lie between the reserved sectors and the data, have an entry
  for every cluster, every sector of every cluster is on the device, the root directory is a
  cluster of the volume, the allocation hint is one too, and the count of free clusters is at
  most the number of clusters (or unknown, on a read-only volume).  Mounting writes nothing.
\<close>

theorem fat32_mount_geometry:
  assumes "sector_store st dinv view" and "dinv d" and "fat32_mount st sectors ro mem d = (Inr (g, fs), d')"
  shows "mounted g fs sectors \<and> view (fs_dev fs) = view d \<and>
    (\<forall>c. is_cluster g c \<longrightarrow> v_data_lba g \<le> cluster_lba g c \<and> cluster_lba g c + v_spc g \<le> sectors)"
proof -
  have m: "mounted g fs sectors" "view (fs_dev fs) = view d"
    using sector_store.fat32_mount_ok [OF assms(1,3,2)] by simp_all
  then have "v_clusters g \<le> FAT32_MAX_CLUSTERS" "fits_device g sectors" by (simp_all add: mounted_def geom_ok_def)
  then show ?thesis using m fits_device_cluster [of g sectors] by (simp add: cluster_lba_def)
qed

text \<open>A boot sector of the smallest FAT32 volume: one sector per cluster, one FAT of 512 sectors.\<close>

definition demo_boot :: "u8 list" where
  "demo_boot =
    put32 44 2 (put32 36 512 (put32 32 66038 (put16 14 1 (put16 11 512
      ((replicate BLK_SECTOR_SIZE 0)[13 := 1, 16 := 1, 510 := 0x55, 511 := 0xAA])))))"

definition demo_volume :: "nat \<Rightarrow> u8 list" where
  "demo_volume lba = (if lba = 0 then demo_boot else replicate BLK_SECTOR_SIZE 0)"

lemma demo_boot_length: "length demo_boot = BLK_SECTOR_SIZE"
  by (simp add: demo_boot_def)

lemma demo_boot_fields:
  "demo_boot ! 510 = 0x55" "demo_boot ! 511 = 0xAA" "le16 demo_boot 11 = 512" "demo_boot ! 13 = 1" "le16 demo_boot 14 = 1"
  "demo_boot ! 16 = 1" "le16 demo_boot 17 = 0" "le16 demo_boot 22 = 0" "le16 demo_boot 19 = 0" "le32 demo_boot 32 = 66038"
  "le32 demo_boot 36 = 512" "le16 demo_boot 40 = 0" "le32 demo_boot 44 = 2" "le16 demo_boot 48 = 0" "demo_boot ! 66 = 0"
  by (simp_all add: demo_boot_def BLK_SECTOR_SIZE_def, simp_all add: le16_def)

theorem fat32_mount_geometry_witness:
  "\<exists>g fs. fst (fat32_mount mem_store 66038 True True demo_volume) = Inr (g, fs) \<and> mounted g fs 66038 \<and>
     fs_dev fs = demo_volume \<and> v_clusters g = 65525"
proof -
  have inv: "mem_inv demo_volume" by (simp add: mem_inv_def demo_volume_def demo_boot_length)
  have pow: "is_pow2 (Suc 0)" "spc_shift_of (Suc 0) = 0" by (simp_all add: is_pow2_def spc_shift_of_def upt_rec)
  obtain g where g: "boot_geom demo_boot 66038 True = Inr g" "v_fat0_lba g = 1" "v_readonly g" "v_clusters g = 65525"
    by (simp add: boot_geom_def demo_boot_fields Let_def pow BLK_SECTOR_SIZE_def FAT32_MIN_CLUSTERS_def FAT32_MAX_CLUSTERS_def)
  have "st_copy mem_store 0 demo_volume = (Inr demo_boot, demo_volume)" by (simp add: st_copy_def mem_store_def demo_volume_def)
  then obtain fs where run: "fat32_mount mem_store 66038 True True demo_volume = (Inr (g, fs), demo_volume)"
    using g by (simp add: fat32_mount_def mount_hints_def mount_count_def demo_boot_fields Let_def)
  from fat32_mount_geometry [OF mem.sector_store_axioms inv run] show ?thesis using run g(4) by auto
qed

text \<open>
  (C29) When the count of free clusters is not known, \<open>fat32_free_clusters\<close> reports exactly the number of
  free entries of the FAT, and remembers it.
\<close>

theorem fat32_free_clusters_exact:
  assumes "sector_store st dinv view" and "geom_ok g" and "dinv (fs_dev s)" and "fs_free_count s = FAT32_UNKNOWN"
    and "fat32_free_clusters st g s = (Inr n, s')"
  shows "n = card (free_set g (view (fs_dev s))) \<and> fs_free_count s' = n \<and> view (fs_dev s') = view (fs_dev s)"
proof -
  obtain r t where r: "fat_count_free st g s = (r, t)" by force
  then have *: "r = Inr n" "s' = (if fs_free_count t = FAT32_UNKNOWN then t\<lparr>fs_free_count := n\<rparr> else t)"
    using assms(4,5) by (auto simp: fat32_free_clusters_def io_bind_def io_get_def io_modify_def io_return_def split: sum.splits if_splits)
  have "dinv (fs_dev t) \<and> vol_same s t \<and> view (fs_dev t) = view (fs_dev s) \<and> n = card (free_set g (view (fs_dev s)))"
    using triple_Inr [OF fat_volume.count_free_triple [OF fat_volumeI [OF assms(1,2)], of s] _ r [unfolded *(1)]] assms(3) by simp
  then show ?thesis using *(2) vol_sameD(1) [of s t] assms(4) by simp
qed

theorem fat32_free_clusters_exact_witness:
  "fst (fat32_free_clusters mem_store demo_geom ((demo_fat 0)\<lparr>fs_free_count := FAT32_UNKNOWN\<rparr>)) = Inr 1 \<and>
   card (free_set demo_geom (fs_dev (demo_fat 0))) = 1"
proof -
  let ?s = "(demo_fat 0)\<lparr>fs_free_count := FAT32_UNKNOWN\<rparr>"
  have "[0..<128] = [0, 1, 2, 3, 4, 5] @ [6..<128]" by (simp add: upt_rec)
  then have run: "fst (fat32_free_clusters mem_store demo_geom ?s) = Inr 1"
    by (simp add: fat32_free_clusters_def fat_count_free_def demo_eval demo_geom_def demo_fat_def FAT32_EOC_def)
  then have "fat32_free_clusters mem_store demo_geom ?s = (Inr 1, snd (fat32_free_clusters mem_store demo_geom ?s))"
    by (metis prod.collapse)
  from fat32_free_clusters_exact [OF mem.sector_store_axioms demo_geom_ok _ _ this] show ?thesis
    using run demo_inv [of 0] by simp
qed

end
