(* ===== verification/FatDir.thy ===== *)
theory FatDir
  imports Fat
begin

text \<open>
  Directories of \<^verbatim>\<open>src/fs/fat32.c\<close>: the cursor over the entries, reading the visible entries,
  looking up a path, and writing entries: rewriting the fields of one, marking entries deleted,
  finding free slots and adding the entries of a new name.
\<close>

section \<open>The cursor\<close>

definition cur_init :: "nat \<Rightarrow> fat32_dircur" where
  "cur_init first_cluster = \<lparr>dc_cluster = first_cluster, dc_pos = 0, dc_steps = 0\<rparr>"

definition cur_lba :: "fat32_geom \<Rightarrow> fat32_dircur \<Rightarrow> nat" where
  "cur_lba g cur = cluster_lba g (dc_cluster cur) + dc_pos cur div 16"

definition cur_off :: "fat32_dircur \<Rightarrow> nat" where
  "cur_off cur = dc_pos cur mod 16 * 32"

definition cur_peek :: "'s store \<Rightarrow> fat32_geom \<Rightarrow> fat32_dircur \<Rightarrow> ('s fat, u8 list option) io" where
  "cur_peek st g cur =
    (if dc_cluster cur = 0 then io_return None
     else io_bind (fs_copy st (cur_lba g cur)) (\<lambda>sec. io_return (Some (sec_get sec (cur_off cur) 32))))"

definition cur_advance :: "'s store \<Rightarrow> fat32_geom \<Rightarrow> fat32_dircur \<Rightarrow> ('s fat, fat32_dircur) io" where
  "cur_advance st g cur =
    (if dc_pos cur + 1 < v_entries_per_cluster g then io_return (cur\<lparr>dc_pos := dc_pos cur + 1\<rparr>)
     else if dc_steps cur + 1 > v_clusters g then io_fail EIO
     else io_bind (fat_next st g (dc_cluster cur)) (\<lambda>next.
       io_return \<lparr>dc_cluster = (case next of Some c \<Rightarrow> c | None \<Rightarrow> 0), dc_pos = 0, dc_steps = dc_steps cur + 1\<rparr>))"

text \<open>Every step of a cursor comes closer to the bound on the number of clusters.\<close>

definition cur_order :: "fat32_geom \<Rightarrow> fat32_dircur \<Rightarrow> nat \<times> nat" where
  "cur_order g cur = (v_clusters g + 1 - dc_steps cur, v_entries_per_cluster g - dc_pos cur)"

lemma cur_advance_cases:
  assumes "cur_advance st g cur s = (Inr cur', s')"
  shows "dc_steps cur' = dc_steps cur \<and> dc_pos cur' = dc_pos cur + 1 \<and> dc_pos cur' < v_entries_per_cluster g \<or>
    dc_steps cur' = dc_steps cur + 1 \<and> dc_steps cur' \<le> v_clusters g"
  using assms by (auto simp: cur_advance_def io_return_def io_fail_def io_bind_Inr split: if_splits)

lemma cur_advance_order:
  assumes "cur_advance st g cur s = (Inr cur', s')"
  shows "(cur_order g cur', cur_order g cur) \<in> less_than <*lex*> less_than"
  using cur_advance_cases [OF assms] by (auto simp: cur_order_def)

lemma cur_order_trans:
  fixes a b c :: "nat \<times> nat"
  shows "(a, b) \<in> less_than <*lex*> less_than \<Longrightarrow> (b, c) \<in> less_than <*lex*> less_than \<Longrightarrow> (a, c) \<in> less_than <*lex*> less_than"
  by (cases a; cases b; cases c) auto

section \<open>Reading a directory\<close>

function dir_next_loop :: "'s store \<Rightarrow> fat32_geom \<Rightarrow> fat32_dircur \<Rightarrow> lfn_state \<Rightarrow> ('s fat, fat32_info option \<times> fat32_dircur) io" where
  "dir_next_loop st g cur ls s =
    (case cur_peek st g cur s of
       (Inl err, s1) \<Rightarrow> (Inl err, s1)
     | (Inr None, s1) \<Rightarrow> (Inr (None, cur), s1)
     | (Inr (Some e), s1) \<Rightarrow>
         if e ! 0 = 0 then (Inr (None, cur\<lparr>dc_cluster := 0\<rparr>), s1)
         else (case cur_advance st g cur s1 of
                 (Inl err, s2) \<Rightarrow> (Inl err, s2)
               | (Inr cur', s2) \<Rightarrow>
                   (case entry_step ls e (dc_cluster cur) (dc_pos cur) of
                      Inl ls' \<Rightarrow> dir_next_loop st g cur' ls' s2
                    | Inr info \<Rightarrow> (Inr (Some info, cur'), s2))))"
  by pat_completeness auto
termination
  by (relation "inv_image (less_than <*lex*> less_than) (\<lambda>(st, g, cur, ls, s). cur_order g cur)")
    (auto dest: cur_advance_order [OF sym])

declare dir_next_loop.simps [simp del]

definition dir_next :: "'s store \<Rightarrow> fat32_geom \<Rightarrow> fat32_dircur \<Rightarrow> ('s fat, fat32_info option \<times> fat32_dircur) io" where
  "dir_next st g cur = dir_next_loop st g cur lfn_start"

lemma dir_next_loop_order:
  "dir_next_loop st g cur ls s = (Inr (Some info, cur'), s') \<Longrightarrow>
    (cur_order g cur', cur_order g cur) \<in> less_than <*lex*> less_than"
proof (induction st g cur ls s rule: dir_next_loop.induct)
  case (1 st g cur ls s)
  from "1.prems" show ?case
    by (subst (asm) dir_next_loop.simps)
      (auto split: prod.splits sum.splits option.splits if_splits dest: cur_advance_order
        intro: cur_order_trans [OF "1.IH" [OF sym refl refl _ sym refl] cur_advance_order])
qed

lemma dir_next_order:
  "dir_next st g cur s = (Inr (Some info, cur'), s') \<Longrightarrow>
    (cur_order g cur', cur_order g cur) \<in> less_than <*lex*> less_than"
  unfolding dir_next_def by (rule dir_next_loop_order)

function find_loop :: "'s store \<Rightarrow> fat32_geom \<Rightarrow> u8 list \<Rightarrow> fat32_dircur \<Rightarrow> ('s fat, fat32_info) io" where
  "find_loop st g name cur s =
    (case dir_next st g cur s of
       (Inl err, s1) \<Rightarrow> (Inl err, s1)
     | (Inr (None, _), s1) \<Rightarrow> (Inl ENOENT, s1)
     | (Inr (Some info, cur'), s1) \<Rightarrow>
         if name_eq (fi_name info) name \<or> name_eq (fi_short_name info) name then (Inr info, s1)
         else find_loop st g name cur' s1)"
  by pat_completeness auto
termination
  by (relation "inv_image (less_than <*lex*> less_than) (\<lambda>(st, g, name, cur, s). cur_order g cur)")
    (auto dest: dir_next_order [OF sym])

declare find_loop.simps [simp del]

definition dir_find :: "'s store \<Rightarrow> fat32_geom \<Rightarrow> nat \<Rightarrow> u8 list \<Rightarrow> ('s fat, fat32_info) io" where
  "dir_find st g dir_cluster name = find_loop st g name (cur_init dir_cluster)"

text \<open>The entry \<open>fat32_lookup\<close> starts from stands for the root, which has none on disk.\<close>

definition root_info :: "fat32_geom \<Rightarrow> fat32_info" where
  "root_info g =
    \<lparr>fi_name = [], fi_short_name = [], fi_attr = FAT32_ATTR_DIR, fi_first_cluster = v_root_cluster g,
     fi_size = 0, fi_wdate = 0, fi_wtime = 0, fi_dir_cluster = 0, fi_dir_pos = 0\<rparr>"

lemma length_dropWhile_less: "dropWhile P xs = x # ys \<Longrightarrow> length (dropWhile Q ys) < length xs"
  by (metis le_imp_less_Suc length_Cons length_dropWhile_le less_le_trans)

function lookup_loop :: "'s store \<Rightarrow> fat32_geom \<Rightarrow> fat32_info \<Rightarrow> u8 list \<Rightarrow> ('s fat, fat32_info) io" where
  "lookup_loop st g current path s =
    (case dropWhile (\<lambda>c. c = SLASH) path of
       [] \<Rightarrow> (Inr current, s)
     | p # ps \<Rightarrow>
         let component = p # takeWhile (\<lambda>c. c \<noteq> SLASH) ps; rest = dropWhile (\<lambda>c. c \<noteq> SLASH) ps
         in if length component > FAT32_NAME_MAX then (Inl ENAMETOOLONG, s)
            else if component = [DOT] then lookup_loop st g current rest s
            else if fi_attr current AND FAT32_ATTR_DIR = 0 then (Inl ENOTDIR, s)
            else (case dir_find st g (fi_first_cluster current) component s of
                    (Inl err, s1) \<Rightarrow> (Inl err, s1)
                  | (Inr next, s1) \<Rightarrow> lookup_loop st g next rest s1))"
  by pat_completeness auto
termination
  by (relation "measure (\<lambda>(st, g, current, path, s). length path)") (auto dest: length_dropWhile_less)

declare lookup_loop.simps [simp del]

definition fat32_lookup :: "'s store \<Rightarrow> fat32_geom \<Rightarrow> u8 list \<Rightarrow> ('s fat, fat32_info) io" where
  "fat32_lookup st g path = lookup_loop st g (root_info g) path"

definition fat32_node_init :: "fat32_info \<Rightarrow> fat32_node" where
  "fat32_node_init info =
    \<lparr>nd_info = info, nd_chain_index = 0, nd_chain_cluster = 0, nd_rd_next = 0, nd_rd_cur = cur_init 0,
     nd_rd_valid = False, nd_dirty = False\<rparr>"

text \<open>\<open>readdir_loop\<close> gives the entry with the index, the cursor and the index it would read next.\<close>

function readdir_loop ::
    "'s store \<Rightarrow> fat32_geom \<Rightarrow> nat \<Rightarrow> fat32_dircur \<Rightarrow> nat \<Rightarrow> ('s fat, fat32_info option \<times> fat32_dircur \<times> nat) io" where
  "readdir_loop st g index cur next_index s =
    (case dir_next st g cur s of
       (Inl err, s1) \<Rightarrow> (Inl err, s1)
     | (Inr (None, cur'), s1) \<Rightarrow> (Inr (None, cur', next_index), s1)
     | (Inr (Some info, cur'), s1) \<Rightarrow>
         if next_index = index then (Inr (Some info, cur', next_index + 1), s1)
         else readdir_loop st g index cur' (next_index + 1) s1)"
  by pat_completeness auto
termination
  by (relation "inv_image (less_than <*lex*> less_than) (\<lambda>(st, g, index, cur, next_index, s). cur_order g cur)")
    (auto dest: dir_next_order [OF sym])

declare readdir_loop.simps [simp del]

definition fat32_readdir :: "'s store \<Rightarrow> fat32_geom \<Rightarrow> fat32_node \<Rightarrow> nat \<Rightarrow> ('s fat, fat32_info option \<times> fat32_node) io" where
  "fat32_readdir st g node index =
    (if fi_attr (nd_info node) AND FAT32_ATTR_DIR = 0 then io_fail ENOTDIR
     else let (cur, next_index) =
            (if nd_rd_valid node \<and> nd_rd_next node \<le> index then (nd_rd_cur node, nd_rd_next node)
             else (cur_init (fi_first_cluster (nd_info node)), 0))
          in io_bind (readdir_loop st g index cur next_index) (\<lambda>(info, cur', next').
               io_return (info, node\<lparr>nd_rd_cur := cur', nd_rd_next := next', nd_rd_valid := True\<rparr>)))"

section \<open>Writing entries\<close>

text \<open>The entry at an offset of a sector, and the sector with that entry changed.\<close>

definition change_entry :: "nat \<Rightarrow> (u8 list \<Rightarrow> u8 list) \<Rightarrow> u8 list \<Rightarrow> u8 list" where
  "change_entry off f sec = sec_put off (f (sec_get sec off 32)) sec"

definition entry_gone :: "u8 list \<Rightarrow> bool" where
  "entry_gone e \<longleftrightarrow> e ! 0 = 0 \<or> e ! 0 = 0xE5 \<or> e ! 11 AND 0x3F = 0x0F"

definition entry_update :: "fat32_info \<Rightarrow> u8 list \<Rightarrow> u8 list" where
  "entry_update m e =
    (let e1 = (put16 18 (fi_wdate m) \<circ> put16 24 (fi_wdate m) \<circ> put16 22 (fi_wtime m) \<circ> put32 28 (fi_size m) \<circ>
               put16 26 (fi_first_cluster m) \<circ> put16 20 (fi_first_cluster m div 2 ^ 16)) e
     in e1[11 := e1 ! 11 OR FAT32_ATTR_ARCH])"

text \<open>\<open>struct dent_meta\<close> holds fields of the node's information; the whole information is passed here.\<close>

definition dirent_store :: "'s store \<Rightarrow> fat32_geom \<Rightarrow> fat32_info \<Rightarrow> ('s fat, unit) io" where
  "dirent_store st g m =
    (if fi_dir_cluster m = 0 then io_return ()
     else if \<not> is_cluster g (fi_dir_cluster m) \<or> fi_dir_pos m \<ge> v_entries_per_cluster g then io_fail EIO
     else let off = fi_dir_pos m mod 16 * 32
          in io_bind (fs_edit st (cluster_lba g (fi_dir_cluster m) + fi_dir_pos m div 16)
                 (\<lambda>sec. if entry_gone (sec_get sec off 32) then None else Some (change_entry off (entry_update m) sec))) (\<lambda>sec.
               if entry_gone (sec_get sec off 32) then io_fail ENOENT else io_return ()))"

definition fat32_node_sync :: "'s store \<Rightarrow> fat32_geom \<Rightarrow> fat32_node \<Rightarrow> 's fat \<Rightarrow> unit res \<times> fat32_node \<times> 's fat" where
  "fat32_node_sync st g node s =
    (if \<not> nd_dirty node then (Inr (), node, s)
     else case dirent_store st g (nd_info node) s of
            (Inl e, s1) \<Rightarrow> (Inl e, node\<lparr>nd_dirty := True\<rparr>, s1)
          | (Inr _, s1) \<Rightarrow> (Inr (), node\<lparr>nd_dirty := False\<rparr>, s1))"

definition ent_write :: "'s store \<Rightarrow> fat32_geom \<Rightarrow> fat32_dircur \<Rightarrow> u8 list \<Rightarrow> ('s fat, unit) io" where
  "ent_write st g cur e =
    io_bind (fs_edit st (cur_lba g cur) (\<lambda>sec. Some (change_entry (cur_off cur) (\<lambda>_. e) sec))) (\<lambda>_. io_return ())"

definition ent_mark_deleted :: "'s store \<Rightarrow> fat32_geom \<Rightarrow> fat32_dircur \<Rightarrow> ('s fat, unit) io" where
  "ent_mark_deleted st g cur =
    io_bind (fs_edit st (cur_lba g cur) (\<lambda>sec. Some (sec[cur_off cur := 0xE5]))) (\<lambda>_. io_return ())"

section \<open>Choosing the short name\<close>

function has_short_loop :: "'s store \<Rightarrow> fat32_geom \<Rightarrow> u8 list \<Rightarrow> fat32_dircur \<Rightarrow> ('s fat, bool) io" where
  "has_short_loop st g raw cur s =
    (case cur_peek st g cur s of
       (Inl err, s1) \<Rightarrow> (Inl err, s1)
     | (Inr None, s1) \<Rightarrow> (Inr False, s1)
     | (Inr (Some e), s1) \<Rightarrow>
         if e ! 0 = 0 then (Inr False, s1)
         else if e ! 0 \<noteq> 0xE5 \<and> e ! 11 AND 0x3F \<noteq> 0x0F \<and> take 11 e = raw then (Inr True, s1)
         else (case cur_advance st g cur s1 of
                 (Inl err, s2) \<Rightarrow> (Inl err, s2)
               | (Inr cur', s2) \<Rightarrow> has_short_loop st g raw cur' s2))"
  by pat_completeness auto
termination
  by (relation "inv_image (less_than <*lex*> less_than) (\<lambda>(st, g, raw, cur, s). cur_order g cur)")
    (auto dest: cur_advance_order [OF sym])

declare has_short_loop.simps [simp del]

definition dir_has_short :: "'s store \<Rightarrow> fat32_geom \<Rightarrow> nat \<Rightarrow> u8 list \<Rightarrow> ('s fat, bool) io" where
  "dir_has_short st g first raw = has_short_loop st g raw (cur_init first)"

function pick_tail :: "'s store \<Rightarrow> fat32_geom \<Rightarrow> nat \<Rightarrow> short_gen \<Rightarrow> nat \<Rightarrow> ('s fat, short_gen) io" where
  "pick_tail st g first sg n =
    (if n > 999999 then io_fail EEXIST
     else io_bind (dir_has_short st g first (short_tail sg n)) (\<lambda>found.
       if found then pick_tail st g first sg (n + 1) else io_return (sg\<lparr>sg_raw := short_tail sg n\<rparr>)))"
  by pat_completeness auto
termination
  by (relation "measure (\<lambda>(st, g, first, sg, n). 1000000 - n)") auto

declare pick_tail.simps [simp del]

definition short_pick_tail :: "'s store \<Rightarrow> fat32_geom \<Rightarrow> nat \<Rightarrow> short_gen \<Rightarrow> ('s fat, short_gen) io" where
  "short_pick_tail st g first sg = pick_tail st g first sg 1"

section \<open>Free slots\<close>

definition FAT32_DIR_MAX_ENTRIES :: nat where
  "FAT32_DIR_MAX_ENTRIES = 65536"

text \<open>
  The search over the existing entries: \<open>Inl\<close> the start of a long enough run, or \<open>Inr\<close> the run at
  the end of the chain: its length and start, the last cluster and the number of clusters.
\<close>

function slots_loop ::
    "'s store \<Rightarrow> fat32_geom \<Rightarrow> nat \<Rightarrow> fat32_dircur \<Rightarrow> nat \<Rightarrow> fat32_dircur \<Rightarrow> nat \<Rightarrow> bool \<Rightarrow>
     ('s fat, fat32_dircur + nat \<times> fat32_dircur \<times> nat \<times> nat) io" where
  "slots_loop st g need cur run run_start last_cluster tail s =
    (case cur_peek st g cur s of
       (Inl err, s1) \<Rightarrow> (Inl err, s1)
     | (Inr None, s1) \<Rightarrow> (Inr (Inr (run, run_start, last_cluster, dc_steps cur)), s1)
     | (Inr (Some e), s1) \<Rightarrow>
         let tail' = (tail \<or> e ! 0 = 0);
             free = (tail' \<or> e ! 0 = 0xE5);
             run_start' = (if free \<and> run = 0 then cur else run_start);
             run' = (if free then run + 1 else 0)
         in if free \<and> run' = need then (Inr (Inl run_start'), s1)
            else (case cur_advance st g cur s1 of
                    (Inl err, s2) \<Rightarrow> (Inl err, s2)
                  | (Inr cur', s2) \<Rightarrow> slots_loop st g need cur' run' run_start' (dc_cluster cur) tail' s2))"
  by pat_completeness auto
termination
  by (relation "inv_image (less_than <*lex*> less_than) (\<lambda>(st, g, need, cur, run, run_start, last_cluster, tail, s). cur_order g cur)")
    (auto dest: cur_advance_order [OF sym])

declare slots_loop.simps [simp del]

function extend_dir :: "'s store \<Rightarrow> fat32_geom \<Rightarrow> nat \<Rightarrow> nat \<Rightarrow> fat32_dircur \<Rightarrow> nat \<Rightarrow> nat \<Rightarrow> ('s fat, fat32_dircur) io" where
  "extend_dir st g need run run_start last_cluster nclusters =
    (if run \<ge> need then io_return run_start
     else if nclusters + 1 > FAT32_DIR_MAX_ENTRIES div v_entries_per_cluster g then io_fail ENOSPC
     else io_bind (chain_grow st g last_cluster True) (\<lambda>fresh.
       extend_dir st g need (run + v_entries_per_cluster g)
         (if run = 0 then cur_init fresh else run_start) fresh (nclusters + 1)))"
  by pat_completeness auto
termination
  by (relation "measure (\<lambda>(st, g, need, run, run_start, last_cluster, nclusters). need - run)")
    (auto intro!: diff_less_mono2 simp: not_le)

declare extend_dir.simps [simp del]

definition dir_alloc_slots :: "'s store \<Rightarrow> fat32_geom \<Rightarrow> nat \<Rightarrow> nat \<Rightarrow> ('s fat, fat32_dircur) io" where
  "dir_alloc_slots st g first need =
    io_bind (slots_loop st g need (cur_init first) 0 (cur_init 0) first False) (\<lambda>r.
      case r of
        Inl start \<Rightarrow> io_return start
      | Inr (run, run_start, last_cluster, nclusters) \<Rightarrow> extend_dir st g need run run_start last_cluster nclusters)"

section \<open>Adding and deleting entries\<close>

text \<open>Write the entries from the cursor on; the position of the last one is the result.\<close>

fun write_entries :: "'s store \<Rightarrow> fat32_geom \<Rightarrow> u8 list list \<Rightarrow> fat32_dircur \<Rightarrow> ('s fat, fat32_dircur) io" where
  "write_entries st g [] cur = io_return cur"
| "write_entries st g [e] cur = io_bind (ent_write st g cur e) (\<lambda>_. io_return cur)"
| "write_entries st g (e # es) cur =
    io_bind (ent_write st g cur e) (\<lambda>_. io_bind (cur_advance st g cur) (write_entries st g es))"

definition dir_add_entry ::
    "'s store \<Rightarrow> fat32_geom \<Rightarrow> nat \<times> nat \<Rightarrow> nat \<Rightarrow> u8 list \<Rightarrow> u8 \<Rightarrow> nat \<Rightarrow> nat \<Rightarrow> nat \<Rightarrow> nat \<Rightarrow> ('s fat, fat32_info) io" where
  "dir_add_entry st g now dir_first name attr first_cluster sz wdate wtime =
    io_bind (io_lift (name_units name)) (\<lambda>units.
      let sg0 = short_gen_base name
      in io_bind (if sg_lossy sg0 then short_pick_tail st g dir_first sg0 else io_return sg0) (\<lambda>sg.
           let ents = new_entries sg units attr first_cluster sz wdate wtime (fst now) (snd now);
               (name8, short) = build_short_name (last ents)
           in io_bind (dir_alloc_slots st g dir_first (lfn_count sg units + 1)) (\<lambda>start.
                io_bind (write_entries st g ents start) (\<lambda>cur.
                  io_return
                    \<lparr>fi_name = (if sg_lfn sg then name else name8), fi_short_name = short, fi_attr = attr,
                     fi_first_cluster = first_cluster, fi_size = (if attr AND FAT32_ATTR_DIR \<noteq> 0 then 0 else sz),
                     fi_wdate = wdate, fi_wtime = wtime, fi_dir_cluster = dc_cluster cur, fi_dir_pos = dc_pos cur\<rparr>))))"

definition cur_at :: "fat32_info \<Rightarrow> fat32_dircur \<Rightarrow> bool" where
  "cur_at info cur \<longleftrightarrow> dc_cluster cur = fi_dir_cluster info \<and> dc_pos cur = fi_dir_pos info"

function delete_find :: "'s store \<Rightarrow> fat32_geom \<Rightarrow> fat32_info \<Rightarrow> fat32_dircur \<Rightarrow> fat32_dircur option \<Rightarrow> ('s fat, fat32_dircur) io" where
  "delete_find st g info cur start s =
    (case cur_peek st g cur s of
       (Inl err, s1) \<Rightarrow> (Inl err, s1)
     | (Inr None, s1) \<Rightarrow> (Inl ENOENT, s1)
     | (Inr (Some e), s1) \<Rightarrow>
         if cur_at info cur then (Inr (case start of Some c \<Rightarrow> c | None \<Rightarrow> cur), s1)
         else if e ! 0 = 0 then (Inl ENOENT, s1)
         else (case cur_advance st g cur s1 of
                 (Inl err, s2) \<Rightarrow> (Inl err, s2)
               | (Inr cur', s2) \<Rightarrow>
                   delete_find st g info cur'
                     (if e ! 0 \<noteq> 0xE5 \<and> e ! 11 AND 0x3F = 0x0F then (case start of Some c \<Rightarrow> Some c | None \<Rightarrow> Some cur) else None) s2))"
  by pat_completeness auto
termination
  by (relation "inv_image (less_than <*lex*> less_than) (\<lambda>(st, g, info, cur, start, s). cur_order g cur)")
    (auto dest: cur_advance_order [OF sym])

declare delete_find.simps [simp del]

function delete_mark :: "'s store \<Rightarrow> fat32_geom \<Rightarrow> fat32_info \<Rightarrow> fat32_dircur \<Rightarrow> ('s fat, unit) io" where
  "delete_mark st g info cur s =
    (case ent_mark_deleted st g cur s of
       (Inl err, s1) \<Rightarrow> (Inl err, s1)
     | (Inr _, s1) \<Rightarrow>
         if cur_at info cur then (Inr (), s1)
         else (case cur_advance st g cur s1 of
                 (Inl err, s2) \<Rightarrow> (Inl err, s2)
               | (Inr cur', s2) \<Rightarrow> delete_mark st g info cur' s2))"
  by pat_completeness auto
termination
  by (relation "inv_image (less_than <*lex*> less_than) (\<lambda>(st, g, info, cur, s). cur_order g cur)")
    (auto dest: cur_advance_order [OF sym])

declare delete_mark.simps [simp del]

definition entry_delete :: "'s store \<Rightarrow> fat32_geom \<Rightarrow> nat \<Rightarrow> fat32_info \<Rightarrow> ('s fat, unit) io" where
  "entry_delete st g parent_first info =
    io_bind (delete_find st g info (cur_init parent_first) None) (delete_mark st g info)"

definition dir_is_empty :: "'s store \<Rightarrow> fat32_geom \<Rightarrow> fat32_info \<Rightarrow> ('s fat, unit) io" where
  "dir_is_empty st g dir =
    (if fi_first_cluster dir = 0 then io_fail EIO
     else io_bind (dir_next st g (cur_init (fi_first_cluster dir))) (\<lambda>(info, _).
       case info of None \<Rightarrow> io_return () | Some _ \<Rightarrow> io_fail ENOTEMPTY))"

definition set_dotdot :: "'s store \<Rightarrow> fat32_geom \<Rightarrow> nat \<Rightarrow> nat \<Rightarrow> ('s fat, unit) io" where
  "set_dotdot st g dir_cluster parent_first =
    (let is_dotdot = (\<lambda>sec. sec ! 32 = DOT \<and> sec ! 33 = DOT);
         v = (if parent_first = v_root_cluster g then 0 else parent_first)
     in io_bind (fs_edit st (cluster_lba g dir_cluster)
            (\<lambda>sec. if is_dotdot sec then Some (put16 (32 + 26) v (put16 (32 + 20) (v div 2 ^ 16) sec)) else None)) (\<lambda>sec.
          if is_dotdot sec then io_return () else io_fail EIO))"

end
