(* ===== verification/FatFile.thy ===== *)
theory FatFile
  imports FatDir
begin

text \<open>
  File data of \<^verbatim>\<open>src/fs/fat32.c\<close>: reading, writing with extension of the cluster chain, and
  truncation.  An operation on an open file takes its \<open>fat32_node\<close> and gives it back updated.
\<close>

definition v_cluster_bytes :: "fat32_geom \<Rightarrow> nat" where
  "v_cluster_bytes g = 2 ^ (v_spc_shift g + 9)"

lemma v_cluster_bytes_eq: "v_cluster_bytes g = v_spc g * BLK_SECTOR_SIZE"
  by (simp add: v_cluster_bytes_def v_spc_def BLK_SECTOR_SIZE_def power_add)

text \<open>Where to start following the chain: the cached cluster when it is not past the index wanted.\<close>

definition chain_start :: "fat32_node \<Rightarrow> nat \<Rightarrow> nat \<times> nat" where
  "chain_start node index =
    (if nd_chain_cluster node \<noteq> 0 \<and> nd_chain_index node \<le> index then (nd_chain_index node, nd_chain_cluster node)
     else (0, fi_first_cluster (nd_info node)))"

primrec chain_walk :: "'s store \<Rightarrow> fat32_geom \<Rightarrow> nat \<Rightarrow> nat \<Rightarrow> ('s fat, nat) io" where
  "chain_walk st g 0 cluster = io_return cluster"
| "chain_walk st g (Suc n) cluster =
    io_bind (fat_next st g cluster) (\<lambda>next.
      case next of None \<Rightarrow> io_fail EIO | Some c \<Rightarrow> chain_walk st g n c)"

text \<open>
  The next piece of a transfer with \<open>left\<close> bytes to go at position \<open>pos\<close>: the whole sectors that
  remain in the cluster, or a part of one sector.
\<close>

definition pos_sector :: "fat32_geom \<Rightarrow> nat \<Rightarrow> nat" where
  "pos_sector g pos = pos mod v_cluster_bytes g div BLK_SECTOR_SIZE"

definition pos_in_sector :: "fat32_geom \<Rightarrow> nat \<Rightarrow> nat" where
  "pos_in_sector g pos = pos mod v_cluster_bytes g mod BLK_SECTOR_SIZE"

definition whole_sectors :: "fat32_geom \<Rightarrow> nat \<Rightarrow> nat \<Rightarrow> nat" where
  "whole_sectors g pos left =
    (if pos_in_sector g pos = 0 \<and> left \<ge> BLK_SECTOR_SIZE
     then min (left div BLK_SECTOR_SIZE) (v_spc g - pos_sector g pos) else 0)"

definition chunk_size :: "fat32_geom \<Rightarrow> nat \<Rightarrow> nat \<Rightarrow> nat" where
  "chunk_size g pos left =
    (if pos_in_sector g pos = 0 \<and> left \<ge> BLK_SECTOR_SIZE then whole_sectors g pos left * BLK_SECTOR_SIZE
     else min (BLK_SECTOR_SIZE - pos_in_sector g pos) left)"

lemma pos_sector_less: "pos_sector g pos < v_spc g"
  unfolding pos_sector_def v_cluster_bytes_eq by (simp add: BLK_SECTOR_SIZE_def less_mult_imp_div_less)

lemma chunk_size_bounds:
  assumes "0 < left"
  shows "0 < chunk_size g pos left" "chunk_size g pos left \<le> left"
proof -
  have s: "pos_sector g pos < v_spc g" by (rule pos_sector_less)
  have i: "pos_in_sector g pos < BLK_SECTOR_SIZE" by (simp add: pos_in_sector_def BLK_SECTOR_SIZE_def)
  have d: "1 \<le> left div BLK_SECTOR_SIZE" if "left \<ge> BLK_SECTOR_SIZE"
    using div_le_mono [OF that, of BLK_SECTOR_SIZE] by (simp add: BLK_SECTOR_SIZE_def)
  show "0 < chunk_size g pos left"
    using assms s i d by (auto simp: chunk_size_def whole_sectors_def BLK_SECTOR_SIZE_def)
  have "min (left div BLK_SECTOR_SIZE) k * BLK_SECTOR_SIZE \<le> left" for k
    by (rule order_trans [of _ "left div BLK_SECTOR_SIZE * BLK_SECTOR_SIZE"]) simp_all
  then show "chunk_size g pos left \<le> left" by (simp add: chunk_size_def whole_sectors_def)
qed

section \<open>Reading\<close>

definition read_chunk :: "'s store \<Rightarrow> fat32_geom \<Rightarrow> nat \<Rightarrow> nat \<Rightarrow> nat \<Rightarrow> ('s fat, u8 list) io" where
  "read_chunk st g cluster pos left =
    (let lba = cluster_lba g cluster + pos_sector g pos
     in if pos_in_sector g pos = 0 \<and> left \<ge> BLK_SECTOR_SIZE
        then fs_lift (st_read st lba (whole_sectors g pos left))
        else io_bind (fs_copy st lba) (\<lambda>sec.
               io_return (sec_get sec (pos_in_sector g pos) (chunk_size g pos left))))"

text \<open>The bytes read so far, the error that stopped the loop, and the cluster it is in with its index.\<close>

function read_loop ::
    "'s store \<Rightarrow> fat32_geom \<Rightarrow> nat \<Rightarrow> nat \<Rightarrow> nat \<Rightarrow> nat \<Rightarrow> nat \<Rightarrow> u8 list \<Rightarrow> 's fat \<Rightarrow>
     (u8 list \<times> nat \<times> errno option \<times> nat \<times> nat) \<times> 's fat" where
  "read_loop st g offset count cluster at done acc s =
    (if \<not> done < count then ((acc, done, None, at, cluster), s)
     else case read_chunk st g cluster (offset + done) (count - done) s of
            (Inl e, s1) \<Rightarrow> ((acc, done, Some e, at, cluster), s1)
          | (Inr bs, s1) \<Rightarrow>
              let done' = done + chunk_size g (offset + done) (count - done)
              in if done' < count \<and> (offset + done') mod v_cluster_bytes g = 0
                 then (case fat_next st g cluster s1 of
                         (Inl e, s2) \<Rightarrow> ((acc @ bs, done', Some e, at, cluster), s2)
                       | (Inr None, s2) \<Rightarrow> ((acc @ bs, done', Some EIO, at, cluster), s2)
                       | (Inr (Some next), s2) \<Rightarrow> read_loop st g offset count next (at + 1) done' (acc @ bs) s2)
                 else read_loop st g offset count cluster at done' (acc @ bs) s1)"
  by pat_completeness auto
termination
  by (relation "measure (\<lambda>(st, g, offset, count, cluster, at, don, acc, s). count - don)")
    (auto simp: chunk_size_bounds intro!: diff_less_mono2)

declare read_loop.simps [simp del]

text \<open>The result is the bytes copied to the buffer; their number is what the call returns.\<close>

definition fat32_read :: "'s store \<Rightarrow> fat32_geom \<Rightarrow> fat32_node \<Rightarrow> nat \<Rightarrow> nat \<Rightarrow> 's fat \<Rightarrow> u8 list res \<times> fat32_node \<times> 's fat" where
  "fat32_read st g node offset count s =
    (if fi_attr (nd_info node) AND FAT32_ATTR_DIR \<noteq> 0 then (Inl EISDIR, node, s)
     else let sz = fi_size (nd_info node)
          in if offset \<ge> sz \<or> count = 0 then (Inr [], node, s)
             else let n = min (min count (sz - offset)) 0x7FFFFFFF;
                      index = offset div v_cluster_bytes g;
                      (at, cluster) = chain_start node index
                  in if cluster < 2 then (Inl EIO, node, s)
                     else (case chain_walk st g (index - at) cluster s of
                             (Inl e, s1) \<Rightarrow> (Inl e, node, s1)
                           | (Inr c, s1) \<Rightarrow>
                               (case read_loop st g offset n c index 0 [] s1 of
                                  ((bs, done, err, at', c'), s2) \<Rightarrow>
                                    (if done \<noteq> 0 then Inr bs else Inl (case err of Some e \<Rightarrow> e | None \<Rightarrow> EIO),
                                     node\<lparr>nd_chain_index := at', nd_chain_cluster := c'\<rparr>, s2))))"

section \<open>Writing\<close>

definition node_touch :: "nat \<times> nat \<Rightarrow> nat option \<Rightarrow> fat32_node \<Rightarrow> fat32_node" where
  "node_touch now grow_to node =
    (let info = nd_info node;
         sz = (case grow_to of Some n \<Rightarrow> max n (fi_size info) | None \<Rightarrow> fi_size info)
     in node\<lparr>nd_info := info\<lparr>fi_size := sz, fi_wdate := fst now, fi_wtime := snd now,
               fi_attr := fi_attr info OR FAT32_ATTR_ARCH\<rparr>, nd_dirty := True\<rparr>)"

text \<open>The data of a piece: from the source at \<open>done\<close>, or zeros without a source.\<close>

definition put_data :: "u8 list option \<Rightarrow> nat \<Rightarrow> nat \<Rightarrow> u8 list" where
  "put_data src pos n = (case src of Some bs \<Rightarrow> take n (drop pos bs) | None \<Rightarrow> replicate n 0)"

definition split_sectors :: "nat \<Rightarrow> u8 list \<Rightarrow> u8 list list" where
  "split_sectors n bs = map (\<lambda>i. take BLK_SECTOR_SIZE (drop (i * BLK_SECTOR_SIZE) bs)) [0..<n]"

definition write_chunk :: "'s store \<Rightarrow> fat32_geom \<Rightarrow> u8 list option \<Rightarrow> nat \<Rightarrow> nat \<Rightarrow> nat \<Rightarrow> nat \<Rightarrow> ('s fat, unit) io" where
  "write_chunk st g src cluster pos done left =
    (let lba = cluster_lba g cluster + pos_sector g pos;
         data = put_data src done (chunk_size g pos left)
     in if pos_in_sector g pos = 0 \<and> left \<ge> BLK_SECTOR_SIZE
        then (case src of
                Some _ \<Rightarrow> fs_lift (st_write st lba (split_sectors (whole_sectors g pos left) data))
              | None \<Rightarrow> io_for [0..<whole_sectors g pos left] (\<lambda>w _. fs_lift (st_new st (lba + w))) ())
        else io_bind (fs_edit st lba (\<lambda>sec. Some (sec_put (pos_in_sector g pos) data sec))) (\<lambda>_. io_return ()))"

function put_loop ::
    "'s store \<Rightarrow> fat32_geom \<Rightarrow> u8 list option \<Rightarrow> nat \<Rightarrow> nat \<Rightarrow> nat \<Rightarrow> nat \<Rightarrow> nat \<Rightarrow> 's fat \<Rightarrow>
     (errno option \<times> nat \<times> nat \<times> nat) \<times> 's fat" where
  "put_loop st g src offset count cluster at done s =
    (if \<not> done < count then ((None, done, at, cluster), s)
     else case write_chunk st g src cluster (offset + done) done (count - done) s of
            (Inl e, s1) \<Rightarrow> ((Some e, done, at, cluster), s1)
          | (Inr _, s1) \<Rightarrow>
              let done' = done + chunk_size g (offset + done) (count - done)
              in if done' < count \<and> (offset + done') mod v_cluster_bytes g = 0
                 then (case io_bind (fat_next st g cluster) (\<lambda>next.
                              case next of
                                Some c \<Rightarrow> io_return c
                              | None \<Rightarrow> chain_grow st g cluster (count - done' < v_cluster_bytes g)) s1 of
                         (Inl e, s2) \<Rightarrow> ((Some e, done', at, cluster), s2)
                       | (Inr next, s2) \<Rightarrow> put_loop st g src offset count next (at + 1) done' s2)
                 else put_loop st g src offset count cluster at done' s1)"
  by pat_completeness auto
termination
  by (relation "measure (\<lambda>(st, g, src, offset, count, cluster, at, don, s). count - don)")
    (auto simp: chunk_size_bounds intro!: diff_less_mono2)

declare put_loop.simps [simp del]

text \<open>Follow \<open>n\<close> links, adding clusters when the chain ends.  \<open>covered\<close>: the last one will be overwritten.\<close>

primrec grow_walk :: "'s store \<Rightarrow> fat32_geom \<Rightarrow> bool \<Rightarrow> nat \<Rightarrow> nat \<Rightarrow> ('s fat, nat) io" where
  "grow_walk st g covered 0 cluster = io_return cluster"
| "grow_walk st g covered (Suc n) cluster =
    io_bind (fat_next st g cluster) (\<lambda>next.
      case next of
        Some c \<Rightarrow> grow_walk st g covered n c
      | None \<Rightarrow> io_bind (chain_grow st g cluster (\<not> (n = 0 \<and> covered))) (grow_walk st g covered n))"

text \<open>The result is the error, if any, and the number of bytes written.\<close>

definition file_put ::
    "'s store \<Rightarrow> fat32_geom \<Rightarrow> fat32_node \<Rightarrow> nat \<Rightarrow> u8 list option \<Rightarrow> nat \<Rightarrow> 's fat \<Rightarrow> (errno option \<times> nat) \<times> fat32_node \<times> 's fat" where
  "file_put st g node offset src count s =
    (let index = offset div v_cluster_bytes g;
         covered = (offset mod v_cluster_bytes g = 0 \<and> count \<ge> v_cluster_bytes g);
         (at0, cluster0) = chain_start node index
     in case (if cluster0 < 2
              then (case chain_grow st g 0 (\<not> (index = 0 \<and> covered)) s of
                      (Inl e, s1) \<Rightarrow> (Inl e, node, s1)
                    | (Inr c, s1) \<Rightarrow>
                        (Inr (0, c), node\<lparr>nd_info := (nd_info node)\<lparr>fi_first_cluster := c\<rparr>, nd_chain_index := 0,
                                         nd_chain_cluster := c, nd_dirty := True\<rparr>, s1))
              else (Inr (at0, cluster0), node, s)) of
          (Inl e, node1, s1) \<Rightarrow> ((Some e, 0), node1, s1)
        | (Inr (at, c), node1, s1) \<Rightarrow>
            (case grow_walk st g covered (index - at) c s1 of
               (Inl e, s2) \<Rightarrow> ((Some e, 0), node1, s2)
             | (Inr c1, s2) \<Rightarrow>
                 (case put_loop st g src offset count c1 index 0 s2 of
                    ((err, done, at', c'), s3) \<Rightarrow>
                      ((err, done), node1\<lparr>nd_chain_index := at', nd_chain_cluster := c'\<rparr>, s3))))"

definition write_check :: "fat32_geom \<Rightarrow> fat32_node \<Rightarrow> unit res" where
  "write_check g node =
    (if fi_attr (nd_info node) AND FAT32_ATTR_DIR \<noteq> 0 then Inl EISDIR
     else if v_readonly g then Inl EROFS
     else if fi_attr (nd_info node) AND FAT32_ATTR_RO \<noteq> 0 then Inl EACCES
     else Inr ())"

definition fat32_write ::
    "'s store \<Rightarrow> fat32_geom \<Rightarrow> nat \<times> nat \<Rightarrow> fat32_node \<Rightarrow> nat \<Rightarrow> u8 list \<Rightarrow> 's fat \<Rightarrow> nat res \<times> fat32_node \<times> 's fat" where
  "fat32_write st g now node offset buf s =
    (case write_check g node of
       Inl e \<Rightarrow> (Inl e, node, s)
     | Inr _ \<Rightarrow>
         if buf = [] then (Inr 0, node, s)
         else if offset = FAT32_MAX_SIZE then (Inl EFBIG, node, s)
         else let count = min (min (length buf) 0x7FFFFFFF) (FAT32_MAX_SIZE - offset);
                  sz = fi_size (nd_info node);
                  (hole, node1, s1) =
                    (if offset > sz
                     then (case file_put st g node sz None (offset - sz) s of
                             ((err, done), nd, t) \<Rightarrow> (err, (if done \<noteq> 0 then node_touch now (Some (sz + done)) nd else nd), t))
                     else (None, node, s))
              in case hole of
                   Some e \<Rightarrow> (Inl e, node1, s1)
                 | None \<Rightarrow>
                     (case file_put st g node1 offset (Some buf) count s1 of
                        ((err, done), nd, s2) \<Rightarrow>
                          (if done \<noteq> 0 then Inr done else Inl (case err of Some e \<Rightarrow> e | None \<Rightarrow> EIO),
                           node_touch now (if done \<noteq> 0 then Some (offset + done) else None) nd, s2)))"

section \<open>Truncating\<close>

text \<open>The cluster \<open>n\<close> links further, or \<open>None\<close> when the chain ends before.\<close>

primrec trunc_walk :: "'s store \<Rightarrow> fat32_geom \<Rightarrow> nat \<Rightarrow> nat \<Rightarrow> ('s fat, nat option) io" where
  "trunc_walk st g 0 cluster = io_return (Some cluster)"
| "trunc_walk st g (Suc n) cluster =
    io_bind (fat_next st g cluster) (\<lambda>next.
      case next of None \<Rightarrow> io_return None | Some c \<Rightarrow> trunc_walk st g n c)"

text \<open>Step 1: the last cluster that stays and the first of the tail to free (0 for none).\<close>

definition trunc_find :: "'s store \<Rightarrow> fat32_geom \<Rightarrow> fat32_node \<Rightarrow> nat \<Rightarrow> ('s fat, nat \<times> nat) io" where
  "trunc_find st g node keep =
    (let old_first = fi_first_cluster (nd_info node)
     in if keep \<noteq> 0 \<and> old_first \<ge> 2
        then let (at, cluster) = chain_start node (keep - 1)
             in io_bind (trunc_walk st g (keep - 1 - at) cluster) (\<lambda>c.
                  case c of
                    None \<Rightarrow> io_return (0, 0)
                  | Some kept \<Rightarrow>
                      io_bind (fat_next st g kept) (\<lambda>next.
                        io_return (kept, case next of Some t \<Rightarrow> t | None \<Rightarrow> 0)))
        else if keep = 0 then io_return (0, old_first)
        else io_return (0, 0))"

text \<open>Step 2: the node with its new size, and the state it goes back to when its entry cannot be written.\<close>

definition trunc_node :: "nat \<times> nat \<Rightarrow> nat \<Rightarrow> nat \<Rightarrow> fat32_node \<Rightarrow> fat32_node" where
  "trunc_node now new_size keep node =
    (let info = nd_info node; stale = (nd_chain_index node \<ge> keep)
     in node\<lparr>nd_info := info\<lparr>fi_size := new_size, fi_first_cluster := (if keep = 0 then 0 else fi_first_cluster info),
                fi_wdate := fst now, fi_wtime := snd now, fi_attr := fi_attr info OR FAT32_ATTR_ARCH\<rparr>,
             nd_dirty := True,
             nd_chain_index := (if stale then 0 else nd_chain_index node),
             nd_chain_cluster := (if stale then 0 else nd_chain_cluster node)\<rparr>)"

definition trunc_undo :: "fat32_node \<Rightarrow> fat32_node \<Rightarrow> fat32_node" where
  "trunc_undo old node =
    node\<lparr>nd_info := (nd_info node)\<lparr>fi_size := fi_size (nd_info old), fi_first_cluster := fi_first_cluster (nd_info old),
             fi_wdate := fi_wdate (nd_info old), fi_wtime := fi_wtime (nd_info old)\<rparr>,
         nd_dirty := nd_dirty old, nd_chain_index := 0, nd_chain_cluster := 0\<rparr>"

text \<open>Step 3: the new end of the chain, and the tail freed.\<close>

definition trunc_chain :: "'s store \<Rightarrow> fat32_geom \<Rightarrow> nat \<Rightarrow> nat \<Rightarrow> nat \<Rightarrow> ('s fat, unit) io" where
  "trunc_chain st g keep kept tail =
    io_bind (if keep \<noteq> 0 \<and> kept \<noteq> 0 then fat_set st g kept FAT32_EOC else io_return ()) (\<lambda>_.
      if tail \<noteq> 0 then cluster_free_chain st g tail else io_return ())"

definition keep_clusters :: "fat32_geom \<Rightarrow> nat \<Rightarrow> nat" where
  "keep_clusters g new_size =
    new_size div v_cluster_bytes g + (if new_size mod v_cluster_bytes g \<noteq> 0 then 1 else 0)"

definition trunc_shrink ::
    "'s store \<Rightarrow> fat32_geom \<Rightarrow> nat \<times> nat \<Rightarrow> fat32_node \<Rightarrow> nat \<Rightarrow> 's fat \<Rightarrow> unit res \<times> fat32_node \<times> 's fat" where
  "trunc_shrink st g now node new_size s =
    (case trunc_find st g node (keep_clusters g new_size) s of
       (Inl e, s1) \<Rightarrow> (Inl e, node, s1)
     | (Inr (kept, tail), s1) \<Rightarrow>
         (case fat32_node_sync st g (trunc_node now new_size (keep_clusters g new_size) node) s1 of
            (Inl e, node2, s2) \<Rightarrow> (Inl e, trunc_undo node node2, s2)
          | (Inr _, node2, s2) \<Rightarrow>
              (case trunc_chain st g (keep_clusters g new_size) kept tail s2 of (r, s3) \<Rightarrow> (r, node2, s3))))"

definition fat32_truncate ::
    "'s store \<Rightarrow> fat32_geom \<Rightarrow> nat \<times> nat \<Rightarrow> fat32_node \<Rightarrow> nat \<Rightarrow> 's fat \<Rightarrow> unit res \<times> fat32_node \<times> 's fat" where
  "fat32_truncate st g now node new_size s =
    (let sz = fi_size (nd_info node)
     in case write_check g node of
          Inl e \<Rightarrow> (Inl e, node, s)
        | Inr _ \<Rightarrow>
            if new_size = sz then (Inr (), node, s)
            else if new_size > sz
            then (case file_put st g node sz None (new_size - sz) s of
                    ((err, done), nd, s1) \<Rightarrow>
                      ((case err of Some e \<Rightarrow> Inl e | None \<Rightarrow> Inr ()),
                       (if done \<noteq> 0 then node_touch now (Some (sz + done)) nd else nd), s1))
            else trunc_shrink st g now node new_size s)"

end
