(* ===== verification/FatOps.thy ===== *)
theory FatOps
  imports FatFile
begin

text \<open>
  Directory operations of \<^verbatim>\<open>src/fs/fat32.c\<close>: create, mkdir, unlink, rmdir and rename, with the
  resolution of a path into parent and leaf and the flag that admits one such operation at a time.
\<close>

section \<open>Resolving a path\<close>

definition FAT32_PATH_BUF :: nat where
  "FAT32_PATH_BUF = 256"

definition trim_slashes :: "u8 list \<Rightarrow> u8 list" where
  "trim_slashes path = rev (dropWhile (\<lambda>c. c = SLASH) (rev path))"

definition path_leaf :: "u8 list \<Rightarrow> u8 list" where
  "path_leaf path = rev (takeWhile (\<lambda>c. c \<noteq> SLASH) (rev (trim_slashes path)))"

definition path_parent :: "u8 list \<Rightarrow> u8 list" where
  "path_parent path =
    (let whole = trim_slashes path in trim_slashes (take (length whole - length (path_leaf path)) whole))"

text \<open>
  The outcomes of \<open>resolve_leaf_ex\<close> other than an error: the parent does not exist, or it does and
  the leaf is missing or found.
\<close>

datatype (plugins del: quickcheck_random quickcheck_exhaustive quickcheck_bounded_forall
    quickcheck_full_exhaustive quickcheck_narrowing) resolved =
    NoParent
  | LeafMissing fat32_info "u8 list" "u8 list"
  | LeafFound fat32_info "u8 list" "u8 list" fat32_info

definition resolve_leaf_ex :: "'s store \<Rightarrow> fat32_geom \<Rightarrow> u8 list \<Rightarrow> ('s fat, resolved) io" where
  "resolve_leaf_ex st g path =
    (let leaf = path_leaf path; pp = path_parent path
     in if leaf = [] then io_fail EINVAL
        else if length leaf > FAT32_NAME_MAX then io_fail ENAMETOOLONG
        else if length pp \<ge> FAT32_PATH_BUF then io_fail ENAMETOOLONG
        else if leaf = [DOT] \<or> leaf = [DOT, DOT] then io_fail EINVAL
        else io_bind (io_try (fat32_lookup st g pp)) (\<lambda>r.
          case r of
            Inl e \<Rightarrow> if e = ENOENT then io_return NoParent else io_fail e
          | Inr parent \<Rightarrow>
              if fi_attr parent AND FAT32_ATTR_DIR = 0 then io_fail ENOTDIR
              else io_bind (io_try (dir_find st g (fi_first_cluster parent) leaf)) (\<lambda>f.
                case f of
                  Inl e \<Rightarrow> if e = ENOENT then io_return (LeafMissing parent pp leaf) else io_fail e
                | Inr info \<Rightarrow> io_return (LeafFound parent pp leaf info))))"

definition resolve_leaf :: "'s store \<Rightarrow> fat32_geom \<Rightarrow> u8 list \<Rightarrow> ('s fat, fat32_info \<times> u8 list \<times> u8 list \<times> fat32_info) io" where
  "resolve_leaf st g path =
    io_bind (resolve_leaf_ex st g path) (\<lambda>r.
      case r of
        LeafFound parent pp leaf info \<Rightarrow> io_return (parent, pp, leaf, info)
      | _ \<Rightarrow> io_fail ENOENT)"

text \<open>Whether a cluster starts a directory that is a component of the path.\<close>

definition path_prefixes :: "u8 list \<Rightarrow> nat list" where
  "path_prefixes pp =
    filter (\<lambda>i. (i = length pp \<or> pp ! i = SLASH) \<and> pp ! (i - 1) \<noteq> SLASH) [1..<length pp + 1]"

definition path_has_cluster :: "'s store \<Rightarrow> fat32_geom \<Rightarrow> u8 list \<Rightarrow> nat \<Rightarrow> ('s fat, bool) io" where
  "path_has_cluster st g pp cluster =
    io_for (path_prefixes pp) (\<lambda>i found.
      if found then io_return True
      else io_bind (fat32_lookup st g (take i pp)) (\<lambda>info. io_return (fi_first_cluster info = cluster))) False"

section \<open>Open files\<close>

definition open_find :: "fat32_vnode list \<Rightarrow> fat32_info \<Rightarrow> fat32_vnode option" where
  "open_find vs info =
    find (\<lambda>fv. let other = nd_info (fv_node fv)
               in fi_dir_cluster other = fi_dir_cluster info \<and>
                  (if fi_dir_cluster info \<noteq> 0 then fi_dir_pos other = fi_dir_pos info
                   else fi_attr other AND FAT32_ATTR_DIR \<noteq> 0)) vs"

definition entry_is_open :: "'s fat \<Rightarrow> fat32_info \<Rightarrow> bool" where
  "entry_is_open fs info \<longleftrightarrow> open_find (fs_open_list fs) info \<noteq> None"

text \<open>\<open>dirop_enter\<close>, the operation, \<open>dirop_leave\<close>.\<close>

definition dirop_enter :: "('s fat, unit) io" where
  "dirop_enter fs = (if fs_dir_busy fs then (Inl EBUSY, fs) else (Inr (), fs\<lparr>fs_dir_busy := True\<rparr>))"

definition dirop_leave :: "'s fat \<Rightarrow> 's fat" where
  "dirop_leave fs = fs\<lparr>fs_dir_busy := False\<rparr>"

definition with_dirop :: "fat32_geom \<Rightarrow> ('s fat, 'a) io \<Rightarrow> ('s fat, 'a) io" where
  "with_dirop g m =
    (if v_readonly g then io_fail EROFS
     else io_bind dirop_enter (\<lambda>_.
       io_bind (io_try m) (\<lambda>r. io_bind (io_modify dirop_leave) (\<lambda>_. io_lift r))))"

section \<open>Creating\<close>

text \<open>The entries \<open>.\<close> and \<open>..\<close> of a new directory; the other bytes of the cleared sector stay.\<close>

definition dot_entry :: "u8 list \<Rightarrow> nat \<Rightarrow> nat \<times> nat \<Rightarrow> u8 list \<Rightarrow> u8 list" where
  "dot_entry dots target now e =
    (put32 28 0 \<circ> put16 26 target \<circ> put16 24 (fst now) \<circ> put16 22 (snd now) \<circ> put16 20 (target div 2 ^ 16) \<circ>
     put16 18 (fst now) \<circ> put16 16 (fst now) \<circ> put16 14 (snd now))
      ((sec_put 0 (pad_spaces 11 dots) e)[11 := FAT32_ATTR_DIR])"

definition mkdir_sector :: "nat \<Rightarrow> nat \<Rightarrow> nat \<times> nat \<Rightarrow> u8 list \<Rightarrow> u8 list" where
  "mkdir_sector cluster up now sec =
    change_entry 32 (dot_entry [DOT, DOT] up now) (change_entry 0 (dot_entry [DOT] cluster now) sec)"

definition new_dir :: "'s store \<Rightarrow> fat32_geom \<Rightarrow> nat \<times> nat \<Rightarrow> fat32_info \<Rightarrow> ('s fat, nat) io" where
  "new_dir st g now parent =
    io_bind (chain_grow st g 0 True) (\<lambda>cluster.
      let up = (if fi_first_cluster parent = v_root_cluster g then 0 else fi_first_cluster parent)
      in io_bind (io_try (fs_edit st (cluster_lba g cluster) (\<lambda>sec. Some (mkdir_sector cluster up now sec)))) (\<lambda>r.
           case r of
             Inl e \<Rightarrow> io_bind (io_try (cluster_free_chain st g cluster)) (\<lambda>_. io_fail e)
           | Inr _ \<Rightarrow> io_return cluster))"

definition create_locked :: "'s store \<Rightarrow> fat32_geom \<Rightarrow> nat \<times> nat \<Rightarrow> u8 list \<Rightarrow> u8 \<Rightarrow> ('s fat, fat32_info) io" where
  "create_locked st g now path attr =
    io_bind (resolve_leaf_ex st g path) (\<lambda>r.
      case r of
        LeafFound _ _ _ _ \<Rightarrow> io_fail EEXIST
      | NoParent \<Rightarrow> io_fail ENOENT
      | LeafMissing parent pp leaf \<Rightarrow>
          io_bind (io_lift (name_units leaf)) (\<lambda>_.
            io_bind (if attr AND FAT32_ATTR_DIR \<noteq> 0 then new_dir st g now parent else io_return 0) (\<lambda>cluster.
              io_bind (io_try (dir_add_entry st g now (fi_first_cluster parent) leaf attr cluster 0 (fst now) (snd now))) (\<lambda>a.
                case a of
                  Inr info \<Rightarrow> io_return info
                | Inl e \<Rightarrow>
                    io_bind (if cluster \<noteq> 0 then io_try (cluster_free_chain st g cluster) else io_return (Inr ())) (\<lambda>_.
                      io_fail e)))))"

definition fat32_create :: "'s store \<Rightarrow> fat32_geom \<Rightarrow> nat \<times> nat \<Rightarrow> u8 list \<Rightarrow> ('s fat, fat32_info) io" where
  "fat32_create st g now path = with_dirop g (create_locked st g now path FAT32_ATTR_ARCH)"

definition fat32_mkdir :: "'s store \<Rightarrow> fat32_geom \<Rightarrow> nat \<times> nat \<Rightarrow> u8 list \<Rightarrow> ('s fat, unit) io" where
  "fat32_mkdir st g now path =
    with_dirop g (io_bind (create_locked st g now path FAT32_ATTR_DIR) (\<lambda>_. io_return ()))"

section \<open>Removing\<close>

definition remove_locked :: "'s store \<Rightarrow> fat32_geom \<Rightarrow> u8 list \<Rightarrow> bool \<Rightarrow> ('s fat, unit) io" where
  "remove_locked st g path want_dir =
    io_bind (resolve_leaf st g path) (\<lambda>(parent, pp, leaf, info).
      let is_dir = (fi_attr info AND FAT32_ATTR_DIR \<noteq> 0)
      in if want_dir \<and> \<not> is_dir then io_fail ENOTDIR
         else if \<not> want_dir \<and> is_dir then io_fail EISDIR
         else if fi_attr info AND FAT32_ATTR_RO \<noteq> 0 then io_fail EACCES
         else if fi_dir_cluster info = 0 then io_fail EBUSY
         else io_bind (io_get (\<lambda>fs. entry_is_open fs info)) (\<lambda>is_open.
           if is_open then io_fail EBUSY
           else io_bind (if want_dir then dir_is_empty st g info else io_return ()) (\<lambda>_.
             io_bind (entry_delete st g (fi_first_cluster parent) info) (\<lambda>_.
               if fi_first_cluster info \<noteq> 0 then cluster_free_chain st g (fi_first_cluster info) else io_return ()))))"

definition fat32_unlink :: "'s store \<Rightarrow> fat32_geom \<Rightarrow> u8 list \<Rightarrow> ('s fat, unit) io" where
  "fat32_unlink st g path = with_dirop g (remove_locked st g path False)"

definition fat32_rmdir :: "'s store \<Rightarrow> fat32_geom \<Rightarrow> u8 list \<Rightarrow> ('s fat, unit) io" where
  "fat32_rmdir st g path = with_dirop g (remove_locked st g path True)"

section \<open>Renaming\<close>

text \<open>What stands in the way at the new name, when it is another entry: the checks and its deletion.\<close>

definition displace :: "'s store \<Rightarrow> fat32_geom \<Rightarrow> bool \<Rightarrow> fat32_info \<Rightarrow> fat32_info \<Rightarrow> ('s fat, unit) io" where
  "displace st g old_dir np ni =
    (let is_dir = (fi_attr ni AND FAT32_ATTR_DIR \<noteq> 0)
     in if old_dir \<and> \<not> is_dir then io_fail ENOTDIR
        else if \<not> old_dir \<and> is_dir then io_fail EISDIR
        else if fi_attr ni AND FAT32_ATTR_RO \<noteq> 0 then io_fail EACCES
        else io_bind (io_get (\<lambda>fs. entry_is_open fs ni)) (\<lambda>is_open.
          if fi_dir_cluster ni = 0 \<or> is_open then io_fail EBUSY
          else io_bind (if is_dir then dir_is_empty st g ni else io_return ()) (\<lambda>_.
            entry_delete st g (fi_first_cluster np) ni)))"

text \<open>A directory is not moved into itself or below itself.\<close>

definition check_below :: "'s store \<Rightarrow> fat32_geom \<Rightarrow> bool \<Rightarrow> fat32_info \<Rightarrow> fat32_info \<Rightarrow> u8 list \<Rightarrow> ('s fat, unit) io" where
  "check_below st g old_dir oi np npp =
    (if \<not> old_dir then io_return ()
     else if fi_first_cluster np = fi_first_cluster oi then io_fail EINVAL
     else io_bind (path_has_cluster st g npp (fi_first_cluster oi)) (\<lambda>below.
       if below then io_fail EINVAL else io_return ()))"

text \<open>The moves of the entry itself; \<open>ni\<close> is the other entry that had the new name, if any.\<close>

definition move_entry ::
    "'s store \<Rightarrow> fat32_geom \<Rightarrow> nat \<times> nat \<Rightarrow> fat32_info \<Rightarrow> fat32_info \<Rightarrow> fat32_info \<Rightarrow> u8 list \<Rightarrow> fat32_info option \<Rightarrow> bool \<Rightarrow> ('s fat, unit) io" where
  "move_entry st g now op oi np nleaf ni same =
    (let old_dir = (fi_attr oi AND FAT32_ATTR_DIR \<noteq> 0)
     in io_bind (case ni of
                   Some i \<Rightarrow> displace st g old_dir np i
                 | None \<Rightarrow> if same then entry_delete st g (fi_first_cluster op) oi else io_return ()) (\<lambda>_.
          io_bind (dir_add_entry st g now (fi_first_cluster np) nleaf (fi_attr oi) (fi_first_cluster oi) (fi_size oi)
                     (fi_wdate oi) (fi_wtime oi)) (\<lambda>_.
            io_bind (if \<not> same then entry_delete st g (fi_first_cluster op) oi else io_return ()) (\<lambda>_.
              io_bind (if old_dir \<and> fi_first_cluster np \<noteq> fi_first_cluster op
                       then set_dotdot st g (fi_first_cluster oi) (fi_first_cluster np) else io_return ()) (\<lambda>_.
                case ni of
                  Some i \<Rightarrow> if fi_first_cluster i \<noteq> 0 then cluster_free_chain st g (fi_first_cluster i) else io_return ()
                | None \<Rightarrow> io_return ())))))"

definition rename_locked :: "'s store \<Rightarrow> fat32_geom \<Rightarrow> nat \<times> nat \<Rightarrow> u8 list \<Rightarrow> u8 list \<Rightarrow> ('s fat, unit) io" where
  "rename_locked st g now old_path new_path =
    io_bind (resolve_leaf st g old_path) (\<lambda>(op, opp, oleaf, oi).
      if fi_dir_cluster oi = 0 then io_fail EBUSY
      else io_bind (resolve_leaf_ex st g new_path) (\<lambda>r.
        io_bind (case r of
                   NoParent \<Rightarrow> io_fail ENOENT
                 | LeafMissing np npp nleaf \<Rightarrow> io_return (np, npp, nleaf, None)
                 | LeafFound np npp nleaf ni \<Rightarrow> io_return (np, npp, nleaf, Some ni)) (\<lambda>(np, npp, nleaf, found).
          io_bind (io_lift (name_units nleaf)) (\<lambda>_.
            let old_dir = (fi_attr oi AND FAT32_ATTR_DIR \<noteq> 0);
                same = (case found of Some ni \<Rightarrow> fi_dir_cluster ni = fi_dir_cluster oi \<and> fi_dir_pos ni = fi_dir_pos oi | None \<Rightarrow> False)
            in if same \<and> oleaf = nleaf then io_return ()
               else io_bind (io_get (\<lambda>fs. entry_is_open fs oi)) (\<lambda>is_open.
                 if is_open then io_fail EBUSY
                 else io_bind (check_below st g old_dir oi np npp) (\<lambda>_.
                   move_entry st g now op oi np nleaf (if same then None else found) same))))))"

definition fat32_rename :: "'s store \<Rightarrow> fat32_geom \<Rightarrow> nat \<times> nat \<Rightarrow> u8 list \<Rightarrow> u8 list \<Rightarrow> ('s fat, unit) io" where
  "fat32_rename st g now old_path new_path = with_dirop g (rename_locked st g now old_path new_path)"

end
