(* ===== verification/FatVnode.thy ===== *)
theory FatVnode
  imports FatOps
begin

text \<open>
  Open FAT32 files as vnodes, from \<^verbatim>\<open>src/fs/fat32.c\<close>: the list of open vnodes of a volume, opening
  with creation and truncation, the operations the VFS calls, and the release of the last
  descriptor.  A vnode is named by its address \<open>fv_id\<close>; an address not in the list is no vnode of
  the volume.
\<close>

definition FAT32_VNODE_PATH_MAX :: nat where
  "FAT32_VNODE_PATH_MAX = 128"

text \<open>The vnode at an address, and the list with a vnode changed in place.\<close>

definition fv_of :: "'s fat \<Rightarrow> nat \<Rightarrow> fat32_vnode option" where
  "fv_of fs i = find (\<lambda>fv. fv_id fv = i) (fs_open_list fs)"

definition fv_update :: "fat32_vnode \<Rightarrow> 's fat \<Rightarrow> 's fat" where
  "fv_update fv fs = fs\<lparr>fs_open_list := map (\<lambda>x. if fv_id x = fv_id fv then fv else x) (fs_open_list fs)\<rparr>"

definition fv_read :: "'s store \<Rightarrow> fat32_geom \<Rightarrow> nat \<Rightarrow> nat \<Rightarrow> int \<Rightarrow> ('s fat, u8 list) io" where
  "fv_read st g i count offset fs =
    (case fv_of fs i of
       None \<Rightarrow> (Inl EINVAL, fs)
     | Some fv \<Rightarrow>
         if offset < 0 then (Inl EINVAL, fs)
         else if offset > 0xFFFFFFFF then (Inr [], fs)
         else (case fat32_read st g (fv_node fv) (nat offset) count fs of
                 (r, nd, fs1) \<Rightarrow> (r, fv_update (fv\<lparr>fv_node := nd\<rparr>) fs1)))"

definition fv_write :: "'s store \<Rightarrow> fat32_geom \<Rightarrow> nat \<times> nat \<Rightarrow> nat \<Rightarrow> u8 list \<Rightarrow> int \<Rightarrow> ('s fat, nat) io" where
  "fv_write st g now i buf offset fs =
    (case fv_of fs i of
       None \<Rightarrow> (Inl EINVAL, fs)
     | Some fv \<Rightarrow>
         if offset < 0 then (Inl EINVAL, fs)
         else if offset > int FAT32_MAX_SIZE then (Inl EFBIG, fs)
         else (case fat32_write st g now (fv_node fv) (nat offset) buf fs of
                 (r, nd, fs1) \<Rightarrow> (r, fv_update (fv\<lparr>fv_node := nd, fv_size := fi_size (nd_info nd)\<rparr>) fs1)))"

definition fv_dup :: "nat \<Rightarrow> 's fat \<Rightarrow> 's fat" where
  "fv_dup i fs =
    (case fv_of fs i of None \<Rightarrow> fs | Some fv \<Rightarrow> fv_update (fv\<lparr>fv_opens := fv_opens fv + 1\<rparr>) fs)"

text \<open>The last descriptor writes the directory entry and takes the vnode off the list.\<close>

definition fv_release :: "'s store \<Rightarrow> fat32_geom \<Rightarrow> nat \<Rightarrow> 's fat \<Rightarrow> 's fat" where
  "fv_release st g i fs =
    (case fv_of fs i of
       None \<Rightarrow> fs
     | Some fv \<Rightarrow>
         if fv_opens fv = 0 then fs
         else if fv_opens fv \<noteq> 1 then fv_update (fv\<lparr>fv_opens := fv_opens fv - 1\<rparr>) fs
         else (case fat32_node_sync st g (fv_node fv) fs of
                 (_, nd, fs1) \<Rightarrow>
                   fs1\<lparr>fs_open_list := filter (\<lambda>x. fv_id x \<noteq> i) (fs_open_list fs1),
                       fs_open_nodes := fs_open_nodes fs1 - 1\<rparr>))"

text \<open>
  Opening.  \<open>addr\<close> is what the allocator answers: \<open>None\<close> when it has no memory.  A file that is open
  already is shared.
\<close>

definition open_entry :: "'s store \<Rightarrow> fat32_geom \<Rightarrow> nat \<times> nat \<Rightarrow> u8 list \<Rightarrow> int \<Rightarrow> ('s fat, fat32_info) io" where
  "open_entry st g now path flags =
    io_bind (io_try (fat32_lookup st g path)) (\<lambda>r.
      io_bind (if r = Inl ENOENT \<and> has_flag flags O_CREAT then fat32_create st g now path else io_lift r) (\<lambda>info.
        if \<not> rdonly flags \<or> has_flag flags O_TRUNC
        then (if fi_attr info AND FAT32_ATTR_DIR \<noteq> 0 then io_fail EISDIR
              else if v_readonly g then io_fail EROFS
              else if fi_attr info AND FAT32_ATTR_RO \<noteq> 0 then io_fail EACCES
              else io_return info)
        else io_return info))"

definition open_share :: "nat \<Rightarrow> u8 list \<Rightarrow> fat32_info \<Rightarrow> 's fat \<Rightarrow> fat32_vnode \<times> 's fat" where
  "open_share addr path info fs =
    (case open_find (fs_open_list fs) info of
       Some fv \<Rightarrow> let fv' = fv\<lparr>fv_opens := fv_opens fv + 1\<rparr> in (fv', fv_update fv' fs)
     | None \<Rightarrow>
         let fv = \<lparr>fv_id = addr, fv_path = path, fv_dir = (fi_attr info AND FAT32_ATTR_DIR \<noteq> 0), fv_size = fi_size info,
                   fv_node = fat32_node_init info, fv_opens = 1\<rparr>
         in (fv, fs\<lparr>fs_open_list := fv # fs_open_list fs, fs_open_nodes := fs_open_nodes fs + 1\<rparr>))"

definition fat32_vnode_open :: "'s store \<Rightarrow> fat32_geom \<Rightarrow> nat \<times> nat \<Rightarrow> nat option \<Rightarrow> u8 list \<Rightarrow> int \<Rightarrow> ('s fat, nat) io" where
  "fat32_vnode_open st g now addr path flags fs =
    (if length path \<ge> FAT32_VNODE_PATH_MAX then (Inl ENAMETOOLONG, fs)
     else case open_entry st g now path flags fs of
            (Inl e, fs1) \<Rightarrow> (Inl e, fs1)
          | (Inr info, fs1) \<Rightarrow>
              (case addr of
                 None \<Rightarrow> (Inl ENOMEM, fs1)
               | Some a \<Rightarrow>
                   (case open_share a path info fs1 of
                      (fv, fs2) \<Rightarrow>
                        if has_flag flags O_TRUNC \<and> \<not> fv_dir fv
                        then (case fat32_truncate st g now (fv_node fv) 0 fs2 of
                                (r, nd, fs3) \<Rightarrow>
                                  let fs4 = fv_update (fv\<lparr>fv_node := nd, fv_size := fi_size (nd_info nd)\<rparr>) fs3
                                  in case r of
                                       Inl e \<Rightarrow> (Inl e, fv_release st g (fv_id fv) fs4)
                                     | Inr _ \<Rightarrow> (Inr (fv_id fv), fs4))
                        else (Inr (fv_id fv), fs2))))"

record fat32_dirent =
  de_name :: "u8 list"
  de_dir :: bool
  de_ino :: nat
  de_off :: nat

definition fat32_vnode_readdir :: "'s store \<Rightarrow> fat32_geom \<Rightarrow> nat \<Rightarrow> nat \<Rightarrow> ('s fat, fat32_dirent option) io" where
  "fat32_vnode_readdir st g i index fs =
    (case fv_of fs i of
       None \<Rightarrow> (Inl EINVAL, fs)
     | Some fv \<Rightarrow>
         if \<not> fv_dir fv then (Inl ENOTDIR, fs)
         else (case fat32_readdir st g (fv_node fv) index fs of
                 (Inl e, fs1) \<Rightarrow> (Inl e, fs1)
               | (Inr (info, nd), fs1) \<Rightarrow>
                   (Inr (map_option (\<lambda>x. \<lparr>de_name = fi_name x, de_dir = (fi_attr x AND FAT32_ATTR_DIR \<noteq> 0),
                                           de_ino = fi_first_cluster x, de_off = (index + 1) mod 2 ^ 32\<rparr>) info),
                    fv_update (fv\<lparr>fv_node := nd\<rparr>) fs1)))"

text \<open>
  Mounting at a path.  \<open>vfs\<close> is the answer of \<open>vfs_mount_fs\<close>; when it refuses, the volume is
  unmounted again.
\<close>

definition fat32_vfs_mount :: "'s store \<Rightarrow> nat \<Rightarrow> bool \<Rightarrow> bool \<Rightarrow> unit res \<Rightarrow> 's \<Rightarrow> (fat32_geom \<times> 's fat) res \<times> 's" where
  "fat32_vfs_mount st sectors ro mem vfs d =
    (case fat32_mount st sectors ro mem d of
       (Inl e, d1) \<Rightarrow> (Inl e, d1)
     | (Inr (g, fs), d1) \<Rightarrow>
         (case vfs of
            Inr _ \<Rightarrow> (Inr (g, fs), d1)
          | Inl e \<Rightarrow> (case fat32_unmount st g fs of (_, fs1) \<Rightarrow> (Inl e, fs_dev fs1))))"

end
