(* ===== verification/Pmm.thy ===== *)
theory Pmm
  imports Prelude
begin

text \<open>
  The physical frame allocator, \<^verbatim>\<open>src/mm/pmm.c\<close>: a bitmap of used frames, a byte of
  reference count per frame, and a next-fit cursor.  Physical addresses and
  \<open>size_t\<close> values are naturals with the 64-bit wrap of \<open>start + size\<close> written out.
  The spinlock brackets every operation, so each operation is one atomic step.
\<close>

section \<open>State\<close>

record mem_region =
  mr_base :: nat
  mr_size :: nat
  mr_type :: nat

definition MEM_REGION_USABLE :: nat where
  "MEM_REGION_USABLE = 1"

definition PMM_MAX_PHYS_ADDR :: nat where
  "PMM_MAX_PHYS_ADDR = 2 ^ 32"

definition PMM_MAX_FRAMES :: nat where
  "PMM_MAX_FRAMES = PMM_MAX_PHYS_ADDR div PAGE_SIZE"

definition PMM_REF_SATURATED :: u8 where
  "PMM_REF_SATURATED = 0xff"

record pmm =
  g_frame_bitmap :: "nat \<Rightarrow> u8"
  g_frame_refs :: "nat \<Rightarrow> u8"
  g_frame_limit :: nat
  g_total_pages :: nat
  g_free_pages :: nat
  g_search_start :: nat

section \<open>Operations\<close>

definition frame_mask :: "nat \<Rightarrow> u8" where
  "frame_mask frame = push_bit (frame mod 8) 1"

definition frame_is_used :: "pmm \<Rightarrow> nat \<Rightarrow> bool" where
  "frame_is_used s frame \<longleftrightarrow> g_frame_bitmap s (frame div 8) AND frame_mask frame \<noteq> 0"

definition frame_set_used :: "nat \<Rightarrow> pmm \<Rightarrow> pmm" where
  "frame_set_used frame s =
    (let s1 = (if g_frame_bitmap s (frame div 8) AND frame_mask frame = 0
               then s\<lparr>g_frame_bitmap := (g_frame_bitmap s)
                          (frame div 8 := g_frame_bitmap s (frame div 8) OR frame_mask frame),
                      g_free_pages := (if g_free_pages s \<noteq> 0 then g_free_pages s - 1 else 0)\<rparr>
               else s)
     in if g_frame_refs s1 frame = 0
        then s1\<lparr>g_frame_refs := (g_frame_refs s1)(frame := 1)\<rparr> else s1)"

definition frame_set_free :: "nat \<Rightarrow> pmm \<Rightarrow> pmm" where
  "frame_set_free frame s =
    (let s1 = (if g_frame_bitmap s (frame div 8) AND frame_mask frame \<noteq> 0
               then s\<lparr>g_frame_bitmap := (g_frame_bitmap s)
                          (frame div 8 := g_frame_bitmap s (frame div 8) AND NOT (frame_mask frame)),
                      g_free_pages := g_free_pages s + 1\<rparr>
               else s)
     in s1\<lparr>g_frame_refs := (g_frame_refs s1)(frame := 0)\<rparr>)"

definition clamp_end :: "nat \<Rightarrow> nat \<Rightarrow> nat" where
  "clamp_end start sz =
    (let e = add64 start sz
     in if e < start \<or> e > PMM_MAX_PHYS_ADDR then PMM_MAX_PHYS_ADDR else e)"

definition region_first_frame :: "nat \<Rightarrow> nat" where
  "region_first_frame start = add64 start (PAGE_SIZE - 1) div PAGE_SIZE"

definition region_last_frame :: "nat \<Rightarrow> nat \<Rightarrow> nat" where
  "region_last_frame start sz = clamp_end start sz div PAGE_SIZE"

definition pmm_mark_region_free :: "nat \<Rightarrow> nat \<Rightarrow> pmm \<Rightarrow> pmm" where
  "pmm_mark_region_free start sz s =
    (let first = region_first_frame start;
         lst = min (region_last_frame start sz) (g_frame_limit s)
     in fold frame_set_free [first..<lst] s)"

definition pmm_mark_region_used :: "nat \<Rightarrow> nat \<Rightarrow> pmm \<Rightarrow> pmm" where
  "pmm_mark_region_used start sz s =
    (let first = start div PAGE_SIZE;
         lst = min ((clamp_end start sz + PAGE_SIZE - 1) div PAGE_SIZE) (g_frame_limit s)
     in fold frame_set_used [first..<lst] s)"

definition pmm_limit_of :: "mem_region list \<Rightarrow> nat" where
  "pmm_limit_of memory_map =
    min (fold (\<lambda>r lim. max (clamp_end (mr_base r) (mr_size r) div PAGE_SIZE) lim) memory_map 0)
        PMM_MAX_FRAMES"

text \<open>The bodies of the two loops of \<open>pmm_init\<close> over the memory map.\<close>

definition init_free_step :: "mem_region \<Rightarrow> pmm \<Rightarrow> pmm" where
  "init_free_step r s =
    (if mr_type r = MEM_REGION_USABLE then pmm_mark_region_free (mr_base r) (mr_size r) s else s)"

definition init_used_step :: "mem_region \<Rightarrow> pmm \<Rightarrow> pmm" where
  "init_used_step r s =
    (if mr_type r \<noteq> MEM_REGION_USABLE then pmm_mark_region_used (mr_base r) (mr_size r) s else s)"

text \<open>
  \<open>kstart\<close> and \<open>kend\<close> are the linker symbols \<open>__kernel_start\<close> and \<open>__kernel_end\<close>; the
  page at \<open>0x8000\<close> is the application-processor trampoline of the x86 build.
\<close>

definition pmm_init :: "nat \<Rightarrow> nat \<Rightarrow> mem_region list \<Rightarrow> pmm" where
  "pmm_init kstart kend memory_map =
    (let s0 = \<lparr>g_frame_bitmap = (\<lambda>_. 0xff), g_frame_refs = (\<lambda>_. 0),
               g_frame_limit = pmm_limit_of memory_map,
               g_total_pages = 0, g_free_pages = 0, g_search_start = 1\<rparr>;
         s1 = fold init_free_step memory_map s0;
         s2 = fold init_used_step memory_map s1;
         s3 = pmm_mark_region_used 0 PAGE_SIZE s2;
         s4 = pmm_mark_region_used 0x8000 PAGE_SIZE s3;
         s5 = pmm_mark_region_used kstart (kend - kstart) s4
     in s5\<lparr>g_total_pages := g_free_pages s5\<rparr>)"

definition frame_claim :: "nat \<Rightarrow> pmm \<Rightarrow> pmm" where
  "frame_claim frame s =
    (let s1 = frame_set_used frame s in s1\<lparr>g_frame_refs := (g_frame_refs s1)(frame := 1)\<rparr>)"

definition pmm_take :: "nat \<Rightarrow> pmm \<Rightarrow> nat \<times> pmm" where
  "pmm_take frame s = (frame * PAGE_SIZE, (frame_claim frame s)\<lparr>g_search_start := frame + 1\<rparr>)"

definition pmm_alloc_frame :: "pmm \<Rightarrow> nat \<times> pmm" where
  "pmm_alloc_frame s =
    (case find (\<lambda>f. \<not> frame_is_used s f) [g_search_start s..<g_frame_limit s] of
       Some f \<Rightarrow> pmm_take f s
     | None \<Rightarrow> (case find (\<lambda>f. \<not> frame_is_used s f) [1..<g_search_start s] of
                  Some f \<Rightarrow> pmm_take f s
                | None \<Rightarrow> (0, s)))"

definition pmm_bad_address :: "pmm \<Rightarrow> nat \<Rightarrow> bool" where
  "pmm_bad_address s addr \<longleftrightarrow>
     addr = 0 \<or> addr mod PAGE_SIZE \<noteq> 0 \<or> addr div PAGE_SIZE \<ge> g_frame_limit s"

definition pmm_retain_frame :: "nat \<Rightarrow> pmm \<Rightarrow> bool \<times> pmm" where
  "pmm_retain_frame addr s =
    (if pmm_bad_address s addr then (False, s)
     else let frame = addr div PAGE_SIZE;
              retained = (frame_is_used s frame \<and> g_frame_refs s frame \<noteq> 0 \<and>
                          g_frame_refs s frame \<noteq> PMM_REF_SATURATED)
          in (retained,
              if retained
              then s\<lparr>g_frame_refs := (g_frame_refs s)(frame := g_frame_refs s frame + 1)\<rparr>
              else s))"

definition pmm_free_frame :: "nat \<Rightarrow> pmm \<Rightarrow> pmm" where
  "pmm_free_frame addr s =
    (if pmm_bad_address s addr then s
     else let frame = addr div PAGE_SIZE
          in if frame_is_used s frame \<and> g_frame_refs s frame \<noteq> 0
             then let s1 = s\<lparr>g_frame_refs := (g_frame_refs s)(frame := g_frame_refs s frame - 1)\<rparr>
                  in if g_frame_refs s1 frame = 0
                     then let s2 = frame_set_free frame s1
                          in if frame < g_search_start s2
                             then s2\<lparr>g_search_start := frame\<rparr> else s2
                     else s1
             else s)"

definition pmm_frame_refcount :: "pmm \<Rightarrow> nat \<Rightarrow> nat" where
  "pmm_frame_refcount s addr =
    (if pmm_bad_address s addr then 0 else unat (g_frame_refs s (addr div PAGE_SIZE)))"

text \<open>
  The scan of \<open>pmm_alloc_aligned_pages\<close>: \<open>run\<close> counts the free frames of the current
  run and \<open>first\<close> is where it began.
\<close>

fun aligned_scan :: "pmm \<Rightarrow> nat \<Rightarrow> nat \<Rightarrow> nat list \<Rightarrow> nat \<Rightarrow> nat \<Rightarrow> nat option" where
  "aligned_scan s count alignment [] run first = None"
| "aligned_scan s count alignment (frame # rest) run first =
    (if run = 0 \<and> frame AND (alignment - 1) \<noteq> 0 then aligned_scan s count alignment rest run first
     else if \<not> frame_is_used s frame
     then let first' = (if run = 0 then frame else first)
          in if run + 1 = count then Some first'
             else aligned_scan s count alignment rest (run + 1) first'
     else aligned_scan s count alignment rest 0 first)"

definition pmm_alloc_aligned_pages :: "nat \<Rightarrow> nat \<Rightarrow> pmm \<Rightarrow> nat option \<times> pmm" where
  "pmm_alloc_aligned_pages count alignment_pages s =
    (if count = 0 \<or> alignment_pages = 0 then (None, s)
     else case aligned_scan s count alignment_pages [1..<g_frame_limit s] 0 0 of
            None \<Rightarrow> (None, s)
          | Some first \<Rightarrow>
              (Some (first * PAGE_SIZE),
               (fold frame_claim [first..<first + count] s)\<lparr>g_search_start := first + count\<rparr>))"

definition pmm_alloc_pages :: "nat \<Rightarrow> pmm \<Rightarrow> nat option \<times> pmm" where
  "pmm_alloc_pages count s = pmm_alloc_aligned_pages count 1 s"

definition pmm_free_pages :: "nat \<Rightarrow> nat \<Rightarrow> pmm \<Rightarrow> pmm" where
  "pmm_free_pages pages count s =
    fold (\<lambda>i. pmm_free_frame (pages + i * PAGE_SIZE)) [0..<count] s"

text \<open>The operations other components call, as commands of a trace.\<close>

datatype pmm_op =
    Alloc_frame | Retain_frame nat | Free_frame nat
  | Alloc_aligned nat nat | Free_pages nat nat

fun pmm_exec :: "pmm_op \<Rightarrow> pmm \<Rightarrow> pmm" where
  "pmm_exec Alloc_frame s = snd (pmm_alloc_frame s)"
| "pmm_exec (Retain_frame a) s = snd (pmm_retain_frame a s)"
| "pmm_exec (Free_frame a) s = pmm_free_frame a s"
| "pmm_exec (Alloc_aligned count al) s = snd (pmm_alloc_aligned_pages count al s)"
| "pmm_exec (Free_pages a count) s = pmm_free_pages a count s"

section \<open>Invariant\<close>

definition free_frames :: "pmm \<Rightarrow> nat set" where
  "free_frames s = {f. \<not> frame_is_used s f}"

text \<open>The accounting that holds at every moment, initialisation included.\<close>

definition pmm_ok :: "pmm \<Rightarrow> bool" where
  "pmm_ok s \<longleftrightarrow>
     g_frame_limit s \<le> PMM_MAX_FRAMES \<and>
     free_frames s \<subseteq> {..<g_frame_limit s} \<and>
     g_free_pages s = card (free_frames s) \<and>
     (\<forall>f. \<not> frame_is_used s f \<longrightarrow> g_frame_refs s f = 0)"

text \<open>The invariant of the running allocator: frame 0, whose address is the failure value, is never free.\<close>

definition pmm_inv :: "pmm \<Rightarrow> bool" where
  "pmm_inv s \<longleftrightarrow>
     pmm_ok s \<and> frame_is_used s 0 \<and> 1 \<le> g_search_start s \<and>
     g_search_start s \<le> max 1 (g_frame_limit s)"

text \<open>What the boot memory map says about a frame.\<close>

definition region_frees :: "mem_region \<Rightarrow> nat \<Rightarrow> bool" where
  "region_frees r f \<longleftrightarrow>
     mr_type r = MEM_REGION_USABLE \<and>
     region_first_frame (mr_base r) \<le> f \<and> f < region_last_frame (mr_base r) (mr_size r)"

definition region_touches :: "nat \<Rightarrow> nat \<Rightarrow> nat \<Rightarrow> bool" where
  "region_touches start sz f \<longleftrightarrow>
     start div PAGE_SIZE \<le> f \<and> f < (clamp_end start sz + PAGE_SIZE - 1) div PAGE_SIZE"

text \<open>What \<open>aligned_scan\<close> knows when it reaches frame \<open>k\<close>.\<close>

definition scan_inv :: "pmm \<Rightarrow> nat \<Rightarrow> nat \<Rightarrow> nat \<Rightarrow> nat \<Rightarrow> nat \<Rightarrow> bool" where
  "scan_inv s count al k run first \<longleftrightarrow> run < count \<and>
     (run \<noteq> 0 \<longrightarrow> first + run = k \<and> first AND (al - 1) = 0 \<and>
        (\<forall>g. first \<le> g \<and> g < k \<longrightarrow> \<not> frame_is_used s g))"

definition run_free :: "pmm \<Rightarrow> nat \<Rightarrow> nat \<Rightarrow> bool" where
  "run_free s f n \<longleftrightarrow> (\<forall>g. f \<le> g \<and> g < f + n \<longrightarrow> \<not> frame_is_used s g)"

text \<open>A small boot map used by the evaluated examples.\<close>

definition pmm_witness_map :: "mem_region list" where
  "pmm_witness_map = [\<lparr>mr_base = 0x800, mr_size = 0x6000, mr_type = 1\<rparr>,
                  \<lparr>mr_base = 0x3000, mr_size = 0x10, mr_type = 2\<rparr>]"

section \<open>The bitmap\<close>

lemma frame_is_used_bit: "frame_is_used s f \<longleftrightarrow> bit (g_frame_bitmap s (f div 8)) (f mod 8)"
  unfolding frame_is_used_def frame_mask_def by (rule and_u8_mask_nonzero) simp

lemma frame_is_used_cong [frame_simps]:
  "g_frame_bitmap s = g_frame_bitmap t \<Longrightarrow> frame_is_used s f \<longleftrightarrow> frame_is_used t f"
  by (simp add: frame_is_used_def)

lemma used_update_simps [simp]:
  "frame_is_used (s\<lparr>g_frame_refs := r\<rparr>) f \<longleftrightarrow> frame_is_used s f"
  "frame_is_used (s\<lparr>g_search_start := n\<rparr>) f \<longleftrightarrow> frame_is_used s f"
  "frame_is_used (s\<lparr>g_total_pages := n\<rparr>) f \<longleftrightarrow> frame_is_used s f"
  by (simp_all add: frame_is_used_def)

lemma mask_zero_iff: "g_frame_bitmap s (f div 8) AND frame_mask f = 0 \<longleftrightarrow> \<not> frame_is_used s f"
  by (simp add: frame_is_used_def)

lemma bit_frame_mask: "bit (frame_mask f) j \<longleftrightarrow> j = f mod 8"
  by (simp add: frame_mask_def bit_u8_exp)

lemma frame_set_used_simps [simp]:
  "frame_is_used (frame_set_used f s) g \<longleftrightarrow> g = f \<or> frame_is_used s g"
  "g_frame_refs (frame_set_used f s) =
     (g_frame_refs s)(f := if g_frame_refs s f = 0 then 1 else g_frame_refs s f)"
  "g_frame_limit (frame_set_used f s) = g_frame_limit s"
  "g_total_pages (frame_set_used f s) = g_total_pages s"
  "g_search_start (frame_set_used f s) = g_search_start s"
  "g_free_pages (frame_set_used f s) =
     (if frame_is_used s f then g_free_pages s else g_free_pages s - 1)"
proof -
  have eq: "g div 8 = f div 8 \<Longrightarrow> g mod 8 = f mod 8 \<Longrightarrow> g = f"
    by (rule div_mod_eq_imp_eq)
  show "frame_is_used (frame_set_used f s) g \<longleftrightarrow> g = f \<or> frame_is_used s g"
    unfolding frame_set_used_def mask_zero_iff
    by (auto simp: Let_def frame_is_used_bit bit_or_iff bit_frame_mask dest: eq)
qed (auto simp: frame_set_used_def mask_zero_iff Let_def)

lemma frame_set_free_simps [simp]:
  "frame_is_used (frame_set_free f s) g \<longleftrightarrow> g \<noteq> f \<and> frame_is_used s g"
  "g_frame_refs (frame_set_free f s) = (g_frame_refs s)(f := 0)"
  "g_frame_limit (frame_set_free f s) = g_frame_limit s"
  "g_total_pages (frame_set_free f s) = g_total_pages s"
  "g_search_start (frame_set_free f s) = g_search_start s"
  "g_free_pages (frame_set_free f s) =
     (if frame_is_used s f then g_free_pages s + 1 else g_free_pages s)"
proof -
  have eq: "g div 8 = f div 8 \<Longrightarrow> g mod 8 = f mod 8 \<Longrightarrow> g = f"
    by (rule div_mod_eq_imp_eq)
  show "frame_is_used (frame_set_free f s) g \<longleftrightarrow> g \<noteq> f \<and> frame_is_used s g"
    unfolding frame_set_free_def mask_zero_iff
    by (auto simp: Let_def frame_is_used_bit bit_and_iff bit_not_iff bit_frame_mask
        possible_bit_def dest: eq)
qed (auto simp: frame_set_free_def mask_zero_iff Let_def)


lemma free_frames_simps [simp]:
  "free_frames (frame_set_used f s) = free_frames s - {f}"
  "free_frames (frame_set_free f s) = insert f (free_frames s)"
  "free_frames (s\<lparr>g_frame_refs := r\<rparr>) = free_frames s"
  "free_frames (s\<lparr>g_search_start := n\<rparr>) = free_frames s"
  "free_frames (s\<lparr>g_total_pages := n\<rparr>) = free_frames s"
  by (auto simp: free_frames_def)

lemma in_free_frames [simp]: "f \<in> free_frames s \<longleftrightarrow> \<not> frame_is_used s f"
  by (simp add: free_frames_def)

lemma pmm_ok_finite: "pmm_ok s \<Longrightarrow> finite (free_frames s)"
  by (meson finite_lessThan finite_subset pmm_ok_def)

section \<open>Accounting is kept by every operation\<close>

lemma pmm_ok_set_used [inv_intros]:
  assumes "pmm_ok s"
  shows "pmm_ok (frame_set_used f s)"
proof -
  have "finite (free_frames s)" by (rule pmm_ok_finite) fact
  then show ?thesis
    using assms by (auto simp: pmm_ok_def card_Diff_singleton_if)
qed

lemma pmm_ok_set_free [inv_intros]:
  assumes "pmm_ok s" and "f < g_frame_limit s"
  shows "pmm_ok (frame_set_free f s)"
proof -
  have "finite (free_frames s)" by (rule pmm_ok_finite) fact
  then show ?thesis
    using assms by (auto simp: pmm_ok_def card_insert_if)
qed

lemma fold_set_used_simps [simp]:
  "frame_is_used (fold frame_set_used fs s) g \<longleftrightarrow> g \<in> set fs \<or> frame_is_used s g"
  "g_frame_limit (fold frame_set_used fs s) = g_frame_limit s"
  "g_search_start (fold frame_set_used fs s) = g_search_start s"
  by (induction fs arbitrary: s) auto

lemma fold_set_free_simps [simp]:
  "frame_is_used (fold frame_set_free fs s) g \<longleftrightarrow> g \<notin> set fs \<and> frame_is_used s g"
  "g_frame_limit (fold frame_set_free fs s) = g_frame_limit s"
  "g_search_start (fold frame_set_free fs s) = g_search_start s"
  by (induction fs arbitrary: s) auto

lemma pmm_ok_fold_used [inv_intros]: "pmm_ok s \<Longrightarrow> pmm_ok (fold frame_set_used fs s)"
  by (induction fs arbitrary: s) (simp_all add: pmm_ok_set_used)

lemma pmm_ok_fold_free [inv_intros]:
  "pmm_ok s \<Longrightarrow> \<forall>f\<in>set fs. f < g_frame_limit s \<Longrightarrow> pmm_ok (fold frame_set_free fs s)"
  by (induction fs arbitrary: s) (simp_all add: pmm_ok_set_free)

lemma mark_region_used_simps [simp]:
  "frame_is_used (pmm_mark_region_used start sz s) f \<longleftrightarrow>
     (region_touches start sz f \<and> f < g_frame_limit s) \<or> frame_is_used s f"
  "g_frame_limit (pmm_mark_region_used start sz s) = g_frame_limit s"
  "g_search_start (pmm_mark_region_used start sz s) = g_search_start s"
  by (auto simp: pmm_mark_region_used_def Let_def region_touches_def)

lemma mark_region_free_simps [simp]:
  "frame_is_used (pmm_mark_region_free start sz s) f \<longleftrightarrow>
     \<not> (region_first_frame start \<le> f \<and> f < region_last_frame start sz \<and> f < g_frame_limit s) \<and>
     frame_is_used s f"
  "g_frame_limit (pmm_mark_region_free start sz s) = g_frame_limit s"
  "g_search_start (pmm_mark_region_free start sz s) = g_search_start s"
  by (auto simp: pmm_mark_region_free_def Let_def)

lemma pmm_ok_mark [inv_intros]:
  "pmm_ok s \<Longrightarrow> pmm_ok (pmm_mark_region_used start sz s)"
  "pmm_ok s \<Longrightarrow> pmm_ok (pmm_mark_region_free start sz s)"
  by (auto simp: pmm_mark_region_used_def pmm_mark_region_free_def Let_def intro!: inv_intros)

section \<open>Initialisation\<close>

lemma fold_free_regions:
  "g_frame_limit (fold init_free_step rs s) = g_frame_limit s"
  "g_search_start (fold init_free_step rs s) = g_search_start s"
  "frame_is_used (fold init_free_step rs s) f \<longleftrightarrow>
     \<not> (f < g_frame_limit s \<and> (\<exists>r\<in>set rs. region_frees r f)) \<and> frame_is_used s f"
  "pmm_ok s \<Longrightarrow> pmm_ok (fold init_free_step rs s)"
  by (induction rs arbitrary: s) (auto simp: init_free_step_def region_frees_def pmm_ok_mark)

lemma fold_used_regions:
  "g_frame_limit (fold init_used_step rs s) = g_frame_limit s"
  "g_search_start (fold init_used_step rs s) = g_search_start s"
  "frame_is_used (fold init_used_step rs s) f \<longleftrightarrow>
     (f < g_frame_limit s \<and> (\<exists>r\<in>set rs. mr_type r \<noteq> MEM_REGION_USABLE \<and>
        region_touches (mr_base r) (mr_size r) f)) \<or> frame_is_used s f"
  "pmm_ok s \<Longrightarrow> pmm_ok (fold init_used_step rs s)"
  by (induction rs arbitrary: s) (auto simp: init_used_step_def pmm_ok_mark)

lemma pmm_init_limit: "g_frame_limit (pmm_init kstart kend rs) = pmm_limit_of rs"
  by (simp add: pmm_init_def Let_def fold_free_regions fold_used_regions)

lemma bit_0xff: "n < 8 \<Longrightarrow> bit (0xff :: u8) n"
  by (auto simp: numeral_eq_Suc less_Suc_eq)

lemma used_all_ones: "g_frame_bitmap s = (\<lambda>_. 0xff) \<Longrightarrow> frame_is_used s f"
  unfolding frame_is_used_bit by (simp only:) (rule bit_0xff, simp)

lemma pmm_init_used:
  "frame_is_used (pmm_init kstart kend rs) f \<longleftrightarrow>
     \<not> (f < pmm_limit_of rs \<and> (\<exists>r\<in>set rs. region_frees r f) \<and>
        \<not> (\<exists>r\<in>set rs. mr_type r \<noteq> MEM_REGION_USABLE \<and>
              region_touches (mr_base r) (mr_size r) f) \<and>
        \<not> region_touches 0 PAGE_SIZE f \<and> \<not> region_touches 0x8000 PAGE_SIZE f \<and>
        \<not> region_touches kstart (kend - kstart) f)"
  unfolding pmm_init_def Let_def
  by (simp add: fold_free_regions fold_used_regions used_all_ones) blast

lemma pmm_limit_of_le: "pmm_limit_of rs \<le> PMM_MAX_FRAMES"
  by (simp add: pmm_limit_of_def)

lemma pmm_ok_blank:
  assumes "g_frame_bitmap s = (\<lambda>_. 0xff)" and "g_free_pages s = 0"
    and "g_frame_limit s \<le> PMM_MAX_FRAMES"
  shows "pmm_ok s"
  using assms by (auto simp: pmm_ok_def free_frames_def used_all_ones)

lemma pmm_ok_init: "pmm_ok (pmm_init kstart kend rs)"
proof -
  have total: "pmm_ok s \<Longrightarrow> pmm_ok (s\<lparr>g_total_pages := n\<rparr>)" for s n
    by (simp add: pmm_ok_def)
  show ?thesis
    unfolding pmm_init_def Let_def
    by (intro total pmm_ok_mark fold_used_regions(4) fold_free_regions(4) pmm_ok_blank)
      (simp_all add: pmm_limit_of_le)
qed

lemma pmm_inv_init: "pmm_inv (pmm_init kstart kend rs)"
proof -
  have "g_search_start (pmm_init kstart kend rs) = 1"
    by (simp add: pmm_init_def Let_def fold_free_regions fold_used_regions)
  moreover have "frame_is_used (pmm_init kstart kend rs) 0"
    by (simp add: pmm_init_used region_touches_def clamp_end_def add64_def PAGE_SIZE_def
        PMM_MAX_PHYS_ADDR_def)
  ultimately show ?thesis by (simp add: pmm_inv_def pmm_ok_init)
qed

section \<open>Allocation of one frame\<close>

lemma frame_claim_simps [simp]:
  "frame_is_used (frame_claim f s) g \<longleftrightarrow> g = f \<or> frame_is_used s g"
  "g_frame_refs (frame_claim f s) = (g_frame_refs s)(f := 1)"
  "g_frame_limit (frame_claim f s) = g_frame_limit s"
  "g_search_start (frame_claim f s) = g_search_start s"
  "g_free_pages (frame_claim f s) =
     (if frame_is_used s f then g_free_pages s else g_free_pages s - 1)"
  by (simp_all add: frame_claim_def Let_def)

lemma pmm_take_simps [simp]:
  "fst (pmm_take f s) = f * PAGE_SIZE"
  "frame_is_used (snd (pmm_take f s)) g \<longleftrightarrow> g = f \<or> frame_is_used s g"
  "g_frame_refs (snd (pmm_take f s)) = (g_frame_refs s)(f := 1)"
  "g_frame_limit (snd (pmm_take f s)) = g_frame_limit s"
  "g_search_start (snd (pmm_take f s)) = f + 1"
  "g_free_pages (snd (pmm_take f s)) =
     (if frame_is_used s f then g_free_pages s else g_free_pages s - 1)"
  by (simp_all add: pmm_take_def)

lemma pmm_ok_refs:
  assumes "pmm_ok s" and "\<forall>f. \<not> frame_is_used s f \<longrightarrow> r f = 0"
  shows "pmm_ok (s\<lparr>g_frame_refs := r\<rparr>)"
  using assms by (simp add: pmm_ok_def)

lemma pmm_ok_search [simp]: "pmm_ok (s\<lparr>g_search_start := n\<rparr>) \<longleftrightarrow> pmm_ok s"
  by (simp add: pmm_ok_def)

lemma pmm_ok_claim: "pmm_ok s \<Longrightarrow> pmm_ok (frame_claim f s)"
  unfolding frame_claim_def Let_def
  by (rule pmm_ok_refs) (auto simp: pmm_ok_set_used, simp add: pmm_ok_def)

lemma pmm_inv_take:
  assumes "pmm_inv s" and "f < g_frame_limit s"
  shows "pmm_inv (snd (pmm_take f s))"
  using assms by (simp add: pmm_inv_def pmm_take_def pmm_ok_claim)

lemma pmm_alloc_frame_cases:
  assumes "pmm_inv s"
  obtains (full) "pmm_alloc_frame s = (0, s)" "free_frames s = {}"
  | (take) f where "pmm_alloc_frame s = pmm_take f s" "\<not> frame_is_used s f" "0 < f"
      "f < g_frame_limit s"
proof (cases "find (\<lambda>f. \<not> frame_is_used s f) [g_search_start s..<g_frame_limit s]")
  case (Some f)
  then have "\<not> frame_is_used s f" "g_search_start s \<le> f" "f < g_frame_limit s"
    by (auto dest!: find_SomeD)
  with Some assms show ?thesis
    by (intro take [of f]) (auto simp: pmm_alloc_frame_def pmm_inv_def)
next
  case first: None
  show ?thesis
  proof (cases "find (\<lambda>f. \<not> frame_is_used s f) [1..<g_search_start s]")
    case (Some f)
    then have f: "\<not> frame_is_used s f" "0 < f" by (auto dest!: find_SomeD)
    moreover from f assms have "f < g_frame_limit s"
      by (auto simp: pmm_inv_def pmm_ok_def)
    ultimately show ?thesis
      using first Some by (intro take [of f]) (auto simp: pmm_alloc_frame_def)
  next
    case None
    have "frame_is_used s f" for f
    proof (rule ccontr)
      assume f: "\<not> frame_is_used s f"
      with assms have "f \<noteq> 0" "f < g_frame_limit s"
        by (auto simp: pmm_inv_def pmm_ok_def intro: ccontr)
      with f first None show False
        by (auto simp: find_None_iff not_less) (metis Suc_leI gr0I linorder_not_le)
    qed
    then show ?thesis
      using first None by (intro full) (auto simp: pmm_alloc_frame_def free_frames_def)
  qed
qed

section \<open>Reference counts\<close>

lemma pmm_retain_cases:
  obtains (no) "pmm_retain_frame a s = (False, s)"
  | (yes) "pmm_retain_frame a s = (True,
        s\<lparr>g_frame_refs := (g_frame_refs s)
           (a div PAGE_SIZE := g_frame_refs s (a div PAGE_SIZE) + 1)\<rparr>)"
      "\<not> pmm_bad_address s a" "frame_is_used s (a div PAGE_SIZE)"
      "g_frame_refs s (a div PAGE_SIZE) \<noteq> 0" "g_frame_refs s (a div PAGE_SIZE) \<noteq> 0xff"
  by (cases "pmm_bad_address s a \<or> \<not> frame_is_used s (a div PAGE_SIZE) \<or>
        g_frame_refs s (a div PAGE_SIZE) = 0 \<or> g_frame_refs s (a div PAGE_SIZE) = 0xff")
    (auto simp: pmm_retain_frame_def Let_def PMM_REF_SATURATED_def)

lemma pmm_inv_refs:
  assumes "pmm_inv s" and "\<forall>f. \<not> frame_is_used s f \<longrightarrow> r f = 0"
  shows "pmm_inv (s\<lparr>g_frame_refs := r\<rparr>)"
  using assms by (simp add: pmm_inv_def pmm_ok_refs)

lemma pmm_inv_unused_refs: "pmm_inv s \<Longrightarrow> \<not> frame_is_used s f \<Longrightarrow> g_frame_refs s f = 0"
  by (simp add: pmm_inv_def pmm_ok_def)

lemma pmm_inv_retain: "pmm_inv s \<Longrightarrow> pmm_inv (snd (pmm_retain_frame a s))"
  by (cases rule: pmm_retain_cases [of a s]) (auto intro!: pmm_inv_refs simp: pmm_inv_unused_refs)

lemma pmm_inv_free_frame:
  assumes inv: "pmm_inv s"
  shows "pmm_inv (pmm_free_frame a s)"
proof (cases "pmm_bad_address s a \<or> \<not> frame_is_used s (a div PAGE_SIZE) \<or>
    g_frame_refs s (a div PAGE_SIZE) = 0")
  case True
  with inv show ?thesis by (auto simp: pmm_free_frame_def Let_def)
next
  case False
  define f where "f = a div PAGE_SIZE"
  define s1 where "s1 = s\<lparr>g_frame_refs := (g_frame_refs s)(f := g_frame_refs s f - 1)\<rparr>"
  have f: "0 < f" "f < g_frame_limit s"
    using False by (auto simp: pmm_bad_address_def f_def div_eq_0_iff PAGE_SIZE_def)
  have s1: "pmm_inv s1"
    unfolding s1_def using False inv by (auto intro!: pmm_inv_refs simp: f_def pmm_inv_unused_refs)
  then have "pmm_ok (frame_set_free f s1)"
    using f by (intro pmm_ok_set_free) (auto simp: pmm_inv_def s1_def)
  with f s1 have "pmm_inv (let s2 = frame_set_free f s1
                           in if f < g_search_start s2 then s2\<lparr>g_search_start := f\<rparr> else s2)"
    by (auto simp: pmm_inv_def Let_def)
  with s1 False show ?thesis
    unfolding pmm_free_frame_def Let_def f_def [symmetric] s1_def [symmetric] by auto
qed

lemma good_address_eq:
  "\<not> pmm_bad_address s a \<Longrightarrow> \<not> pmm_bad_address s b \<Longrightarrow> a div PAGE_SIZE = b div PAGE_SIZE \<Longrightarrow> a = b"
  by (rule div_mod_eq_imp_eq [of a PAGE_SIZE b]) (auto simp: pmm_bad_address_def)

lemma bad_address_limit: "g_frame_limit s = g_frame_limit t \<Longrightarrow> pmm_bad_address s a = pmm_bad_address t a"
  by (simp add: pmm_bad_address_def)

lemma refcount_upd:
  assumes "g_frame_limit t = g_frame_limit s" and "\<not> pmm_bad_address s a"
    and "g_frame_refs t = (g_frame_refs s)(a div PAGE_SIZE := w)"
  shows "pmm_frame_refcount t = (pmm_frame_refcount s)(a := unat w)"
proof
  fix b
  show "pmm_frame_refcount t b = ((pmm_frame_refcount s)(a := unat w)) b"
    using assms bad_address_limit [of t s] good_address_eq [of s b a]
    by (auto simp: pmm_frame_refcount_def)
qed

lemma pmm_alloc_refcount:
  assumes inv: "pmm_inv s" and a: "pmm_alloc_frame s = (a, t)" "a \<noteq> 0"
  shows "pmm_inv t \<and> a mod PAGE_SIZE = 0 \<and> pmm_frame_refcount s a = 0 \<and>
    pmm_frame_refcount t = (pmm_frame_refcount s)(a := 1)"
  using inv
proof (cases rule: pmm_alloc_frame_cases)
  case full
  with a show ?thesis by simp
next
  case (take f)
  have af: "a = f * PAGE_SIZE" "t = snd (pmm_take f s)"
    using take(1) a(1) pmm_take_simps(1) [of f s] by (metis fst_conv, metis snd_conv)
  have good: "\<not> pmm_bad_address s a" and [simp]: "a div PAGE_SIZE = f"
    using take by (auto simp: af pmm_bad_address_def PAGE_SIZE_def)
  have "pmm_frame_refcount s a = 0"
    using inv take by (simp add: pmm_frame_refcount_def pmm_inv_unused_refs)
  moreover have "pmm_frame_refcount t = (pmm_frame_refcount s)(a := unat (1 :: u8))"
    by (rule refcount_upd) (use good in \<open>auto simp: af(2)\<close>)
  moreover have "pmm_inv t" using inv take by (simp add: af pmm_inv_take)
  ultimately show ?thesis by (simp add: af)
qed

lemma pmm_retain_refcount:
  assumes inv: "pmm_inv s" and r: "pmm_retain_frame a s = (True, t)"
  shows "pmm_inv t \<and> 0 < pmm_frame_refcount s a \<and>
    pmm_frame_refcount t = (pmm_frame_refcount s)(a := pmm_frame_refcount s a + 1)"
proof (cases rule: pmm_retain_cases [of a s])
  case no
  with r show ?thesis by simp
next
  case yes
  then have t: "t = s\<lparr>g_frame_refs := (g_frame_refs s)
                  (a div PAGE_SIZE := g_frame_refs s (a div PAGE_SIZE) + 1)\<rparr>"
    using r by simp
  have "pmm_frame_refcount t =
      (pmm_frame_refcount s)(a := unat (g_frame_refs s (a div PAGE_SIZE) + 1))"
    by (rule refcount_upd) (use yes in \<open>auto simp: t\<close>)
  moreover have "pmm_inv t" using pmm_inv_retain [OF inv, of a] r by simp
  ultimately show ?thesis
    using yes by (simp add: pmm_frame_refcount_def unat_u8_inc unat_gt_0)
qed

lemma pmm_free_refcount:
  assumes inv: "pmm_inv s"
  shows "pmm_frame_refcount (pmm_free_frame a s) =
    (pmm_frame_refcount s)(a := pmm_frame_refcount s a - 1)"
proof (cases "pmm_bad_address s a \<or> g_frame_refs s (a div PAGE_SIZE) = 0")
  case True
  then have "pmm_free_frame a s = s" "pmm_frame_refcount s a = 0"
    by (auto simp: pmm_free_frame_def pmm_frame_refcount_def Let_def)
  then show ?thesis by (simp add: fun_upd_idem)
next
  case False
  then have "frame_is_used s (a div PAGE_SIZE)"
    using inv pmm_inv_unused_refs by blast
  with False have "pmm_frame_refcount (pmm_free_frame a s) =
      (pmm_frame_refcount s)(a := unat (g_frame_refs s (a div PAGE_SIZE) - 1))"
    by (intro refcount_upd) (auto simp: pmm_free_frame_def Let_def)
  with False show ?thesis by (simp add: pmm_frame_refcount_def unat_u8_dec)
qed

section \<open>Contiguous, aligned runs\<close>

lemma aligned_scan_sound:
  assumes "aligned_scan s count al [k..<n] run first = Some f"
    and "scan_inv s count al k run first" and "run \<noteq> 0 \<longrightarrow> m \<le> first" and "m \<le> k"
  shows "m \<le> f \<and> f + count \<le> n \<and> f AND (al - 1) = 0 \<and> run_free s f count"
  using assms
proof (induction "n - k" arbitrary: k run first)
  case 0
  then show ?case by simp
next
  case (Suc d)
  have "k < n" using Suc.hyps(2) by simp
  then have split: "[k..<n] = k # [Suc k..<n]" by (rule upt_conv_Cons)
  have d: "d = n - Suc k" using Suc.hyps(2) by simp
  note IH = Suc.hyps(1) [OF d]
  show ?case
  proof (cases "run = 0 \<and> k AND (al - 1) \<noteq> 0 \<or> frame_is_used s k")
    case True
    then show ?thesis
      using Suc.prems IH [of run first] IH [of 0 first]
      by (auto simp: split scan_inv_def split: if_splits)
  next
    case False
    define first' where "first' = (if run = 0 then k else first)"
    have inv: "first' + run = k" "first' AND (al - 1) = 0" "run < count" "m \<le> first'"
      "\<forall>g. first' \<le> g \<and> g < Suc k \<longrightarrow> \<not> frame_is_used s g"
      using Suc.prems False by (auto simp: scan_inv_def first'_def less_Suc_eq)
    show ?thesis
    proof (cases "run + 1 = count")
      case True
      then have "f = first'"
        using Suc.prems(1) False by (auto simp: split first'_def Let_def split: if_splits)
      with inv True \<open>k < n\<close> show ?thesis by (auto simp: run_free_def)
    next
      case c: False
      then have "aligned_scan s count al [Suc k..<n] (run + 1) first' = Some f"
        using Suc.prems(1) False by (auto simp: split first'_def Let_def split: if_splits)
      moreover have "scan_inv s count al (Suc k) (run + 1) first'"
        using inv c by (auto simp: scan_inv_def)
      ultimately show ?thesis using IH inv Suc.prems(4) by simp
    qed
  qed
qed

lemma aligned_scan_complete:
  assumes "aligned_scan s count al [k..<n] run first = None"
    and "scan_inv s count al k run first"
    and "(if run = 0 then k else first) \<le> a" and "a AND (al - 1) = 0" and "a + count \<le> n"
  shows "\<not> run_free s a count"
  using assms
proof (induction "n - k" arbitrary: k run first)
  case 0
  then show ?case by (auto simp: scan_inv_def split: if_splits)
next
  case (Suc d)
  have "k < n" using Suc.hyps(2) by simp
  then have split: "[k..<n] = k # [Suc k..<n]" by (rule upt_conv_Cons)
  have d: "d = n - Suc k" using Suc.hyps(2) by simp
  note IH = Suc.hyps(1) [OF d]
  show ?case
  proof (cases "run = 0 \<and> k AND (al - 1) \<noteq> 0")
    case True
    then have "k \<noteq> a" using Suc.prems(4) by auto
    with True Suc.prems show ?thesis
      by (intro IH [of run first]) (auto simp: split scan_inv_def)
  next
    case al: False
    show ?thesis
    proof (cases "frame_is_used s k")
      case True
      have "\<not> run_free s a count" if "a \<le> k"
        using that True Suc.prems(2,3) by (auto simp: run_free_def scan_inv_def split: if_splits)
      moreover have "\<not> run_free s a count" if "Suc k \<le> a"
        using that True al Suc.prems by (intro IH [of 0 first]) (auto simp: split scan_inv_def)
      ultimately show ?thesis by linarith
    next
      case False
      define first' where "first' = (if run = 0 then k else first)"
      have "aligned_scan s count al [Suc k..<n] (run + 1) first' = None" "run + 1 \<noteq> count"
        using Suc.prems(1) False al by (auto simp: split first'_def Let_def split: if_splits)
      moreover have "scan_inv s count al (Suc k) (run + 1) first'"
        using Suc.prems(2) False al calculation(2)
        by (auto simp: scan_inv_def first'_def less_Suc_eq)
      ultimately show ?thesis
        using Suc.prems by (intro IH [of "run + 1" first']) (auto simp: first'_def)
    qed
  qed
qed

lemma fold_claim_simps [simp]:
  "frame_is_used (fold frame_claim fs s) g \<longleftrightarrow> g \<in> set fs \<or> frame_is_used s g"
  "g_frame_refs (fold frame_claim fs s) g = (if g \<in> set fs then 1 else g_frame_refs s g)"
  "g_frame_limit (fold frame_claim fs s) = g_frame_limit s"
  by (induction fs arbitrary: s) auto

lemma pmm_ok_fold_claim: "pmm_ok s \<Longrightarrow> pmm_ok (fold frame_claim fs s)"
  by (induction fs arbitrary: s) (simp_all add: pmm_ok_claim)

lemma pmm_alloc_aligned_cases:
  assumes "pmm_inv s" and "count \<noteq> 0" and "al \<noteq> 0"
  obtains (none) "pmm_alloc_aligned_pages count al s = (None, s)"
      "\<And>f. 1 \<le> f \<Longrightarrow> f AND (al - 1) = 0 \<Longrightarrow> f + count \<le> g_frame_limit s \<Longrightarrow>
         \<not> run_free s f count"
  | (some) f where "pmm_alloc_aligned_pages count al s =
        (Some (f * PAGE_SIZE), (fold frame_claim [f..<f + count] s)\<lparr>g_search_start := f + count\<rparr>)"
      "1 \<le> f" "f AND (al - 1) = 0" "f + count \<le> g_frame_limit s" "run_free s f count"
proof (cases "aligned_scan s count al [1..<g_frame_limit s] 0 0")
  case None
  show ?thesis
    by (rule none)
      (use assms None aligned_scan_complete [OF None] in \<open>auto simp: pmm_alloc_aligned_pages_def scan_inv_def\<close>)
next
  case (Some f)
  show ?thesis
    by (rule some [of f])
      (use assms Some aligned_scan_sound [OF Some, of 1] in
        \<open>auto simp: pmm_alloc_aligned_pages_def scan_inv_def\<close>)
qed

lemma pmm_inv_alloc_aligned:
  assumes "pmm_inv s"
  shows "pmm_inv (snd (pmm_alloc_aligned_pages count al s))"
proof (cases "count = 0 \<or> al = 0")
  case True
  with assms show ?thesis by (auto simp: pmm_alloc_aligned_pages_def)
next
  case False
  then have "count \<noteq> 0" "al \<noteq> 0" by auto
  with assms show ?thesis
    by (cases rule: pmm_alloc_aligned_cases)
      (use assms in \<open>auto simp: pmm_inv_def pmm_ok_fold_claim\<close>)
qed

lemma pmm_inv_alloc_frame: "pmm_inv s \<Longrightarrow> pmm_inv (snd (pmm_alloc_frame s))"
  by (rule pmm_alloc_frame_cases [of s]) (simp_all add: pmm_inv_take)

lemma pmm_inv_free_pages: "pmm_inv s \<Longrightarrow> pmm_inv (pmm_free_pages a count s)"
  unfolding pmm_free_pages_def
  by (rule fold_invariant [where Q = "\<lambda>_. True"]) (auto simp: pmm_inv_free_frame)

lemma pmm_inv_exec [inv_intros]: "pmm_inv s \<Longrightarrow> pmm_inv (pmm_exec c s)"
  by (cases c) (simp_all add: pmm_inv_alloc_frame pmm_inv_retain pmm_inv_free_frame
      pmm_inv_alloc_aligned pmm_inv_free_pages)

section \<open>The interface other components rely on\<close>

locale frame_allocator =
  fixes inv :: "'s \<Rightarrow> bool"
    and refs :: "'s \<Rightarrow> nat \<Rightarrow> nat"
    and alloc :: "'s \<Rightarrow> nat \<times> 's"
    and retain :: "nat \<Rightarrow> 's \<Rightarrow> bool \<times> 's"
    and release :: "nat \<Rightarrow> 's \<Rightarrow> 's"
  assumes alloc_none: "inv s \<Longrightarrow> alloc s = (0, t) \<Longrightarrow> t = s"
    and alloc_some: "inv s \<Longrightarrow> alloc s = (a, t) \<Longrightarrow> a \<noteq> 0 \<Longrightarrow>
      inv t \<and> a mod PAGE_SIZE = 0 \<and> refs s a = 0 \<and> refs t = (refs s)(a := 1)"
    and retain_no: "retain a s = (False, t) \<Longrightarrow> t = s"
    and retain_yes: "inv s \<Longrightarrow> retain a s = (True, t) \<Longrightarrow>
      inv t \<and> 0 < refs s a \<and> refs t = (refs s)(a := refs s a + 1)"
    and release_inv: "inv s \<Longrightarrow> inv (release a s)"
    and release_refs: "inv s \<Longrightarrow> refs (release a s) = (refs s)(a := refs s a - 1)"
begin

lemma alloc_inv: "inv s \<Longrightarrow> inv (snd (alloc s))"
  using alloc_none [of s "snd (alloc s)"] alloc_some [of s "fst (alloc s)" "snd (alloc s)"]
  by (cases "alloc s") auto

lemma retain_inv: "inv s \<Longrightarrow> inv (snd (retain a s))"
  using retain_no [of a s "snd (retain a s)"] retain_yes [of s a "snd (retain a s)"]
  by (cases "retain a s"; cases "fst (retain a s)") auto

lemma alloc_fresh: "inv s \<Longrightarrow> alloc s = (a, t) \<Longrightarrow> a \<noteq> 0 \<Longrightarrow> 0 < refs s b \<Longrightarrow> b \<noteq> a"
  using alloc_some [of s a t] by auto

lemma retain_release:
  assumes "inv s" and "retain a s = (True, t)"
  shows "refs (release a t) = refs s"
  using retain_yes [OF assms] release_refs [of t a] by (simp add: fun_upd_idem)

lemma alloc_release:
  assumes "inv s" and "alloc s = (a, t)" and "a \<noteq> 0"
  shows "refs (release a t) = refs s"
  using alloc_some [OF assms] release_refs [of t a] by (simp add: fun_upd_idem)

lemma release_all:
  "inv s \<Longrightarrow> inv (fold release as s) \<and> refs (fold release as s) b = refs s b - count_list as b"
  by (induction as arbitrary: s) (auto simp: release_inv release_refs)

end

interpretation pmm_frames: frame_allocator pmm_inv pmm_frame_refcount pmm_alloc_frame
    pmm_retain_frame pmm_free_frame
proof
  fix s t :: pmm and a :: nat
  show "pmm_inv s \<Longrightarrow> pmm_alloc_frame s = (0, t) \<Longrightarrow> t = s"
    by (rule pmm_alloc_frame_cases [of s]) (auto simp: pmm_take_def PAGE_SIZE_def)
  show "pmm_retain_frame a s = (False, t) \<Longrightarrow> t = s"
    by (cases rule: pmm_retain_cases [of a s]) auto
qed (fact pmm_alloc_refcount pmm_retain_refcount pmm_inv_free_frame pmm_free_refcount)+

section \<open>Properties\<close>

lemma pmm_retain_iterate:
  assumes "pmm_inv s" and "pmm_frame_refcount s a = n" and "0 < n" and "n + k \<le> 255"
  shows "pmm_inv (((\<lambda>t. snd (pmm_retain_frame a t)) ^^ k) s) \<and>
    pmm_frame_refcount (((\<lambda>t. snd (pmm_retain_frame a t)) ^^ k) s) =
      (pmm_frame_refcount s)(a := n + k)"
  using assms(4)
proof (induction k)
  case 0
  with assms show ?case by (simp add: fun_upd_idem)
next
  case (Suc k)
  define u where "u = ((\<lambda>t. snd (pmm_retain_frame a t)) ^^ k) s"
  have u: "pmm_inv u" "pmm_frame_refcount u = (pmm_frame_refcount s)(a := n + k)"
    using Suc by (auto simp: u_def)
  have "\<not> pmm_bad_address u a" and c: "unat (g_frame_refs u (a div PAGE_SIZE)) = n + k"
    using u(2) assms(3) by (auto simp: pmm_frame_refcount_def fun_upd_def fun_eq_iff split: if_splits)
  moreover have "g_frame_refs u (a div PAGE_SIZE) \<noteq> 0" "g_frame_refs u (a div PAGE_SIZE) \<noteq> 0xff"
    using c assms(3) Suc.prems by auto
  ultimately have "fst (pmm_retain_frame a u)"
    using pmm_inv_unused_refs [OF u(1)]
    by (auto simp: pmm_retain_frame_def PMM_REF_SATURATED_def Let_def)
  then have "pmm_retain_frame a u = (True, snd (pmm_retain_frame a u))"
    by (simp add: prod_eq_iff)
  from pmm_retain_refcount [OF u(1) this] u show ?case by (simp add: u_def)
qed



text \<open>
  (C1) Every sequence of allocator calls after initialisation keeps the accounting: the
  free-page counter is the number of free frames, every frame with a non-zero
  reference count is marked used, and frame 0 is never free, so address 0
  unambiguously means failure.
\<close>

theorem pmm_trace_accounting:
  "pmm_inv (fold pmm_exec ops (pmm_init kstart kend rs)) \<and>
   g_free_pages (fold pmm_exec ops (pmm_init kstart kend rs)) =
     card (free_frames (fold pmm_exec ops (pmm_init kstart kend rs))) \<and>
   0 \<notin> free_frames (fold pmm_exec ops (pmm_init kstart kend rs)) \<and>
   (g_frame_refs (fold pmm_exec ops (pmm_init kstart kend rs)) f = 0 \<or>
    frame_is_used (fold pmm_exec ops (pmm_init kstart kend rs)) f)"
proof -
  have "pmm_inv (fold pmm_exec ops (pmm_init kstart kend rs))"
    by (rule fold_invariant [where Q = "\<lambda>_. True"]) (auto intro: pmm_inv_init pmm_inv_exec)
  then show ?thesis
    using pmm_inv_unused_refs by (auto simp: pmm_inv_def pmm_ok_def)
qed

text \<open>
  (C2) Allocating one frame: the call fails, and changes nothing, exactly when no frame is
  free; otherwise it returns the page-aligned address of a frame that was free, which
  afterwards has one reference, and every other frame keeps its count.
\<close>

theorem pmm_alloc_frame_spec:
  assumes "pmm_inv s" and "pmm_alloc_frame s = (a, t)"
  shows "(a = 0 \<longleftrightarrow> free_frames s = {}) \<and>
    (if a = 0 then t = s
     else a mod PAGE_SIZE = 0 \<and> a div PAGE_SIZE \<in> free_frames s \<and>
          free_frames t = free_frames s - {a div PAGE_SIZE} \<and>
          g_free_pages t = g_free_pages s - 1 \<and>
          pmm_frame_refcount t = (pmm_frame_refcount s)(a := 1))"
  using assms(1)
proof (cases rule: pmm_alloc_frame_cases)
  case full
  with assms show ?thesis by simp
next
  case (take f)
  then have af: "a = f * PAGE_SIZE" "t = snd (pmm_take f s)" "a \<noteq> 0"
    using assms(2) by (auto simp: pmm_take_def PAGE_SIZE_def)
  have "pmm_frame_refcount t = (pmm_frame_refcount s)(a := 1)"
    using pmm_alloc_refcount [OF assms af(3)] by simp
  moreover have "free_frames t = free_frames s - {f}" by (auto simp: af)
  ultimately show ?thesis
    using take by (auto simp: af free_frames_def PAGE_SIZE_def)
qed

theorem pmm_alloc_frame_spec_witness:
  "fst (pmm_alloc_frame (pmm_init 0x5000 0x5001 pmm_witness_map)) = 0x1000 \<and>
   free_frames (snd (pmm_alloc_frame (pmm_init 0x5000 0x5001 pmm_witness_map))) =
     free_frames (pmm_init 0x5000 0x5001 pmm_witness_map) - {1}"
proof -
  define s where "s = pmm_init 0x5000 0x5001 pmm_witness_map"
  have eq: "pmm_alloc_frame s = (0x1000, snd (pmm_alloc_frame s))"
    unfolding s_def by (simp add: prod_eq_iff) code_simp
  from pmm_alloc_frame_spec [OF pmm_inv_init [of "0x5000" "0x5001" pmm_witness_map, folded s_def] eq]
  show ?thesis unfolding s_def [symmetric] by (subst eq) (simp add: PAGE_SIZE_def)
qed



text \<open>
  (C3) Contiguous allocation with a power-of-two alignment: the call returns a run that is
  aligned, in range and entirely free, claims exactly that run, and fails, changing
  nothing, only if no such run exists.
\<close>

theorem pmm_alloc_aligned_spec:
  assumes "pmm_inv s" and "0 < count" and "pmm_alloc_aligned_pages count (2 ^ k) s = (r, t)"
  shows "case r of
      None \<Rightarrow> t = s \<and> (\<nexists>f. 1 \<le> f \<and> 2 ^ k dvd f \<and> f + count \<le> g_frame_limit s \<and> run_free s f count)
    | Some a \<Rightarrow> (\<exists>f. a = f * PAGE_SIZE \<and> 1 \<le> f \<and> 2 ^ k dvd f \<and> f + count \<le> g_frame_limit s \<and>
        run_free s f count \<and> free_frames t = free_frames s - {f..<f + count} \<and>
        (\<forall>g. g_frame_refs t g = (if f \<le> g \<and> g < f + count then 1 else g_frame_refs s g)))"
proof -
  have "count \<noteq> 0" "2 ^ k \<noteq> (0 :: nat)" using assms(2) by auto
  with assms(1) show ?thesis
  proof (cases rule: pmm_alloc_aligned_cases)
    case none
    have "\<not> run_free s f count" if "1 \<le> f" "2 ^ k dvd f" "f + count \<le> g_frame_limit s" for f
      using none(2) [of f, unfolded and_pow2_minus_1] that by (simp add: dvd_eq_mod_eq_0)
    moreover have "r = None" "t = s" using none(1) assms(3) by auto
    ultimately show ?thesis by auto
  next
    case (some f)
    have "free_frames t = free_frames s - {f..<f + count}"
      using some(1) assms(3) by (auto simp: free_frames_def)
    moreover have "g_frame_refs t g = (if f \<le> g \<and> g < f + count then 1 else g_frame_refs s g)" for g
      using some(1) assms(3) by auto
    moreover have "2 ^ k dvd f"
      using some(3) unfolding and_pow2_minus_1 by (simp add: dvd_eq_mod_eq_0)
    moreover have "r = Some (f * PAGE_SIZE)" using some(1) assms(3) by auto
    ultimately show ?thesis
      using some(2,4,5) by (simp only: option.case) (intro exI [of _ f] conjI allI; simp)
  qed
qed

theorem pmm_alloc_aligned_spec_witness:
  "fst (pmm_alloc_aligned_pages 1 (2 ^ 2) (pmm_init 0x5000 0x5001 pmm_witness_map)) = Some 0x4000 \<and>
   free_frames (snd (pmm_alloc_aligned_pages 1 (2 ^ 2) (pmm_init 0x5000 0x5001 pmm_witness_map))) =
     free_frames (pmm_init 0x5000 0x5001 pmm_witness_map) - {4}"
proof -
  define s where "s = pmm_init 0x5000 0x5001 pmm_witness_map"
  have eq: "pmm_alloc_aligned_pages 1 (2 ^ 2) s =
      (Some 0x4000, snd (pmm_alloc_aligned_pages 1 (2 ^ 2) s))"
    unfolding s_def by (simp add: prod_eq_iff) code_simp
  have inv: "pmm_inv s" unfolding s_def by (rule pmm_inv_init)
  from pmm_alloc_aligned_spec [OF inv _ eq] show ?thesis
    unfolding s_def [symmetric] by (subst eq) (auto simp: PAGE_SIZE_def)
qed

end
