(* ===== verification/Kheap.thy ===== *)
theory Kheap
  imports Pmm
begin

text \<open>
  The kernel heap of \<^verbatim>\<open>src/mm/kheap.c\<close>: a doubly linked list of blocks whose headers lie in the
  memory they manage, some in a caller-provided arena, the others in pages of the frame
  allocator.  Headers are a store from addresses to records with explicit links, bytes are a
  store of their own, a null pointer is 0, and \<open>size_t\<close> has 64 bits.
\<close>

section \<open>The heap\<close>

definition KHEAP_MAGIC :: u32 where "KHEAP_MAGIC = 0x74616368"
definition KHEAP_ALIGN :: nat where "KHEAP_ALIGN = 16"
definition KHEAP_FROM_PMM :: u32 where "KHEAP_FROM_PMM = 1"

record heap_block =
  hb_magic :: u32
  hb_flags :: u32
  hb_size :: nat
  hb_pages :: nat
  hb_free :: bool
  hb_previous :: nat
  hb_next :: nat

text \<open>The statics of the file, the memory the blocks live in, and the frame allocator.\<close>

record kheap =
  g_blocks :: nat
  g_heap_ready :: bool
  kh_hdr :: "nat \<Rightarrow> heap_block"
  kh_mem :: "nat \<Rightarrow> u8"
  kh_pmm :: pmm

definition hb_upd :: "nat \<Rightarrow> (heap_block \<Rightarrow> heap_block) \<Rightarrow> kheap \<Rightarrow> kheap" where
  "hb_upd b f s = s\<lparr>kh_hdr := (kh_hdr s)(b := f (kh_hdr s b))\<rparr>"

text \<open>A header after \<open>memset\<close> to zero.\<close>

definition hb_zero :: heap_block where
  "hb_zero = \<lparr>hb_magic = 0, hb_flags = 0, hb_size = 0, hb_pages = 0, hb_free = False,
              hb_previous = 0, hb_next = 0\<rparr>"

definition from_pmm :: "heap_block \<Rightarrow> bool" where
  "from_pmm x \<longleftrightarrow> hb_flags x AND KHEAP_FROM_PMM \<noteq> 0"

section \<open>Operations\<close>

definition align_up :: "nat \<Rightarrow> nat \<Rightarrow> nat" where
  "align_up value alignment = add64 value (alignment - 1) div alignment * alignment"

text \<open>The size of \<open>struct heap_block\<close> with 64-bit pointers.\<close>

definition sizeof_heap_block :: nat where "sizeof_heap_block = 48"

definition header_size :: nat where
  "header_size = align_up sizeof_heap_block KHEAP_ALIGN"

definition append_block :: "nat \<Rightarrow> kheap \<Rightarrow> kheap" where
  "append_block block s =
    (let s1 = hb_upd block (\<lambda>x. x\<lparr>hb_previous := 0, hb_next := g_blocks s\<rparr>) s;
         s2 = (if g_blocks s \<noteq> 0 then hb_upd (g_blocks s) (\<lambda>x. x\<lparr>hb_previous := block\<rparr>) s1 else s1)
     in s2\<lparr>g_blocks := block\<rparr>)"

definition remove_block :: "nat \<Rightarrow> kheap \<Rightarrow> kheap" where
  "remove_block block s =
    (let s1 = (if hb_previous (kh_hdr s block) \<noteq> 0
               then hb_upd (hb_previous (kh_hdr s block)) (\<lambda>x. x\<lparr>hb_next := hb_next (kh_hdr s block)\<rparr>) s
               else s\<lparr>g_blocks := hb_next (kh_hdr s block)\<rparr>)
     in if hb_next (kh_hdr s1 block) \<noteq> 0
        then hb_upd (hb_next (kh_hdr s1 block)) (\<lambda>x. x\<lparr>hb_previous := hb_previous (kh_hdr s1 block)\<rparr>) s1
        else s1)"

definition kheap_init :: "nat \<Rightarrow> nat \<Rightarrow> kheap \<Rightarrow> kheap" where
  "kheap_init start sz s =
    (let s1 = s\<lparr>g_blocks := 0, g_heap_ready := True\<rparr>;
         base = align_up start KHEAP_ALIGN;
         skipped = (base + 2 ^ 64 - start) mod 2 ^ 64
     in if start = 0 \<or> sz \<le> header_size + KHEAP_ALIGN then s1
        else if skipped \<ge> sz \<or> sz - skipped \<le> header_size then s1
        else append_block base (hb_upd base (\<lambda>_. hb_zero\<lparr>hb_magic := KHEAP_MAGIC,
               hb_size := sz - skipped - header_size, hb_free := True\<rparr>) s1))"

definition split_arena_block :: "nat \<Rightarrow> nat \<Rightarrow> kheap \<Rightarrow> kheap" where
  "split_arena_block block wanted s =
    (let overhead = header_size; x = kh_hdr s block
     in if from_pmm x \<or> hb_size x < add64 (add64 wanted overhead) KHEAP_ALIGN then s
        else let remainder = block + overhead + wanted;
                 s1 = hb_upd remainder (\<lambda>_. hb_zero\<lparr>hb_magic := KHEAP_MAGIC,
                        hb_size := hb_size x - wanted - overhead, hb_free := True,
                        hb_previous := block, hb_next := hb_next x\<rparr>) s;
                 s2 = (if hb_next x \<noteq> 0
                       then hb_upd (hb_next x) (\<lambda>y. y\<lparr>hb_previous := remainder\<rparr>) s1 else s1)
             in hb_upd block (\<lambda>y. y\<lparr>hb_next := remainder, hb_size := wanted\<rparr>) s2)"

text \<open>The search of \<open>kmalloc\<close> along the links; 0 when no block fits.\<close>

partial_function (option) find_fit :: "(nat \<Rightarrow> heap_block) \<Rightarrow> nat \<Rightarrow> nat \<Rightarrow> nat option" where
  "find_fit h sz block =
    (if block = 0 then Some 0
     else if \<not> hb_free (h block) \<or> hb_size (h block) < sz then find_fit h sz (hb_next (h block))
     else Some block)"

definition kmalloc_pages :: "nat \<Rightarrow> kheap \<Rightarrow> nat \<times> kheap" where
  "kmalloc_pages sz s =
    (let bytes = add64 header_size sz;
         pages = add64 bytes (PAGE_SIZE - 1) div PAGE_SIZE
     in case pmm_alloc_pages pages (kh_pmm s) of
          (None, m) \<Rightarrow> (0, s\<lparr>kh_pmm := m\<rparr>)
        | (Some block, m) \<Rightarrow>
            (block + header_size,
             append_block block (hb_upd block (\<lambda>_. hb_zero\<lparr>hb_magic := KHEAP_MAGIC, hb_flags := KHEAP_FROM_PMM,
               hb_size := pages * PAGE_SIZE - header_size, hb_pages := pages\<rparr>) (s\<lparr>kh_pmm := m\<rparr>))))"

text \<open>The outer option of \<open>kmalloc\<close> is \<open>None\<close> if the call does not return; a null pointer is 0.\<close>

definition kmalloc :: "nat \<Rightarrow> kheap \<Rightarrow> (nat \<times> kheap) option" where
  "kmalloc size0 s =
    (if size0 = 0 then Some (0, s)
     else let s1 = (if g_heap_ready s then s else kheap_init 0 0 s);
              sz = align_up size0 KHEAP_ALIGN
          in case find_fit (kh_hdr s1) sz (g_blocks s1) of
               None \<Rightarrow> None
             | Some block \<Rightarrow>
                 if block \<noteq> 0
                 then Some (block + header_size,
                            hb_upd block (\<lambda>x. x\<lparr>hb_free := False\<rparr>) (split_arena_block block sz s1))
                 else Some (kmalloc_pages sz s1))"

definition mem_set :: "nat \<Rightarrow> u8 list \<Rightarrow> (nat \<Rightarrow> u8) \<Rightarrow> nat \<Rightarrow> u8" where
  "mem_set p bs m a = (if p \<le> a \<and> a < p + length bs then bs ! (a - p) else m a)"

definition kzalloc :: "nat \<Rightarrow> kheap \<Rightarrow> (nat \<times> kheap) option" where
  "kzalloc sz s =
    map_option (\<lambda>(p, t). (p, if p \<noteq> 0 then t\<lparr>kh_mem := mem_set p (replicate sz 0) (kh_mem t)\<rparr> else t))
      (kmalloc sz s)"

definition merge_next :: "nat \<Rightarrow> kheap \<Rightarrow> kheap" where
  "merge_next block s =
    (let next = hb_next (kh_hdr s block)
     in if next \<noteq> 0 \<and> hb_free (kh_hdr s next) \<and> \<not> from_pmm (kh_hdr s next) \<and>
           block + header_size + hb_size (kh_hdr s block) = next
        then let s1 = hb_upd block (\<lambda>x. x\<lparr>hb_size := add64 (hb_size x) (add64 header_size (hb_size (kh_hdr s next))),
                                         hb_next := hb_next (kh_hdr s next)\<rparr>) s
             in if hb_next (kh_hdr s1 block) \<noteq> 0
                then hb_upd (hb_next (kh_hdr s1 block)) (\<lambda>x. x\<lparr>hb_previous := block\<rparr>) s1 else s1
        else s)"

definition merge_previous :: "nat \<Rightarrow> kheap \<Rightarrow> kheap" where
  "merge_previous block s =
    (let previous = hb_previous (kh_hdr s block)
     in if previous \<noteq> 0 \<and> hb_free (kh_hdr s previous) \<and> \<not> from_pmm (kh_hdr s previous) \<and>
           previous + header_size + hb_size (kh_hdr s previous) = block
        then let s1 = hb_upd previous (\<lambda>x. x\<lparr>hb_size := add64 (hb_size x) (add64 header_size (hb_size (kh_hdr s block))),
                                            hb_next := hb_next (kh_hdr s block)\<rparr>) s
             in if hb_next (kh_hdr s1 previous) \<noteq> 0
                then hb_upd (hb_next (kh_hdr s1 previous)) (\<lambda>x. x\<lparr>hb_previous := previous\<rparr>) s1 else s1
        else s)"

definition merge_arena_neighbors :: "nat \<Rightarrow> kheap \<Rightarrow> kheap" where
  "merge_arena_neighbors block s = merge_previous block (merge_next block s)"

definition kfree :: "nat \<Rightarrow> kheap \<Rightarrow> kheap" where
  "kfree pointer s =
    (let block = pointer - header_size; x = kh_hdr s block
     in if pointer = 0 then s
        else if hb_magic x \<noteq> KHEAP_MAGIC then s
        else if hb_free x then s
        else if from_pmm x
        then let s1 = hb_upd block (\<lambda>y. y\<lparr>hb_magic := 0\<rparr>) (remove_block block s)
             in s1\<lparr>kh_pmm := pmm_free_pages block (hb_pages x) (kh_pmm s1)\<rparr>
        else merge_arena_neighbors block (hb_upd block (\<lambda>y. y\<lparr>hb_free := True\<rparr>) s))"

definition mem_get :: "(nat \<Rightarrow> u8) \<Rightarrow> nat \<Rightarrow> nat \<Rightarrow> u8 list" where
  "mem_get m p n = map m [p..<p + n]"

definition krealloc :: "nat \<Rightarrow> nat \<Rightarrow> kheap \<Rightarrow> (nat \<times> kheap) option" where
  "krealloc pointer new_size s =
    (let x = kh_hdr s (pointer - header_size)
     in if pointer = 0 then kmalloc new_size s
        else if new_size = 0 then Some (0, kfree pointer s)
        else if hb_magic x \<noteq> KHEAP_MAGIC then Some (0, s)
        else if hb_size x \<ge> new_size then Some (pointer, s)
        else case kmalloc new_size s of
               None \<Rightarrow> None
             | Some (replacement, t) \<Rightarrow>
                 if replacement = 0 then Some (0, t)
                 else Some (replacement, kfree pointer
                   (t\<lparr>kh_mem := mem_set replacement
                        (mem_get (kh_mem t) pointer (hb_size (kh_hdr t (pointer - header_size)))) (kh_mem t)\<rparr>)))"

section \<open>Linked blocks\<close>

text \<open>
  \<open>seg nx pv a p bs q\<close>: following the links from \<open>p\<close> visits \<open>bs\<close> and arrives at \<open>q\<close>; the back link of
  each block is the block before it, that of the first is \<open>a\<close>.
\<close>

fun seg :: "(nat \<Rightarrow> nat) \<Rightarrow> (nat \<Rightarrow> nat) \<Rightarrow> nat \<Rightarrow> nat \<Rightarrow> nat list \<Rightarrow> nat \<Rightarrow> bool" where
  "seg nx pv a p [] q \<longleftrightarrow> p = q"
| "seg nx pv a p (b # bs) q \<longleftrightarrow> p = b \<and> b \<noteq> 0 \<and> pv b = a \<and> seg nx pv b (nx b) bs q"

lemma seg_append: "seg nx pv a p (xs @ ys) q \<longleftrightarrow>
    seg nx pv a p xs (hd (ys @ [q])) \<and> seg nx pv (last (a # xs)) (hd (ys @ [q])) ys q"
  by (induction xs arbitrary: a p) (auto, (cases ys; simp)+)

lemma seg_cong:
  "(\<And>b. b \<in> set bs \<Longrightarrow> nx' b = nx b) \<Longrightarrow> (\<And>b. b \<in> set bs \<Longrightarrow> pv' b = pv b) \<Longrightarrow>
   seg nx' pv' a p bs q \<longleftrightarrow> seg nx pv a p bs q"
  by (induction bs arbitrary: a p) auto

lemma seg_cong0:
  "seg nx pv a p bs q \<Longrightarrow> (\<And>b. b \<noteq> 0 \<Longrightarrow> nx' b = nx b) \<Longrightarrow> (\<And>b. b \<noteq> 0 \<Longrightarrow> pv' b = pv b) \<Longrightarrow>
   seg nx' pv' a p bs q"
  by (induction bs arbitrary: a p) auto

lemma seg_nonzero: "seg nx pv a p bs q \<Longrightarrow> 0 \<notin> set bs"
  by (induction bs arbitrary: a p) auto

lemma seg_start: "seg nx pv a p bs q \<Longrightarrow> p = hd (bs @ [q])"
  by (cases bs) auto

lemma seg_determ: "seg nx pv a p xs 0 \<Longrightarrow> seg nx pv' a' p ys 0 \<Longrightarrow> xs = ys"
proof (induction xs arbitrary: a a' p ys)
  case Nil
  then show ?case by (cases ys) auto
next
  case (Cons x xs)
  then obtain zs where "ys = x # zs" by (cases ys) auto
  with Cons show ?case by auto
qed

lemma seg_distinct: "seg nx pv a p bs 0 \<Longrightarrow> distinct bs"
proof (induction bs arbitrary: a p)
  case (Cons b bs)
  have "b \<notin> set bs"
  proof
    assume "b \<in> set bs"
    then obtain us vs where bs: "bs = us @ b # vs" by (auto dest: split_list)
    with Cons.prems have "seg nx pv b (nx b) (us @ b # vs) 0" by simp
    then have "seg nx pv (last (b # us)) b (b # vs) 0" unfolding seg_append by simp
    moreover have "seg nx pv a b (b # bs) 0" using Cons.prems by auto
    ultimately have "b # bs = b # vs" using seg_determ by blast
    with bs show False by simp
  qed
  with Cons show ?case by auto
qed simp

lemma seg_remove:
  assumes "seg nx pv 0 p (us @ x # vs) 0"
  shows "seg (nx(last (0 # us) := nx x)) (pv(nx x := pv x)) 0 (if us = [] then nx x else p) (us @ vs) 0"
proof -
  have d: "distinct (us @ x # vs)" and z: "0 \<notin> set (us @ x # vs)"
    using seg_distinct [OF assms] seg_nonzero [OF assms] .
  from assms have s: "seg nx pv 0 p us x" "pv x = last (0 # us)" "seg nx pv x (nx x) vs 0"
    by (auto simp: seg_append)
  have nx: "nx x = hd (vs @ [0])" using s(3) by (rule seg_start)
  let ?n = "nx(last (0 # us) := nx x)" and ?v = "pv(nx x := pv x)"
  have "seg ?n ?v 0 (if us = [] then nx x else p) us (nx x)"
  proof (cases us rule: rev_cases)
    case (snoc ws w)
    have "nx x \<notin> set us" using d z nx by (cases vs) auto
    moreover have "seg nx pv 0 p ws w" "pv w = last (0 # ws)" "w \<noteq> 0" "w \<notin> set ws"
      using s(1) d snoc by (auto simp: seg_append)
    moreover from this have "seg ?n ?v 0 p ws w"
      using snoc \<open>nx x \<notin> set us\<close> by (subst seg_cong [of _ _ nx _ pv]) auto
    ultimately show ?thesis using snoc by (auto simp: seg_append)
  qed simp
  moreover have "seg ?n ?v (last (0 # us)) (nx x) vs 0"
  proof (cases vs)
    case (Cons c cs)
    have "last (0 # us) \<notin> set vs" using d z by (cases us rule: rev_cases) auto
    then have "seg nx pv c (nx c) cs 0 \<longleftrightarrow> seg ?n ?v c (?n c) cs 0"
      using Cons d nx by (subst seg_cong [of _ ?n nx ?v pv]) auto
    moreover have "?n c = nx c" "?v c = last (0 # us)"
      using \<open>last (0 # us) \<notin> set vs\<close> Cons nx s(2) by auto
    ultimately show ?thesis using s(3) Cons nx by auto
  qed (use nx in simp)
  ultimately show ?thesis using nx by (auto simp: seg_append)
qed

lemma seg_insert:
  assumes "seg nx pv 0 p (us @ b # vs) 0" and "r \<noteq> 0" and "r \<notin> set (us @ b # vs)"
  shows "seg (nx(b := r, r := nx b)) (pv(r := b, nx b := r)) 0 p (us @ b # r # vs) 0"
proof -
  have d: "distinct (us @ b # vs)" and z: "0 \<notin> set (us @ b # vs)"
    using seg_distinct [OF assms(1)] seg_nonzero [OF assms(1)] .
  from assms(1) have s: "seg nx pv 0 p us b" "pv b = last (0 # us)" "seg nx pv b (nx b) vs 0"
    by (auto simp: seg_append)
  have nx: "nx b = hd (vs @ [0])" using s(3) by (rule seg_start)
  let ?n = "nx(b := r, r := nx b)" and ?v = "pv(r := b, nx b := r)"
  have ne: "nx b \<noteq> r" "nx b \<noteq> b" "nx b \<notin> set us" using assms(2,3) d z nx by (cases vs; auto)+
  have "seg ?n ?v 0 p us b"
    using s(1) ne d assms(3) by (subst seg_cong [of _ _ nx _ pv]) auto
  moreover have "seg ?n ?v r (nx b) vs 0"
  proof (cases vs)
    case (Cons c cs)
    then have "seg nx pv c (nx c) cs 0 \<longleftrightarrow> seg ?n ?v c (?n c) cs 0"
      using d nx assms(3) by (subst seg_cong [of _ ?n nx ?v pv]) auto
    moreover have "?n c = nx c" "?v c = r" using Cons nx d assms(3) by auto
    ultimately show ?thesis using s(3) Cons nx by auto
  qed (use nx in simp)
  ultimately show ?thesis using s(2) z d ne assms(2,3) by (auto simp: seg_append)
qed

lemma seg_cons:
  assumes "seg nx pv 0 p bs 0" and "a \<noteq> 0" and "a \<notin> set bs"
  shows "seg (nx(a := p)) (pv(a := 0, p := a)) 0 a (a # bs) 0"
proof (cases bs)
  case Nil
  with assms show ?thesis by auto
next
  case (Cons c cs)
  have "distinct bs" using seg_distinct [OF assms(1)] .
  with assms Cons have "seg (nx(a := p)) (pv(a := 0, p := a)) c (nx c) cs 0"
    by (subst seg_cong [of _ _ nx _ pv]) auto
  with assms Cons show ?thesis by auto
qed

lemma find_fit_seg:
  "seg (hb_next \<circ> h) pv a p bs 0 \<Longrightarrow>
   find_fit h sz p = Some (case find (\<lambda>b. hb_free (h b) \<and> sz \<le> hb_size (h b)) bs of None \<Rightarrow> 0 | Some b \<Rightarrow> b)"
  by (induction bs arbitrary: a p) (subst find_fit.simps; auto simp: not_less)+

section \<open>Tiles\<close>

text \<open>\<open>tiled ar sz a bs l\<close>: the blocks \<open>bs\<close> with their headers cover \<open>[a, l)\<close> in order, without gaps.\<close>

fun tiled :: "(nat \<Rightarrow> bool) \<Rightarrow> (nat \<Rightarrow> nat) \<Rightarrow> nat \<Rightarrow> nat list \<Rightarrow> nat \<Rightarrow> bool" where
  "tiled ar sz a [] l \<longleftrightarrow> a = l"
| "tiled ar sz a (b # bs) l \<longleftrightarrow> b = a \<and> ar b \<and> b mod 16 = 0 \<and> tiled ar sz (b + 48 + sz b) bs l"

lemma tiled_append: "tiled ar sz a (xs @ ys) l \<longleftrightarrow> (\<exists>m. tiled ar sz a xs m \<and> tiled ar sz m ys l)"
  by (induction xs arbitrary: a) auto

lemma tiled_cong:
  "(\<And>b. b \<in> set bs \<Longrightarrow> ar' b = ar b) \<Longrightarrow> (\<And>b. b \<in> set bs \<Longrightarrow> sz' b = sz b) \<Longrightarrow>
   tiled ar' sz' a bs l \<longleftrightarrow> tiled ar sz a bs l"
  by (induction bs arbitrary: a) auto

lemma tiled_le: "tiled ar sz a bs l \<Longrightarrow> a \<le> l"
  by (induction bs arbitrary: a) fastforce+

lemma tiled_member: "tiled ar sz a bs l \<Longrightarrow> b \<in> set bs \<Longrightarrow> a \<le> b \<and> b + 48 + sz b \<le> l \<and> ar b \<and> b mod 16 = 0"
proof (induction bs arbitrary: a)
  case (Cons c cs)
  then have le: "c + 48 + sz c \<le> l" by (auto dest: tiled_le)
  show ?case
  proof (cases "b = c")
    case False
    with Cons have "c + 48 + sz c \<le> b \<and> b + 48 + sz b \<le> l \<and> ar b \<and> b mod 16 = 0" by auto
    with Cons.prems(1) show ?thesis by auto
  qed (use Cons.prems le in auto)
qed simp

lemma tiled_around:
  assumes "tiled ar sz a (xs @ b # ys) l"
  shows "\<And>x. x \<in> set xs \<Longrightarrow> x + 48 + sz x \<le> b" and "\<And>y. y \<in> set ys \<Longrightarrow> b + 48 + sz b \<le> y"
    and "ys = [] \<Longrightarrow> b + 48 + sz b = l" and "ys \<noteq> [] \<Longrightarrow> b + 48 + sz b = hd ys"
    and "xs \<noteq> [] \<Longrightarrow> last xs + 48 + sz (last xs) = b"
proof -
  from assms have t: "tiled ar sz a xs b" "tiled ar sz (b + 48 + sz b) ys l" by (auto simp: tiled_append)
  show "\<And>x. x \<in> set xs \<Longrightarrow> x + 48 + sz x \<le> b" using tiled_member [OF t(1)] by blast
  show "\<And>y. y \<in> set ys \<Longrightarrow> b + 48 + sz b \<le> y" using tiled_member [OF t(2)] by blast
  show "ys = [] \<Longrightarrow> b + 48 + sz b = l" using t(2) by simp
  show "ys \<noteq> [] \<Longrightarrow> b + 48 + sz b = hd ys" using t(2) by (cases ys) auto
  show "xs \<noteq> [] \<Longrightarrow> last xs + 48 + sz (last xs) = b" using t(1) by (cases xs rule: rev_cases) (auto simp: tiled_append)
qed

lemma tiled_split:
  assumes "tiled ar sz a (xs @ b # ys) l" and "w mod 16 = 0" and "w + 48 \<le> sz b" and "r = b + 48 + w"
  shows "tiled (ar(r := True)) (sz(r := sz b - w - 48, b := w)) a (xs @ b # r # ys) l"
proof -
  note around = tiled_around [OF assms(1)]
  have xs: "r \<notin> set xs" "b \<notin> set xs" and ys: "r \<notin> set ys" "b \<notin> set ys"
    using around(1,2) assms(3,4) by fastforce+
  let ?ar = "ar(r := True)" and ?sz = "sz(r := sz b - w - 48, b := w)"
  from assms(1) have t: "tiled ar sz a xs b" "ar b" "b mod 16 = 0" "tiled ar sz (b + 48 + sz b) ys l"
    by (auto simp: tiled_append)
  have "tiled ?ar ?sz a xs b" and "tiled ?ar ?sz (b + 48 + sz b) ys l"
    using t(1,4) xs ys by (subst tiled_cong [of _ _ ar _ sz]; auto)+
  moreover have e: "r + 48 + (sz b - (w + 48)) = b + 48 + sz b" and "r \<noteq> b" "r mod 16 = 0"
    using assms(2,3,4) t(3) by auto
  ultimately show ?thesis using t(2,3) by (auto simp: tiled_append assms(4) [symmetric] e)
qed

lemma tiled_merge:
  assumes "tiled ar sz a (xs @ b # c # ys) l"
  shows "tiled ar (sz(b := sz b + (48 + sz c))) a (xs @ b # ys) l"
proof -
  note around = tiled_around [OF assms]
  have "b \<notin> set xs" "b \<notin> set ys" using around(1,2) by fastforce+
  moreover from assms have t: "tiled ar sz a xs b" "ar b" "b mod 16 = 0"
      "tiled ar sz (b + 48 + sz b + 48 + sz c) ys l"
    by (auto simp: tiled_append add.assoc)
  ultimately have "tiled ar (sz(b := sz b + (48 + sz c))) a xs b"
      "tiled ar (sz(b := sz b + (48 + sz c))) (b + 48 + sz b + 48 + sz c) ys l"
    by (subst tiled_cong [of _ _ ar _ sz]; auto)+
  with t(2,3) show ?thesis by (auto simp: tiled_append add.assoc)
qed

section \<open>Invariant\<close>

definition arena_hdr :: "heap_block \<Rightarrow> bool" where
  "arena_hdr x \<longleftrightarrow> hb_magic x = KHEAP_MAGIC \<and> \<not> from_pmm x"

abbreviation nxt :: "kheap \<Rightarrow> nat \<Rightarrow> nat" where "nxt s \<equiv> hb_next \<circ> kh_hdr s"
abbreviation prv :: "kheap \<Rightarrow> nat \<Rightarrow> nat" where "prv s \<equiv> hb_previous \<circ> kh_hdr s"
abbreviation bsz :: "kheap \<Rightarrow> nat \<Rightarrow> nat" where "bsz s \<equiv> hb_size \<circ> kh_hdr s"
abbreviation fre :: "kheap \<Rightarrow> nat \<Rightarrow> bool" where "fre s \<equiv> hb_free \<circ> kh_hdr s"
abbreviation aren :: "kheap \<Rightarrow> nat \<Rightarrow> bool" where "aren s \<equiv> arena_hdr \<circ> kh_hdr s"

text \<open>A header without its links, and the addresses of a block.\<close>

definition body :: "heap_block \<Rightarrow> u32 \<times> u32 \<times> nat \<times> nat \<times> bool" where
  "body x = (hb_magic x, hb_flags x, hb_size x, hb_pages x, hb_free x)"

definition block_span :: "kheap \<Rightarrow> nat \<Rightarrow> nat set" where
  "block_span s b = {b..<b + 48 + hb_size (kh_hdr s b)}"

text \<open>The frames of a page block are in use, and the heap holds the only reference to them.\<close>

definition pmm_block :: "kheap \<Rightarrow> nat \<Rightarrow> bool" where
  "pmm_block s b \<longleftrightarrow>
    hb_magic (kh_hdr s b) = KHEAP_MAGIC \<and> from_pmm (kh_hdr s b) \<and> \<not> hb_free (kh_hdr s b) \<and>
    (\<exists>f. b = f * PAGE_SIZE \<and> 0 < f \<and> 0 < hb_pages (kh_hdr s b) \<and>
      f + hb_pages (kh_hdr s b) \<le> g_frame_limit (kh_pmm s) \<and>
      hb_size (kh_hdr s b) = hb_pages (kh_hdr s b) * PAGE_SIZE - 48 \<and>
      (\<forall>g. f \<le> g \<and> g < f + hb_pages (kh_hdr s b) \<longrightarrow>
         frame_is_used (kh_pmm s) g \<and> g_frame_refs (kh_pmm s) g = 1))"

text \<open>
  The layout of the heap: page blocks \<open>ps\<close> first, then the arena blocks \<open>as\<close>, which tile
  \<open>[base, limit)\<close>; blocks do not overlap, and no frame of the arena is free in the frame allocator.
\<close>

definition heap_lay :: "nat \<Rightarrow> nat \<Rightarrow> nat list \<Rightarrow> nat list \<Rightarrow> kheap \<Rightarrow> bool" where
  "heap_lay base limit ps bs s \<longleftrightarrow>
    g_heap_ready s \<and> limit < 2 ^ 64 \<and> pmm_inv (kh_pmm s) \<and>
    seg (nxt s) (prv s) 0 (g_blocks s) (ps @ bs) 0 \<and>
    tiled (aren s) (bsz s) base bs limit \<and>
    (\<forall>p \<in> set ps. pmm_block s p \<and> block_span s p \<inter> {base..<limit} = {}) \<and>
    (\<forall>p \<in> set ps. \<forall>q \<in> set ps. p \<noteq> q \<longrightarrow> block_span s p \<inter> block_span s q = {}) \<and>
    (\<forall>a \<in> {base..<limit}. frame_is_used (kh_pmm s) (a div PAGE_SIZE))"

definition compact :: "(nat \<Rightarrow> bool) \<Rightarrow> nat list \<Rightarrow> bool" where
  "compact fr bs \<longleftrightarrow> successively (\<lambda>b c. \<not> (fr b \<and> fr c)) bs"

definition heap_inv :: "nat \<Rightarrow> nat \<Rightarrow> kheap \<Rightarrow> bool" where
  "heap_inv base limit s \<longleftrightarrow> (\<exists>ps bs. heap_lay base limit ps bs s \<and> compact (fre s) bs)"

text \<open>The blocks on the list, and those of them in use.\<close>

definition blocks :: "kheap \<Rightarrow> nat set" where
  "blocks s = {b. \<exists>bs. seg (nxt s) (prv s) 0 (g_blocks s) bs 0 \<and> b \<in> set bs}"

definition live :: "kheap \<Rightarrow> nat set" where
  "live s = {b \<in> blocks s. \<not> hb_free (kh_hdr s b)}"

lemma header_size_eq [simp]: "header_size = 48"
  by (simp add: header_size_def align_up_def add64_def sizeof_heap_block_def KHEAP_ALIGN_def)

lemma add64_eq [simp]: "a + b < 2 ^ 64 \<Longrightarrow> add64 a b = a + b"
  by (simp add: add64_def)

lemma comp_upd_same [simp]: "(f \<circ> h)(b := f (h b)) = f \<circ> h"
  by auto

lemmas hdr_upd = hb_upd_def fun_upd_comp

lemma blocks_lay:
  assumes "heap_lay base limit ps bs s"
  shows "blocks s = set ps \<union> set bs"
proof -
  have s: "seg (nxt s) (prv s) 0 (g_blocks s) (ps @ bs) 0" using assms by (simp add: heap_lay_def)
  have "(\<exists>cs. seg (nxt s) (prv s) 0 (g_blocks s) cs 0 \<and> b \<in> set cs) \<longleftrightarrow> b \<in> set (ps @ bs)" for b
    using s seg_determ [OF s] by metis
  then show ?thesis by (auto simp: blocks_def)
qed

lemma live_lay: "heap_lay base limit ps bs s \<Longrightarrow> live s = {b \<in> set ps \<union> set bs. \<not> hb_free (kh_hdr s b)}"
  by (simp add: live_def blocks_lay)

lemma pmm_block_cong:
  assumes "body (kh_hdr t b) = body (kh_hdr s b)" and "kh_pmm t = kh_pmm s"
  shows "pmm_block t b \<longleftrightarrow> pmm_block s b"
  using assms by (simp add: pmm_block_def body_def from_pmm_def)

lemma block_span_cong: "body (kh_hdr t b) = body (kh_hdr s b) \<Longrightarrow> block_span t b = block_span s b"
  by (simp add: block_span_def body_def)

text \<open>An operation on the arena that leaves the page blocks alone.\<close>

lemma heap_lay_arena:
  assumes "heap_lay base limit ps bs s"
    and "g_heap_ready t = g_heap_ready s" "kh_pmm t = kh_pmm s"
    and b: "\<And>p. p \<in> set ps \<Longrightarrow> body (kh_hdr t p) = body (kh_hdr s p)"
    and "seg (nxt t) (prv t) 0 (g_blocks t) (ps @ cs) 0" "tiled (aren t) (bsz t) base cs limit"
  shows "heap_lay base limit ps cs t"
  using assms(1-3,5,6) pmm_block_cong [OF b assms(3)] block_span_cong [OF b] by (auto simp: heap_lay_def)

lemma frames_of_span:
  "a \<in> {f * PAGE_SIZE..<f * PAGE_SIZE + n * PAGE_SIZE} \<longleftrightarrow> f \<le> a div PAGE_SIZE \<and> a div PAGE_SIZE < f + n"
  by (simp add: PAGE_SIZE_def less_eq_div_iff_mult_less_eq div_less_iff_less_mult)

lemma frames_image: "(\<lambda>a. a div PAGE_SIZE) ` {f * PAGE_SIZE..<f * PAGE_SIZE + n * PAGE_SIZE} = {f..<f + n}"
proof -
  have "g * PAGE_SIZE \<in> {f * PAGE_SIZE..<f * PAGE_SIZE + n * PAGE_SIZE} \<and> g * PAGE_SIZE div PAGE_SIZE = g"
    if "g \<in> {f..<f + n}" for g
    using that unfolding frames_of_span by (simp add: PAGE_SIZE_def)
  then have "{f..<f + n} \<subseteq> (\<lambda>a. a div PAGE_SIZE) ` {f * PAGE_SIZE..<f * PAGE_SIZE + n * PAGE_SIZE}"
    by (metis image_eqI subsetI)
  moreover have "a div PAGE_SIZE \<in> {f..<f + n}" if "a \<in> {f * PAGE_SIZE..<f * PAGE_SIZE + n * PAGE_SIZE}" for a
    using that unfolding frames_of_span by simp
  ultimately show ?thesis by blast
qed

lemma pmm_blockE:
  assumes "pmm_block s b"
  obtains f n where "b = f * PAGE_SIZE" "0 < f" "n = hb_pages (kh_hdr s b)" "0 < n" "f + n \<le> g_frame_limit (kh_pmm s)"
    "hb_size (kh_hdr s b) = n * PAGE_SIZE - 48"
    "\<And>a. a \<in> block_span s b \<longleftrightarrow> f \<le> a div PAGE_SIZE \<and> a div PAGE_SIZE < f + n"
    "\<And>g. f \<le> g \<Longrightarrow> g < f + n \<Longrightarrow> frame_is_used (kh_pmm s) g \<and> g_frame_refs (kh_pmm s) g = 1"
proof -
  define n where "n = hb_pages (kh_hdr s b)"
  from assms obtain f where f: "b = f * PAGE_SIZE" "0 < f" "0 < n" "f + n \<le> g_frame_limit (kh_pmm s)"
      "hb_size (kh_hdr s b) = n * PAGE_SIZE - 48"
      "\<And>g. f \<le> g \<Longrightarrow> g < f + n \<Longrightarrow> frame_is_used (kh_pmm s) g \<and> g_frame_refs (kh_pmm s) g = 1"
    unfolding pmm_block_def n_def by blast
  have "block_span s b = {f * PAGE_SIZE..<f * PAGE_SIZE + n * PAGE_SIZE}"
    using f(1,3,5) by (auto simp: block_span_def PAGE_SIZE_def)
  then have "a \<in> block_span s b \<longleftrightarrow> f \<le> a div PAGE_SIZE \<and> a div PAGE_SIZE < f + n" for a
    by (simp only: frames_of_span)
  from that [OF f(1,2) n_def f(3-5) this f(6)] show thesis .
qed

lemma pmm_block_span: "pmm_block s p \<Longrightarrow> a \<in> block_span s p \<Longrightarrow> frame_is_used (kh_pmm s) (a div PAGE_SIZE)"
  by (erule pmm_blockE) blast

lemma span_self: "block_span s p \<inter> A = {} \<Longrightarrow> p \<notin> A"
  using IntI [of p "block_span s p" A] by (auto simp: block_span_def)

lemma heap_lay_apart:
  assumes "heap_lay base limit ps (xs @ b # ys) s"
  shows "p \<in> set ps \<Longrightarrow> p \<notin> block_span s b" and "p \<in> set ps \<Longrightarrow> block_span s p \<inter> block_span s b = {}"
    and "c \<in> set (xs @ ys) \<Longrightarrow> block_span s c \<inter> block_span s b = {}"
    and "c \<in> set (ps @ xs @ ys) \<Longrightarrow> c \<notin> block_span s b"
proof -
  have t: "tiled (aren s) (bsz s) base (xs @ b # ys) limit" using assms by (simp add: heap_lay_def)
  have sub: "block_span s b \<subseteq> {base..<limit}" using tiled_member [OF t, of b] by (auto simp: block_span_def)
  show apart: "block_span s p \<inter> block_span s b = {}" if "p \<in> set ps" for p
    using that sub assms by (auto simp: heap_lay_def)
  show "p \<in> set ps \<Longrightarrow> p \<notin> block_span s b" using apart [of p] by (rule span_self)
  show apart': "block_span s c \<inter> block_span s b = {}" if "c \<in> set (xs @ ys)" for c
    using that tiled_around(1,2) [OF t] by (fastforce simp: block_span_def)
  show "c \<in> set (ps @ xs @ ys) \<Longrightarrow> c \<notin> block_span s b"
    using span_self [OF apart] span_self [OF apart'] by auto
qed

section \<open>Splitting\<close>

lemma split_arena_block_cases:
  assumes lay: "heap_lay base limit ps (xs @ b # ys) s"
    and n: "n mod 16 = 0" "n \<le> bsz s b"
  obtains (same) "split_arena_block b n s = s"
  | (split) r where "r = b + 48 + n" "n + 64 \<le> bsz s b"
      "heap_lay base limit ps (xs @ b # r # ys) (split_arena_block b n s)"
      "fre (split_arena_block b n s) = (fre s)(r := True)"
      "bsz (split_arena_block b n s) = (bsz s)(r := bsz s b - n - 48, b := n)"
      "\<And>c. c \<noteq> b \<Longrightarrow> c \<noteq> r \<Longrightarrow> body (kh_hdr (split_arena_block b n s) c) = body (kh_hdr s c)"
      "kh_pmm (split_arena_block b n s) = kh_pmm s" "kh_mem (split_arena_block b n s) = kh_mem s"
proof (cases "n + 64 \<le> bsz s b")
  case True
  define r where "r = b + 48 + n"
  define t where "t = split_arena_block b n s"
  have tl: "tiled (aren s) (bsz s) base (xs @ b # ys) limit" and l: "limit < 2 ^ 64"
    and sg: "seg (nxt s) (prv s) 0 (g_blocks s) ((ps @ xs) @ b # ys) 0"
    using lay by (auto simp: heap_lay_def)
  have ar: "\<not> from_pmm (kh_hdr s b)" and b: "b + 48 + bsz s b \<le> limit"
    using tiled_member [OF tl, of b] by (auto simp: arena_hdr_def)
  have rs: "r \<in> block_span s b" using True by (simp add: r_def block_span_def)
  have r: "r \<notin> set ((ps @ xs) @ b # ys)" "r \<noteq> 0"
    using heap_lay_apart(4) [OF lay, of r] rs by (auto simp: r_def)
  have nb: "nxt s b \<noteq> r" "nxt s b \<noteq> b" "nxt s b = 0 \<or> nxt s b \<in> set ys"
  proof -
    have "nxt s b = hd (ys @ [0])" using sg by (auto simp: seg_append dest: seg_start)
    then show *: "nxt s b = 0 \<or> nxt s b \<in> set ys" by (cases ys) auto
    show "nxt s b \<noteq> r" using * r by auto
    show "nxt s b \<noteq> b" using * seg_distinct [OF sg] seg_nonzero [OF sg] by auto
  qed
  have "\<not> hb_size (kh_hdr s b) < add64 (add64 n 48) 16" using True b l by simp
  then have t: "kh_hdr t = (let h = (kh_hdr s)(r := hb_zero\<lparr>hb_magic := KHEAP_MAGIC,
        hb_size := bsz s b - n - 48, hb_free := True, hb_previous := b, hb_next := nxt s b\<rparr>);
        h2 = (if nxt s b \<noteq> 0 then h(nxt s b := (kh_hdr s (nxt s b))\<lparr>hb_previous := r\<rparr>) else h)
      in h2(b := (kh_hdr s b)\<lparr>hb_next := r, hb_size := n\<rparr>))"
      "g_blocks t = g_blocks s" "g_heap_ready t = g_heap_ready s" "kh_pmm t = kh_pmm s" "kh_mem t = kh_mem s"
    using ar nb by (auto simp: t_def split_arena_block_def Let_def hb_upd_def r_def KHEAP_ALIGN_def)
  have nx: "nxt t = (nxt s)(b := r, r := nxt s b)" and fr: "fre t = (fre s)(r := True)"
    and sz: "bsz t = (bsz s)(r := bsz s b - n - 48, b := n)" and ar': "aren t = (aren s)(r := True)"
    using nb rs r(1) by (auto simp: t(1) Let_def fun_eq_iff arena_hdr_def from_pmm_def hb_zero_def r_def)
  have pv: "prv t c = ((prv s)(r := b, nxt s b := r)) c" if "c \<noteq> 0" for c
    using nb r(1) that by (auto simp: t(1) Let_def)
  have bd: "body (kh_hdr t c) = body (kh_hdr s c)" if "c \<noteq> b" "c \<noteq> r" for c
    using that by (auto simp: t(1) Let_def body_def)
  have "heap_lay base limit ps (xs @ b # r # ys) t"
  proof (rule heap_lay_arena [OF lay t(3,4)])
    show "body (kh_hdr t p) = body (kh_hdr s p)" if "p \<in> set ps" for p
      using that r(1) seg_distinct [OF sg] by (intro bd) auto
    have "seg ((nxt s)(b := r, r := nxt s b)) ((prv s)(r := b, nxt s b := r)) 0 (g_blocks s) ((ps @ xs) @ b # r # ys) 0"
      by (rule seg_insert [OF sg r(2,1)])
    then show "seg (nxt t) (prv t) 0 (g_blocks t) (ps @ xs @ b # r # ys) 0"
      unfolding t(2) nx append_assoc by (rule seg_cong0) (rule refl, rule pv)
    show "tiled (aren t) (bsz t) base (xs @ b # r # ys) limit"
      unfolding ar' sz by (rule tiled_split [OF tl n(1)]) (use True r_def in simp_all)
  qed
  from split [OF r_def True, folded t_def, OF this fr sz bd t(4,5)] show thesis .
next
  case False
  have l: "limit < 2 ^ 64" and tl: "tiled (aren s) (bsz s) base (xs @ b # ys) limit" and "b \<noteq> 0"
    using lay by (auto simp: heap_lay_def seg_append)
  moreover have "b + 48 + bsz s b \<le> limit" "b mod 16 = 0" using tiled_member [OF tl, of b] by auto
  ultimately have "n + 48 + 16 < 2 ^ 64" using n(2) by auto
  with False have "hb_size (kh_hdr s b) < add64 (add64 n 48) 16" by simp
  then have "split_arena_block b n s = s" by (simp add: split_arena_block_def KHEAP_ALIGN_def)
  then show thesis by (rule same)
qed

section \<open>Allocation\<close>

lemma heap_lay_set_free:
  assumes "heap_lay base limit ps bs s" and "b \<in> set bs"
  shows "heap_lay base limit ps bs (hb_upd b (\<lambda>x. x\<lparr>hb_free := v\<rparr>) s)"
proof (rule heap_lay_arena [OF assms(1)])
  have sg: "seg (nxt s) (prv s) 0 (g_blocks s) (ps @ bs) 0" using assms(1) by (simp add: heap_lay_def)
  have "b \<notin> set ps" using seg_distinct [OF sg] assms(2) by auto
  then show "body (kh_hdr (hb_upd b (\<lambda>x. x\<lparr>hb_free := v\<rparr>) s) p) = body (kh_hdr s p)" if "p \<in> set ps" for p
    using that by (auto simp: hb_upd_def)
  have ar: "aren (hb_upd b (\<lambda>x. x\<lparr>hb_free := v\<rparr>) s) = aren s"
    by (auto simp: hb_upd_def fun_eq_iff arena_hdr_def from_pmm_def)
  show "tiled (aren (hb_upd b (\<lambda>x. x\<lparr>hb_free := v\<rparr>) s)) (bsz (hb_upd b (\<lambda>x. x\<lparr>hb_free := v\<rparr>) s)) base bs limit"
    using assms(1) unfolding ar by (simp add: heap_lay_def hdr_upd)
  show "seg (nxt (hb_upd b (\<lambda>x. x\<lparr>hb_free := v\<rparr>) s)) (prv (hb_upd b (\<lambda>x. x\<lparr>hb_free := v\<rparr>) s)) 0
      (g_blocks (hb_upd b (\<lambda>x. x\<lparr>hb_free := v\<rparr>) s)) (ps @ bs) 0"
    using sg by (simp add: hdr_upd)
qed (simp_all add: hb_upd_def)

lemma fre_set_free [simp]: "fre (hb_upd b (\<lambda>x. x\<lparr>hb_free := v\<rparr>) s) = (fre s)(b := v)"
  by (auto simp: hb_upd_def fun_eq_iff)

lemma compact_simps [simp]: "compact fr []" "compact fr [b]"
  by (simp_all add: compact_def)

lemma compact_upd [simp]: "c \<notin> set bs \<Longrightarrow> compact (fr(c := v)) bs = compact fr bs"
  unfolding compact_def by (rule successively_cong) auto

lemma compact_around: "compact fr (xs @ b # ys) \<longleftrightarrow> compact fr xs \<and> compact fr ys \<and>
    (xs = [] \<or> \<not> (fr (last xs) \<and> fr b)) \<and> (ys = [] \<or> \<not> (fr b \<and> fr (hd ys)))"
  by (cases ys) (auto simp: compact_def successively_append_iff successively_Cons)

lemma compact_Cons: "compact fr (b # ys) \<longleftrightarrow> compact fr ys \<and> (ys = [] \<or> \<not> (fr b \<and> fr (hd ys)))"
  using compact_around [of fr "[]"] by simp

text \<open>The frames of the page blocks in use, and with them those the frame allocator has free.\<close>

definition page_span :: "kheap \<Rightarrow> nat \<Rightarrow> nat set" where
  "page_span s b = (if from_pmm (kh_hdr s b) then (\<lambda>a. a div PAGE_SIZE) ` block_span s b else {})"

definition heap_frames :: "kheap \<Rightarrow> nat set" where
  "heap_frames s = free_frames (kh_pmm s) \<union> (\<Union>b \<in> live s. page_span s b)"

lemma page_span_body: "body (kh_hdr t b) = body (kh_hdr s b) \<Longrightarrow> page_span t b = page_span s b"
  using block_span_cong [of t b s] by (auto simp: page_span_def body_def from_pmm_def)

text \<open>
  \<open>allocated base limit s t b n\<close>: from \<open>s\<close> to \<open>t\<close> the heap has given out the block \<open>b\<close>, with room for
  \<open>n\<close> bytes, and has left the other blocks in use and all bytes alone.
\<close>

definition allocated :: "nat \<Rightarrow> nat \<Rightarrow> kheap \<Rightarrow> kheap \<Rightarrow> nat \<Rightarrow> nat \<Rightarrow> bool" where
  "allocated base limit s t b n \<longleftrightarrow>
    heap_inv base limit t \<and> live t = insert b (live s) \<and> b \<notin> live s \<and> n \<le> hb_size (kh_hdr t b) \<and>
    (\<forall>c \<in> live s. body (kh_hdr t c) = body (kh_hdr s c)) \<and> kh_mem t = kh_mem s \<and>
    heap_frames t = heap_frames s"

lemma page_span_arena: "heap_lay base limit ps bs s \<Longrightarrow> b \<in> set bs \<Longrightarrow> page_span s b = {}"
  using tiled_member [of "aren s" "bsz s" base bs limit b] by (simp add: heap_lay_def arena_hdr_def page_span_def)

lemma allocatedI:
  assumes "heap_inv base limit t" and l: "live t = insert b (live s)" and "b \<notin> live s" and "n \<le> hb_size (kh_hdr t b)"
    and bd: "\<And>c. c \<in> live s \<Longrightarrow> body (kh_hdr t c) = body (kh_hdr s c)" and "kh_mem t = kh_mem s"
    and ff: "free_frames (kh_pmm s) = free_frames (kh_pmm t) \<union> page_span t b"
  shows "allocated base limit s t b n"
proof -
  have "(\<Union>c \<in> live s. page_span t c) = (\<Union>c \<in> live s. page_span s c)"
    using page_span_body [OF bd] by simp
  with assms show ?thesis by (auto simp: allocated_def heap_frames_def)
qed

lemma kmalloc_arena:
  assumes lay: "heap_lay base limit ps (xs @ b # ys) s" and cp: "compact (fre s) (xs @ b # ys)"
    and b: "fre s b" "n \<le> bsz s b" and n: "n mod 16 = 0"
    and t: "t = hb_upd b (\<lambda>x. x\<lparr>hb_free := False\<rparr>) (split_arena_block b n s)"
  shows "allocated base limit s t b n"
proof -
  have sg: "seg (nxt s) (prv s) 0 (g_blocks s) (ps @ xs @ b # ys) 0" using lay by (simp add: heap_lay_def)
  note d = seg_distinct [OF sg]
  have nl: "b \<notin> live s" using b(1) by (simp add: live_lay [OF lay])
  from lay n b(2) show ?thesis
  proof (cases rule: split_arena_block_cases)
    case same
    have l: "heap_lay base limit ps (xs @ b # ys) t" unfolding t same by (rule heap_lay_set_free [OF lay]) simp
    have fr: "fre t = (fre s)(b := False)" by (simp only: t same fre_set_free)
    have "compact (fre t) (xs @ b # ys)" using cp d unfolding compact_around fr by simp
    with l have "heap_inv base limit t" by (auto simp: heap_inv_def)
    moreover have "live t = insert b (live s)"
      unfolding live_lay [OF l] live_lay [OF lay] using b d by (auto simp: t same hb_upd_def)
    moreover have "body (kh_hdr t c) = body (kh_hdr s c)" if "c \<in> live s" for c
      using that nl by (auto simp: t same hb_upd_def)
    moreover have "free_frames (kh_pmm s) = free_frames (kh_pmm t) \<union> page_span t b"
      using page_span_arena [OF l, of b] by (simp add: t same hb_upd_def)
    ultimately show ?thesis using nl b(2) by (intro allocatedI) (auto simp: t same hb_upd_def)
  next
    case (split r)
    have l: "heap_lay base limit ps (xs @ b # r # ys) t" unfolding t by (rule heap_lay_set_free [OF split(3)]) simp
    have d': "distinct (ps @ xs @ b # r # ys)" using l by (auto simp: heap_lay_def dest!: seg_distinct)
    have fr: "fre t = (fre s)(r := True, b := False)" by (simp only: t split(4) fre_set_free)
    have "compact (fre t) (xs @ b # r # ys)"
      using cp b(1) d' unfolding compact_around fr by (auto simp: compact_Cons)
    with l have "heap_inv base limit t" by (auto simp: heap_inv_def)
    moreover have free: "hb_free (kh_hdr t c) = fre t c" for c by simp
    have "live t = insert b (live s)"
      unfolding live_lay [OF l] live_lay [OF lay] free fr using b d' by auto
    moreover have "hb_size (kh_hdr t b) = n" using fun_cong [OF split(5), of b] by (simp add: t hb_upd_def)
    moreover have "r \<notin> live s" using d' by (auto simp: live_lay [OF lay])
    then have "body (kh_hdr t c) = body (kh_hdr s c)" if "c \<in> live s" for c
      using that nl split(6) [of c] by (auto simp: t hb_upd_def)
    moreover have "free_frames (kh_pmm s) = free_frames (kh_pmm t) \<union> page_span t b"
      using page_span_arena [OF l, of b] split(7) by (simp add: t hb_upd_def)
    ultimately show ?thesis using nl split(8) by (intro allocatedI) (auto simp: t hb_upd_def)
  qed
qed

text \<open>The pages of the frame allocator.\<close>

lemma append_block_simps [simp]:
  "g_blocks (append_block b s) = b" "g_heap_ready (append_block b s) = g_heap_ready s"
  "kh_pmm (append_block b s) = kh_pmm s" "kh_mem (append_block b s) = kh_mem s"
  by (simp_all add: append_block_def Let_def hb_upd_def)

lemma append_block_body [simp]: "body (kh_hdr (append_block b s) c) = body (kh_hdr s c)"
  by (auto simp: append_block_def Let_def hb_upd_def body_def)

lemma append_block_seg:
  assumes "seg (nxt s) (prv s) 0 (g_blocks s) bs 0" and "b \<noteq> 0" and "b \<notin> set bs"
  shows "seg (nxt (append_block b s)) (prv (append_block b s)) 0 b (b # bs) 0"
proof -
  have "g_blocks s \<noteq> b" using seg_start [OF assms(1)] assms(2,3) by (cases bs) auto
  then show ?thesis
    by (intro seg_cong0 [OF seg_cons [OF assms]]) (auto simp: append_block_def Let_def hb_upd_def)
qed

text \<open>Blocks keep their place when other frames of the frame allocator change hands.\<close>

lemma pmm_block_frames:
  assumes "pmm_block s b" and "body (kh_hdr t b) = body (kh_hdr s b)"
    and "g_frame_limit (kh_pmm t) = g_frame_limit (kh_pmm s)"
    and "\<And>a. a \<in> block_span s b \<Longrightarrow> frame_is_used (kh_pmm t) (a div PAGE_SIZE) \<and>
      g_frame_refs (kh_pmm t) (a div PAGE_SIZE) = g_frame_refs (kh_pmm s) (a div PAGE_SIZE)"
  shows "pmm_block t b"
proof -
  from assms(1) obtain f n where f: "b = f * PAGE_SIZE" "0 < f" "n = hb_pages (kh_hdr s b)" "0 < n"
      "f + n \<le> g_frame_limit (kh_pmm s)" "hb_size (kh_hdr s b) = n * PAGE_SIZE - 48"
      "\<And>a. a \<in> block_span s b \<longleftrightarrow> f \<le> a div PAGE_SIZE \<and> a div PAGE_SIZE < f + n"
      "\<And>g. f \<le> g \<Longrightarrow> g < f + n \<Longrightarrow> frame_is_used (kh_pmm s) g \<and> g_frame_refs (kh_pmm s) g = 1"
    by (rule pmm_blockE) blast
  have "frame_is_used (kh_pmm t) g \<and> g_frame_refs (kh_pmm t) g = 1" if "f \<le> g" "g < f + n" for g
    using assms(4) [of "g * PAGE_SIZE"] f(7) [of "g * PAGE_SIZE"] f(8) [OF that] that by (simp add: PAGE_SIZE_def)
  with f assms(1-3) show ?thesis
    unfolding pmm_block_def by (intro conjI exI [of _ f]) (auto simp: body_def from_pmm_def)
qed

lemma bodyD:
  assumes "body x = body y"
  shows "hb_magic x = hb_magic y" "hb_size x = hb_size y" "hb_pages x = hb_pages y" "hb_free x = hb_free y"
    "from_pmm x = from_pmm y" "arena_hdr x = arena_hdr y"
  using assms by (auto simp: body_def from_pmm_def arena_hdr_def)

lemma tiled_body:
  assumes "tiled (aren s) (bsz s) a bs l" and "\<And>c. c \<in> set bs \<Longrightarrow> body (kh_hdr t c) = body (kh_hdr s c)"
  shows "tiled (aren t) (bsz t) a bs l"
  using assms(1) bodyD [OF assms(2)] by (subst tiled_cong [of _ _ "aren s" _ "bsz s"]) auto

lemma compact_body:
  assumes "compact (fre s) bs" and "\<And>c. c \<in> set bs \<Longrightarrow> body (kh_hdr t c) = body (kh_hdr s c)"
  shows "compact (fre t) bs"
  using assms(1) bodyD(4) [OF assms(2)] unfolding compact_def
  by (subst successively_cong [of _ _ "\<lambda>b c. \<not> (fre s b \<and> fre s c)"]) auto

lemma heap_lay_used:
  assumes "heap_lay base limit ps bs s" and "c \<in> set ps \<union> set bs" and "a \<in> block_span s c"
  shows "frame_is_used (kh_pmm s) (a div PAGE_SIZE)"
proof (cases "c \<in> set ps")
  case True
  with assms pmm_block_span show ?thesis by (auto simp: heap_lay_def)
next
  case False
  with assms have "a \<in> {base..<limit}"
    using tiled_member [of "aren s" "bsz s" base bs limit c] by (auto simp: heap_lay_def block_span_def)
  with assms(1) show ?thesis by (auto simp: heap_lay_def)
qed

lemma kmalloc_pages_some:
  assumes lay: "heap_lay base limit ps bs s" and cp: "compact (fre s) bs"
    and f: "1 \<le> f" "f + pages \<le> g_frame_limit (kh_pmm s)" "run_free (kh_pmm s) f pages"
    and m: "m = (fold frame_claim [f..<f + pages] (kh_pmm s))\<lparr>g_search_start := f + pages\<rparr>" "pmm_inv m"
    and n: "n + 48 \<le> pages * PAGE_SIZE" and b: "b = f * PAGE_SIZE"
    and t: "t = append_block b (hb_upd b (\<lambda>_. hb_zero\<lparr>hb_magic := KHEAP_MAGIC, hb_flags := KHEAP_FROM_PMM,
               hb_size := pages * PAGE_SIZE - header_size, hb_pages := pages\<rparr>) (s\<lparr>kh_pmm := m\<rparr>))"
  shows "allocated base limit s t b n"
proof -
  have sg: "seg (nxt s) (prv s) 0 (g_blocks s) (ps @ bs) 0" using lay by (simp add: heap_lay_def)
  have pages: "0 < pages" using n by (cases pages) auto
  have span: "block_span t b = {f * PAGE_SIZE..<f * PAGE_SIZE + pages * PAGE_SIZE}"
    and body_b: "body (kh_hdr t b) = (KHEAP_MAGIC, KHEAP_FROM_PMM, pages * PAGE_SIZE - 48, pages, False)"
  proof -
    show bd: "body (kh_hdr t b) = (KHEAP_MAGIC, KHEAP_FROM_PMM, pages * PAGE_SIZE - 48, pages, False)"
      by (simp add: t hb_upd_def body_def hb_zero_def)
        (simp add: append_block_def Let_def hb_upd_def body_def)
    show "block_span t b = {f * PAGE_SIZE..<f * PAGE_SIZE + pages * PAGE_SIZE}"
      using bd n by (auto simp: block_span_def body_def b)
  qed
  have unused: "\<not> frame_is_used (kh_pmm s) (a div PAGE_SIZE)" if "a \<in> block_span t b" for a
    using that f(3) unfolding span frames_of_span run_free_def by blast
  have apart: "a \<notin> block_span t b" if "c \<in> set ps \<union> set bs" "a \<in> block_span s c" for a c
    using unused heap_lay_used [OF lay that] by blast
  have "b \<in> block_span t b" "b \<in> block_span s b" by (simp_all add: block_span_def)
  then have nb: "b \<notin> set (ps @ bs)" using apart [of b b] by auto
  have bd: "body (kh_hdr t c) = body (kh_hdr s c)" if "c \<noteq> b" for c
    using that by (simp add: t hb_upd_def)
  have sp: "block_span t c = block_span s c" if "c \<noteq> b" for c using block_span_cong [OF bd [OF that]] .
  have sg': "seg (nxt t) (prv t) 0 (g_blocks t) ((b # ps) @ bs) 0"
  proof -
    have "b \<noteq> 0" using f(1) by (simp add: b PAGE_SIZE_def)
    moreover have "seg (nxt (hb_upd b h (s\<lparr>kh_pmm := m\<rparr>))) (prv (hb_upd b h (s\<lparr>kh_pmm := m\<rparr>))) 0
        (g_blocks (hb_upd b h (s\<lparr>kh_pmm := m\<rparr>))) (ps @ bs) 0" for h
      using sg nb by (subst seg_cong [of _ _ "nxt s" _ "prv s"]) (auto simp: hb_upd_def)
    ultimately show ?thesis using nb unfolding t append_block_simps append_Cons by (intro append_block_seg)
  qed
  have kept: "pmm_block t p" if "p \<in> set ps" for p
  proof (rule pmm_block_frames [of s])
    have "p \<noteq> b" using that nb by auto
    then show "body (kh_hdr t p) = body (kh_hdr s p)" by (rule bd)
    show "pmm_block s p" using that lay by (simp add: heap_lay_def)
    show "g_frame_limit (kh_pmm t) = g_frame_limit (kh_pmm s)" by (simp add: t hb_upd_def m(1))
    fix a assume "a \<in> block_span s p"
    then have "\<not> (f \<le> a div PAGE_SIZE \<and> a div PAGE_SIZE < f + pages)" "frame_is_used (kh_pmm s) (a div PAGE_SIZE)"
      using heap_lay_used [OF lay, of p a] f(3) that by (auto simp: run_free_def)
    then show "frame_is_used (kh_pmm t) (a div PAGE_SIZE) \<and>
        g_frame_refs (kh_pmm t) (a div PAGE_SIZE) = g_frame_refs (kh_pmm s) (a div PAGE_SIZE)"
      by (auto simp: t hb_upd_def m(1))
  qed
  have new: "pmm_block t b"
    using body_b f(1,2) pages
    by (auto simp: pmm_block_def body_def from_pmm_def KHEAP_FROM_PMM_def b t hb_upd_def m(1) intro!: exI [of _ f])
  have "tiled (aren s) (bsz s) base bs limit" using lay by (simp add: heap_lay_def)
  then have "tiled (aren t) (bsz t) base bs limit" using nb by (elim tiled_body) (auto intro: bd)
  moreover have "block_span t b \<inter> {base..<limit} = {}"
    using unused lay by (auto simp: heap_lay_def)
  moreover have "block_span t p \<inter> block_span t q = {}" if "p \<in> set (b # ps)" "q \<in> set (b # ps)" "p \<noteq> q" for p q
    using that apart sp nb lay by (cases "p = b"; cases "q = b") (auto simp: heap_lay_def)
  moreover have "block_span t p \<inter> {base..<limit} = {}" if "p \<in> set ps" for p
    using that nb sp [of p] lay by (auto simp: heap_lay_def)
  ultimately have l: "heap_lay base limit (b # ps) bs t"
    using lay sg' kept new m by (auto simp: heap_lay_def t hb_upd_def)
  have "compact (fre t) bs" using nb by (intro compact_body [OF cp] bd) auto
  with l have "heap_inv base limit t" by (auto simp: heap_inv_def)
  moreover have "hb_free (kh_hdr t c) = hb_free (kh_hdr s c)" if "c \<in> set ps \<union> set bs" for c
    using that nb by (intro bodyD(4) bd) auto
  then have "live t = insert b (live s)"
    using body_b unfolding live_lay [OF l] live_lay [OF lay] by (auto simp: body_def)
  moreover have "b \<notin> live s" using nb by (auto simp: live_lay [OF lay])
  moreover have "body (kh_hdr t c) = body (kh_hdr s c)" if "c \<in> live s" for c
    using that \<open>b \<notin> live s\<close> by (intro bd) auto
  moreover have "free_frames (kh_pmm s) = free_frames (kh_pmm t) \<union> page_span t b"
  proof -
    have "page_span t b = {f..<f + pages}"
      using body_b span frames_image [of f pages] by (simp add: page_span_def body_def from_pmm_def KHEAP_FROM_PMM_def)
    then show ?thesis using f(3) by (auto simp: t hb_upd_def m(1) free_frames_def run_free_def)
  qed
  moreover have "n \<le> hb_size (kh_hdr t b)" "kh_mem t = kh_mem s" using body_b n by (auto simp: body_def t hb_upd_def)
  ultimately show ?thesis by (intro allocatedI)
qed

section \<open>Release\<close>

lemma pmm_free_frame_last:
  assumes "0 < f" "f < g_frame_limit m" "frame_is_used m f" "g_frame_refs m f = 1"
  shows "frame_is_used (pmm_free_frame (f * PAGE_SIZE) m) g \<longleftrightarrow> frame_is_used m g \<and> g \<noteq> f"
    and "g \<noteq> f \<Longrightarrow> g_frame_refs (pmm_free_frame (f * PAGE_SIZE) m) g = g_frame_refs m g"
    and "g_frame_limit (pmm_free_frame (f * PAGE_SIZE) m) = g_frame_limit m"
proof -
  have "\<not> pmm_bad_address m (f * PAGE_SIZE)" "f * PAGE_SIZE div PAGE_SIZE = f"
    using assms by (auto simp: pmm_bad_address_def PAGE_SIZE_def)
  then show "frame_is_used (pmm_free_frame (f * PAGE_SIZE) m) g \<longleftrightarrow> frame_is_used m g \<and> g \<noteq> f"
    "g \<noteq> f \<Longrightarrow> g_frame_refs (pmm_free_frame (f * PAGE_SIZE) m) g = g_frame_refs m g"
    "g_frame_limit (pmm_free_frame (f * PAGE_SIZE) m) = g_frame_limit m"
    using assms by (auto simp: pmm_free_frame_def Let_def)
qed

lemma pmm_free_pages_last:
  assumes "0 < f" "f + n \<le> g_frame_limit m"
    and "\<And>g. f \<le> g \<Longrightarrow> g < f + n \<Longrightarrow> frame_is_used m g \<and> g_frame_refs m g = 1"
  shows "g_frame_limit (pmm_free_pages (f * PAGE_SIZE) n m) = g_frame_limit m \<and>
    (\<forall>g. frame_is_used (pmm_free_pages (f * PAGE_SIZE) n m) g \<longleftrightarrow> frame_is_used m g \<and> \<not> (f \<le> g \<and> g < f + n)) \<and>
    (\<forall>g. \<not> (f \<le> g \<and> g < f + n) \<longrightarrow> g_frame_refs (pmm_free_pages (f * PAGE_SIZE) n m) g = g_frame_refs m g)"
  using assms
proof (induction n)
  case 0
  then show ?case by (simp add: pmm_free_pages_def)
next
  case (Suc n)
  let ?m = "pmm_free_pages (f * PAGE_SIZE) n m"
  have IH: "g_frame_limit ?m = g_frame_limit m"
    "\<And>g. frame_is_used ?m g \<longleftrightarrow> frame_is_used m g \<and> \<not> (f \<le> g \<and> g < f + n)"
    "\<And>g. \<not> (f \<le> g \<and> g < f + n) \<Longrightarrow> g_frame_refs ?m g = g_frame_refs m g"
    using Suc by auto
  have step: "pmm_free_pages (f * PAGE_SIZE) (Suc n) m = pmm_free_frame ((f + n) * PAGE_SIZE) ?m"
    by (simp add: pmm_free_pages_def add_mult_distrib)
  have "0 < f + n" "f + n < g_frame_limit ?m" "frame_is_used ?m (f + n)" "g_frame_refs ?m (f + n) = 1"
    using Suc.prems IH by auto
  note one = pmm_free_frame_last [OF this]
  show ?case unfolding step by (auto simp: one IH)
qed

text \<open>Taking a block out of the list, the way \<open>remove_block\<close> and both merges do it.\<close>

lemma unlink_seg:
  assumes "seg (nxt s) (prv s) 0 (g_blocks s) (us @ x # vs) 0"
    and "\<And>c. c \<noteq> 0 \<Longrightarrow> nxt t c = ((nxt s)(prv s x := nxt s x)) c"
    and "\<And>c. c \<noteq> 0 \<Longrightarrow> prv t c = ((prv s)(nxt s x := prv s x)) c"
    and "g_blocks t = (if prv s x = 0 then nxt s x else g_blocks s)"
  shows "seg (nxt t) (prv t) 0 (g_blocks t) (us @ vs) 0"
proof -
  have px: "prv s x = last (0 # us)" and "0 \<notin> set us"
    using assms(1) seg_nonzero [OF assms(1)] by (auto simp: seg_append)
  then have "prv s x = 0 \<longleftrightarrow> us = []" by (cases us rule: rev_cases) auto
  with seg_remove [OF assms(1)] have
    "seg ((nxt s)(prv s x := nxt s x)) ((prv s)(nxt s x := prv s x)) 0 (g_blocks t) (us @ vs) 0"
    unfolding assms(4) px by simp
  then show ?thesis by (rule seg_cong0) (rule assms(2,3), assumption)+
qed

lemma seg_neighbours:
  assumes "seg nx pv 0 p (us @ x # vs) 0"
  shows "nx x = hd (vs @ [0])" "pv x = last (0 # us)" "x \<noteq> 0" "nx x \<noteq> x" "pv x \<noteq> x"
    "nx x \<noteq> 0 \<Longrightarrow> pv x \<noteq> nx x"
proof -
  have d: "distinct (us @ x # vs)" "0 \<notin> set (us @ x # vs)"
    using seg_distinct [OF assms] seg_nonzero [OF assms] by auto
  show nx: "nx x = hd (vs @ [0])" and pv: "pv x = last (0 # us)" and "x \<noteq> 0"
    using assms by (auto simp: seg_append dest: seg_start)
  show "nx x \<noteq> x" "pv x \<noteq> x" "nx x \<noteq> 0 \<Longrightarrow> pv x \<noteq> nx x"
    using d nx pv by (cases vs; cases us rule: rev_cases; auto)+
qed

lemma remove_block_simps [simp]:
  "kh_pmm (remove_block b s) = kh_pmm s" "kh_mem (remove_block b s) = kh_mem s"
  "g_heap_ready (remove_block b s) = g_heap_ready s" "body (kh_hdr (remove_block b s) c) = body (kh_hdr s c)"
  by (auto simp: remove_block_def Let_def hb_upd_def body_def)

lemma remove_block_seg:
  assumes "seg (nxt s) (prv s) 0 (g_blocks s) (us @ x # vs) 0"
  shows "seg (nxt (remove_block x s)) (prv (remove_block x s)) 0 (g_blocks (remove_block x s)) (us @ vs) 0"
  using seg_neighbours [OF assms]
  by (intro unlink_seg [OF assms]) (auto simp: remove_block_def Let_def hb_upd_def)

text \<open>\<open>freed base limit s t b\<close>: from \<open>s\<close> to \<open>t\<close> the heap has taken back the block \<open>b\<close>.\<close>

definition freed :: "nat \<Rightarrow> nat \<Rightarrow> kheap \<Rightarrow> kheap \<Rightarrow> nat \<Rightarrow> bool" where
  "freed base limit s t b \<longleftrightarrow>
    heap_inv base limit t \<and> live t = live s - {b} \<and>
    (\<forall>c \<in> live t. body (kh_hdr t c) = body (kh_hdr s c)) \<and> kh_mem t = kh_mem s \<and>
    heap_frames t = heap_frames s"

lemma freedI:
  assumes "heap_inv base limit t" and l: "live t = live s - {b}" and "b \<in> live s"
    and bd: "\<And>c. c \<in> live t \<Longrightarrow> body (kh_hdr t c) = body (kh_hdr s c)" and "kh_mem t = kh_mem s"
    and ff: "free_frames (kh_pmm t) = free_frames (kh_pmm s) \<union> page_span s b"
  shows "freed base limit s t b"
proof -
  have "(\<Union>c \<in> live t. page_span t c) = (\<Union>c \<in> live t. page_span s c)"
    using page_span_body [OF bd] by simp
  with assms show ?thesis by (auto simp: freed_def heap_frames_def)
qed

lemma kfree_pages:
  assumes lay: "heap_lay base limit (us @ b # vs) bs s" and cp: "compact (fre s) bs"
    and t: "t = kfree (b + 48) s"
  shows "freed base limit s t b"
proof -
  have sg: "seg (nxt s) (prv s) 0 (g_blocks s) (us @ b # vs @ bs) 0" using lay by (simp add: heap_lay_def)
  have pb: "pmm_block s b" using lay by (simp add: heap_lay_def)
  then obtain f n where f: "b = f * PAGE_SIZE" "0 < f" "n = hb_pages (kh_hdr s b)" "f + n \<le> g_frame_limit (kh_pmm s)"
      "\<And>a. a \<in> block_span s b \<longleftrightarrow> f \<le> a div PAGE_SIZE \<and> a div PAGE_SIZE < f + n"
      "\<And>g. f \<le> g \<Longrightarrow> g < f + n \<Longrightarrow> frame_is_used (kh_pmm s) g \<and> g_frame_refs (kh_pmm s) g = 1"
    by (rule pmm_blockE) blast
  note pages = pmm_free_pages_last [OF f(2,4,6)]
  have t': "t = (hb_upd b (\<lambda>y. y\<lparr>hb_magic := 0\<rparr>) (remove_block b s))\<lparr>kh_pmm := pmm_free_pages (f * PAGE_SIZE) n (kh_pmm s)\<rparr>"
    using pb f(1,3) by (simp add: t kfree_def Let_def pmm_block_def hb_upd_def)
  have bd: "body (kh_hdr t c) = body (kh_hdr s c)" if "c \<noteq> b" for c
    using that by (simp add: t' hb_upd_def)
  have nb: "b \<notin> set (us @ vs @ bs)" using seg_distinct [OF sg] by auto
  have "block_span s b = {f * PAGE_SIZE..<f * PAGE_SIZE + n * PAGE_SIZE}"
    using f(5) unfolding frames_of_span [symmetric] by blast
  then have frames: "page_span s b = {f..<f + n}"
    using pb frames_image [of f n] by (simp add: page_span_def pmm_block_def)
  have apart: "frame_is_used (kh_pmm t) (a div PAGE_SIZE) \<and>
      g_frame_refs (kh_pmm t) (a div PAGE_SIZE) = g_frame_refs (kh_pmm s) (a div PAGE_SIZE)"
    if "frame_is_used (kh_pmm s) (a div PAGE_SIZE)" "a \<notin> block_span s b" for a
    using that pages by (auto simp: t' f(5))
  have sep: "block_span s p \<inter> block_span s b = {}" if "p \<in> set (us @ vs)" for p
    using that lay nb by (auto simp: heap_lay_def)
  have kept: "pmm_block t p" if "p \<in> set (us @ vs)" for p
  proof (rule pmm_block_frames [of s])
    show p: "pmm_block s p" using that lay by (auto simp: heap_lay_def)
    show "body (kh_hdr t p) = body (kh_hdr s p)" using that nb by (intro bd) auto
    show "g_frame_limit (kh_pmm t) = g_frame_limit (kh_pmm s)" using pages by (simp add: t')
    show "frame_is_used (kh_pmm t) (a div PAGE_SIZE) \<and>
      g_frame_refs (kh_pmm t) (a div PAGE_SIZE) = g_frame_refs (kh_pmm s) (a div PAGE_SIZE)"
      if "a \<in> block_span s p" for a
      using pmm_block_span [OF p that] sep \<open>p \<in> set (us @ vs)\<close> that by (intro apart) auto
  qed
  have sp: "block_span t p = block_span s p" if "p \<in> set (us @ vs)" for p
    using that nb by (intro block_span_cong bd) auto
  have "seg (nxt t) (prv t) 0 (g_blocks t) ((us @ vs) @ bs) 0"
    using remove_block_seg [OF sg] by (simp add: t' hdr_upd)
  moreover have "tiled (aren s) (bsz s) base bs limit" using lay by (simp add: heap_lay_def)
  then have "tiled (aren t) (bsz t) base bs limit" using nb by (elim tiled_body) (auto intro: bd)
  moreover have "frame_is_used (kh_pmm t) (a div PAGE_SIZE)" if "a \<in> {base..<limit}" for a
  proof (rule conjunct1 [OF apart])
    show "frame_is_used (kh_pmm s) (a div PAGE_SIZE)" using that lay by (simp add: heap_lay_def)
    have "block_span s b \<inter> {base..<limit} = {}" using lay by (simp add: heap_lay_def)
    with that show "a \<notin> block_span s b" by blast
  qed
  moreover have "pmm_inv (kh_pmm t)" using lay by (simp add: t' heap_lay_def pmm_inv_free_pages)
  moreover have "g_heap_ready t" "limit < 2 ^ 64" using lay by (simp_all add: t' heap_lay_def hb_upd_def)
  moreover have "\<forall>p \<in> set (us @ vs). pmm_block t p \<and> block_span t p \<inter> {base..<limit} = {}"
    using kept sp lay by (auto simp: heap_lay_def)
  moreover have "\<forall>p \<in> set (us @ vs). \<forall>q \<in> set (us @ vs). p \<noteq> q \<longrightarrow> block_span t p \<inter> block_span t q = {}"
    using lay by (simp add: sp heap_lay_def)
  ultimately have l: "heap_lay base limit (us @ vs) bs t" unfolding heap_lay_def by blast
  have "compact (fre t) bs" using nb by (intro compact_body [OF cp] bd) auto
  with l have "heap_inv base limit t" by (auto simp: heap_inv_def)
  moreover have "hb_free (kh_hdr t c) = hb_free (kh_hdr s c)" if "c \<in> set (us @ vs) \<union> set bs" for c
    using that nb by (intro bodyD(4) bd) auto
  then have "live t = live s - {b}" using nb unfolding live_lay [OF l] live_lay [OF lay] by auto
  moreover have "body (kh_hdr t c) = body (kh_hdr s c)" if "c \<in> live t" for c
    using that calculation by (intro bd) auto
  moreover have "free_frames (kh_pmm t) = free_frames (kh_pmm s) \<union> {f..<f + n}"
    using pages by (auto simp: t' free_frames_def)
  moreover have "b \<in> live s" using pb unfolding live_lay [OF lay] by (simp add: pmm_block_def)
  ultimately show ?thesis unfolding frames [symmetric] by (intro freedI) (auto simp: t' hb_upd_def)
qed

text \<open>
  Both merges absorb the block \<open>x\<close> into the free block \<open>b\<close> before it: \<open>x\<close> leaves the list, and \<open>b\<close>
  grows by it.
\<close>

definition absorb :: "nat \<Rightarrow> nat \<Rightarrow> kheap \<Rightarrow> kheap" where
  "absorb b x s =
    (let s1 = hb_upd b (\<lambda>y. y\<lparr>hb_size := add64 (hb_size y) (add64 header_size (hb_size (kh_hdr s x))),
                             hb_next := hb_next (kh_hdr s x)\<rparr>) s
     in if hb_next (kh_hdr s1 b) \<noteq> 0
        then hb_upd (hb_next (kh_hdr s1 b)) (\<lambda>y. y\<lparr>hb_previous := b\<rparr>) s1 else s1)"

lemma absorb_simps [simp]:
  "kh_pmm (absorb b x s) = kh_pmm s" "kh_mem (absorb b x s) = kh_mem s" "g_blocks (absorb b x s) = g_blocks s"
  "g_heap_ready (absorb b x s) = g_heap_ready s" "fre (absorb b x s) = fre s"
  "c \<noteq> b \<Longrightarrow> body (kh_hdr (absorb b x s) c) = body (kh_hdr s c)"
  by (auto simp: absorb_def Let_def hb_upd_def body_def fun_eq_iff)

lemma merge_next_eq:
  assumes "heap_lay base limit ps (xs @ b # ys) s"
  shows "merge_next b s = (case ys of [] \<Rightarrow> s | x # _ \<Rightarrow> if fre s x then absorb b x s else s)"
proof -
  have sg: "seg (nxt s) (prv s) 0 (g_blocks s) ((ps @ xs) @ b # ys) 0"
    and tl: "tiled (aren s) (bsz s) base (xs @ b # ys) limit" using assms by (auto simp: heap_lay_def)
  have nx: "hb_next (kh_hdr s b) = hd (ys @ [0])" using seg_neighbours(1) [OF sg] by simp
  show ?thesis
  proof (cases ys)
    case Nil
    with nx show ?thesis by (simp add: merge_next_def)
  next
    case (Cons x zs)
    with seg_nonzero [OF sg] have "x \<noteq> 0" by auto
    moreover have "\<not> from_pmm (kh_hdr s x)" using tiled_member [OF tl, of x] Cons by (auto simp: arena_hdr_def)
    moreover have "b + 48 + hb_size (kh_hdr s b) = x" using tiled_around(4) [OF tl] Cons by simp
    ultimately show ?thesis using nx Cons by (auto simp: merge_next_def absorb_def Let_def)
  qed
qed

lemma merge_previous_eq:
  assumes "heap_lay base limit ps (xs @ b # ys) s"
  shows "merge_previous b s = (if xs \<noteq> [] \<and> fre s (last xs) then absorb (last xs) b s else s)"
proof -
  have sg: "seg (nxt s) (prv s) 0 (g_blocks s) ((ps @ xs) @ b # ys) 0"
    and tl: "tiled (aren s) (bsz s) base (xs @ b # ys) limit" using assms by (auto simp: heap_lay_def)
  have pv: "hb_previous (kh_hdr s b) = last (0 # ps @ xs)" using seg_neighbours(2) [OF sg] by simp
  show ?thesis
  proof (cases xs rule: rev_cases)
    case Nil
    have "last (0 # ps) = 0 \<or> \<not> hb_free (kh_hdr s (last (0 # ps)))"
      using assms by (cases ps rule: rev_cases) (auto simp: heap_lay_def pmm_block_def)
    with Nil pv show ?thesis by (auto simp: merge_previous_def Let_def)
  next
    case (snoc zs x)
    with seg_nonzero [OF sg] have "x \<noteq> 0" by auto
    moreover have "\<not> from_pmm (kh_hdr s x)" using tiled_member [OF tl, of x] snoc by (auto simp: arena_hdr_def)
    moreover have "x + 48 + hb_size (kh_hdr s x) = b" using tiled_around(5) [OF tl] snoc by simp
    ultimately show ?thesis using pv snoc by (auto simp: merge_previous_def absorb_def Let_def)
  qed
qed

lemma absorb_lay:
  assumes lay: "heap_lay base limit ps (xs @ b # x # ys) s"
  shows "heap_lay base limit ps (xs @ b # ys) (absorb b x s)"
proof (rule heap_lay_arena [OF lay])
  have sg: "seg (nxt s) (prv s) 0 (g_blocks s) ((ps @ xs @ [b]) @ x # ys) 0"
    and tl: "tiled (aren s) (bsz s) base (xs @ b # x # ys) limit" and l: "limit < 2 ^ 64"
    using lay by (auto simp: heap_lay_def)
  note d = seg_distinct [OF sg]
  note nb = seg_neighbours [OF sg]
  have b: "b \<noteq> 0" "hb_previous (kh_hdr s x) = b" using nb(2) seg_nonzero [OF sg] by auto
  show "body (kh_hdr (absorb b x s) p) = body (kh_hdr s p)" if "p \<in> set ps" for p
    using that d by (intro absorb_simps(6)) auto
  show "seg (nxt (absorb b x s)) (prv (absorb b x s)) 0 (g_blocks (absorb b x s)) (ps @ xs @ b # ys) 0"
    using unlink_seg [OF sg, of "absorb b x s"] nb b by (auto simp: absorb_def Let_def hb_upd_def)
  have "x + 48 + bsz s x \<le> limit" "b + 48 + bsz s b = x"
    using tiled_member [OF tl, of x] tiled_around(4) [OF tl] by auto
  then have "bsz (absorb b x s) = (bsz s)(b := bsz s b + (48 + bsz s x))" "aren (absorb b x s) = aren s"
    using l by (auto simp: absorb_def Let_def hb_upd_def fun_eq_iff arena_hdr_def from_pmm_def)
  then show "tiled (aren (absorb b x s)) (bsz (absorb b x s)) base (xs @ b # ys) limit"
    using tiled_merge [OF tl] by simp
qed simp_all

lemma absorb_live:
  assumes lay: "heap_lay base limit ps (xs @ b # x # ys) s" and "fre s b" "fre s x"
  shows "live (absorb b x s) = live s"
    and "c \<in> live s \<Longrightarrow> body (kh_hdr (absorb b x s) c) = body (kh_hdr s c)"
proof -
  have free: "hb_free (kh_hdr (absorb b x s) c) = hb_free (kh_hdr s c)" for c
    using fun_cong [OF absorb_simps(5), of b x s c] unfolding comp_apply .
  show "live (absorb b x s) = live s"
    unfolding live_lay [OF absorb_lay [OF lay]] live_lay [OF lay] free using assms(2,3) by auto
  show "c \<in> live s \<Longrightarrow> body (kh_hdr (absorb b x s) c) = body (kh_hdr s c)"
    using assms(2) unfolding live_lay [OF lay] by (intro absorb_simps(6)) auto
qed

lemma merge_next_lay:
  assumes lay: "heap_lay base limit ps (xs @ b # ys) s" and "fre s b" and "compact (fre s) ys"
  obtains zs where "heap_lay base limit ps (xs @ b # zs) (merge_next b s)" "fre (merge_next b s) = fre s"
    "compact (fre s) zs" "zs = [] \<or> \<not> fre s (hd zs)" "live (merge_next b s) = live s"
    "\<And>c. c \<in> live s \<Longrightarrow> body (kh_hdr (merge_next b s) c) = body (kh_hdr s c)"
    "kh_mem (merge_next b s) = kh_mem s" "kh_pmm (merge_next b s) = kh_pmm s"
proof (cases "ys \<noteq> [] \<and> fre s (hd ys)")
  case True
  then obtain x zs where ys: "ys = x # zs" "fre s x" by (cases ys) auto
  have eq: "merge_next b s = absorb b x s" using merge_next_eq [OF lay] ys by simp
  have z: "compact (fre s) zs" "zs = [] \<or> \<not> fre s (hd zs)" using assms(3) ys by (auto simp: compact_Cons)
  note lay' = lay [unfolded ys(1)]
  from that [of zs, unfolded eq, OF absorb_lay [OF lay'] absorb_simps(5) z absorb_live [OF lay' assms(2) ys(2)]]
  show thesis by simp
next
  case False
  then have "merge_next b s = s" using merge_next_eq [OF lay] by (cases ys) auto
  with that [of ys] assms False show thesis by auto
qed

lemma merge_lay:
  assumes lay: "heap_lay base limit ps (xs @ b # ys) s" and "fre s b" "compact (fre s) xs" "compact (fre s) ys"
    and t: "t = merge_arena_neighbors b s"
  shows "heap_inv base limit t \<and> live t = live s \<and> (\<forall>c \<in> live s. body (kh_hdr t c) = body (kh_hdr s c)) \<and>
    kh_mem t = kh_mem s \<and> kh_pmm t = kh_pmm s"
proof -
  define u where "u = merge_next b s"
  obtain zs where u: "heap_lay base limit ps (xs @ b # zs) u" "fre u = fre s" "compact (fre s) zs"
      "zs = [] \<or> \<not> fre s (hd zs)" "live u = live s"
      "\<And>c. c \<in> live s \<Longrightarrow> body (kh_hdr u c) = body (kh_hdr s c)" "kh_mem u = kh_mem s" "kh_pmm u = kh_pmm s"
    unfolding u_def using merge_next_lay [OF lay assms(2,4)] by blast
  have t': "t = (if xs \<noteq> [] \<and> fre u (last xs) then absorb (last xs) b u else u)"
    unfolding t merge_arena_neighbors_def u_def [symmetric] by (rule merge_previous_eq [OF u(1)])
  show ?thesis
  proof (cases "xs \<noteq> [] \<and> fre u (last xs)")
    case True
    then obtain ws a where xs: "xs = ws @ [a]" "fre u a" by (cases xs rule: rev_cases) auto
    have lu: "heap_lay base limit ps (ws @ a # b # zs) u" using u(1) xs(1) by simp
    have ta: "t = absorb a b u" unfolding t' using True xs(1) by simp
    have "fre u b" unfolding u(2) by (rule assms(2))
    note al = absorb_live [OF lu xs(2) this]
    have "compact (fre t) (ws @ a # zs)"
      using assms(3) u(3,4) unfolding ta absorb_simps u(2) xs(1) compact_around by simp
    with absorb_lay [OF lu] have "heap_inv base limit t" unfolding ta heap_inv_def by blast
    with al u(5-8) show ?thesis by (simp add: ta)
  next
    case False
    have "compact (fre u) (xs @ b # zs)"
      using False assms(3) u(3,4) unfolding compact_around u(2) by auto
    with u(1) have "heap_inv base limit u" unfolding heap_inv_def by blast
    moreover have "t = u" unfolding t' using False by (rule if_not_P)
    ultimately show ?thesis using u(5-8) by simp
  qed
qed

lemma kfree_arena:
  assumes lay: "heap_lay base limit ps (xs @ b # ys) s" and cp: "compact (fre s) (xs @ b # ys)"
    and b: "\<not> fre s b" and t: "t = kfree (b + 48) s"
  shows "freed base limit s t b"
proof -
  define u where "u = hb_upd b (\<lambda>y. y\<lparr>hb_free := True\<rparr>) s"
  have lu: "heap_lay base limit ps (xs @ b # ys) u" unfolding u_def by (rule heap_lay_set_free [OF lay]) simp
  have "seg (nxt s) (prv s) 0 (g_blocks s) (ps @ xs @ b # ys) 0" using lay by (simp add: heap_lay_def)
  then have d: "distinct (ps @ xs @ b # ys)" by (rule seg_distinct)
  have fu: "fre u = (fre s)(b := True)" unfolding u_def by (rule fre_set_free)
  have "arena_hdr (kh_hdr s b)"
    using lay tiled_member [of "aren s" "bsz s" base "xs @ b # ys" limit b] by (simp add: heap_lay_def)
  then have t': "t = merge_arena_neighbors b u"
    using b by (simp add: t kfree_def Let_def u_def arena_hdr_def)
  have "fre u b" "compact (fre u) xs" "compact (fre u) ys"
    using cp d unfolding fu compact_around by simp_all
  note m = merge_lay [OF lu this t']
  have free: "hb_free (kh_hdr u c) = fre u c" for c by simp
  have "live u = live s - {b}"
    unfolding live_lay [OF lu] live_lay [OF lay] free fu using d b by auto
  moreover have "body (kh_hdr u c) = body (kh_hdr s c)" if "c \<noteq> b" for c using that by (simp add: u_def hb_upd_def)
  moreover have "free_frames (kh_pmm t) = free_frames (kh_pmm s) \<union> page_span s b"
    using m page_span_arena [OF lay, of b] by (simp add: u_def hb_upd_def)
  moreover have "b \<in> live s" using b unfolding live_lay [OF lay] by simp
  ultimately show ?thesis using m by (intro freedI) (auto simp: u_def hb_upd_def)
qed

section \<open>The operations on a well-formed heap\<close>

text \<open>The largest request whose size, rounded up and with a header, is computed without wrap-around.\<close>

definition KMALLOC_MAX :: nat where
  "KMALLOC_MAX = 2 ^ 64 - 48 - 16 - 4096"

lemma align_up_16:
  assumes "n \<le> KMALLOC_MAX"
  shows "align_up n KHEAP_ALIGN mod 16 = 0" "n \<le> align_up n KHEAP_ALIGN" "align_up n KHEAP_ALIGN \<le> n + 15"
  using assms by (auto simp: align_up_def KHEAP_ALIGN_def KMALLOC_MAX_def)

lemma kmalloc_pages_cases:
  assumes lay: "heap_lay base limit ps bs s" and cp: "compact (fre s) bs" and n: "n \<le> KMALLOC_MAX + 15"
  obtains (none) "kmalloc_pages n s = (0, s)"
      "\<And>f. 1 \<le> f \<Longrightarrow> f + (n + 48 + 4095) div PAGE_SIZE \<le> g_frame_limit (kh_pmm s) \<Longrightarrow>
        \<not> run_free (kh_pmm s) f ((n + 48 + 4095) div PAGE_SIZE)"
  | (some) b t where "kmalloc_pages n s = (b + 48, t)" "allocated base limit s t b n" "b mod 16 = 0"
proof -
  define pages where "pages = (n + 48 + 4095) div PAGE_SIZE"
  have pg: "add64 (add64 header_size n) (PAGE_SIZE - 1) div PAGE_SIZE = pages"
    using n by (simp add: pages_def KMALLOC_MAX_def PAGE_SIZE_def add64_def)
  have np: "n + 48 \<le> pages * PAGE_SIZE" by (simp add: pages_def PAGE_SIZE_def)
  have p0: "pages \<noteq> 0" by (simp add: pages_def PAGE_SIZE_def)
  have inv: "pmm_inv (kh_pmm s)" using lay by (simp add: heap_lay_def)
  from inv p0 one_neq_zero show thesis
  proof (cases rule: pmm_alloc_aligned_cases)
    case none
    have "kmalloc_pages n s = (0, s)"
      unfolding kmalloc_pages_def Let_def pg pmm_alloc_pages_def none(1) by simp
    with that(1) none(2) show thesis by (simp add: pages_def)
  next
    case (some f)
    define m where "m = (fold frame_claim [f..<f + pages] (kh_pmm s))\<lparr>g_search_start := f + pages\<rparr>"
    have "pmm_inv m" using pmm_inv_alloc_aligned [OF inv, of pages 1] unfolding some(1) m_def by simp
    note alloc = kmalloc_pages_some [OF lay cp some(2,4,5) m_def this np refl refl]
    show thesis
    proof (rule that(2) [OF _ alloc])
      show "f * PAGE_SIZE mod 16 = 0" by (simp add: PAGE_SIZE_def mod_mult_eq [symmetric, of f])
    qed (unfold kmalloc_pages_def Let_def pg pmm_alloc_pages_def some(1) m_def, simp)
  qed
qed

text \<open>\<open>w\<close> is the size the request is rounded to, of whatever value.\<close>

lemma kmalloc_search:
  assumes lay: "heap_lay base limit ps bs s" and "n \<noteq> 0" and w: "w = align_up n KHEAP_ALIGN"
  shows "kmalloc n s =
    (case find (\<lambda>b. hb_free (kh_hdr s b) \<and> w \<le> hb_size (kh_hdr s b)) (ps @ bs) of
       None \<Rightarrow> Some (kmalloc_pages w s)
     | Some b \<Rightarrow> Some (b + 48, hb_upd b (\<lambda>x. x\<lparr>hb_free := False\<rparr>) (split_arena_block b w s)))"
proof -
  have sg: "seg (nxt s) (prv s) 0 (g_blocks s) (ps @ bs) 0" and rd: "g_heap_ready s"
    using lay by (auto simp: heap_lay_def)
  have "b \<noteq> 0" if "find P (ps @ bs) = Some b" for b P
    using seg_nonzero [OF sg] that by (metis find_SomeD)
  with assms(2) show ?thesis
    unfolding kmalloc_def Let_def if_P [OF rd] w [symmetric] find_fit_seg [OF sg]
    by (auto split: option.splits)
qed

lemma kmalloc_fit:
  assumes lay: "heap_lay base limit ps bs s" and cp: "compact (fre s) bs" and w: "align_up n KHEAP_ALIGN mod 16 = 0"
    and "n \<noteq> 0" and "\<exists>b \<in> set ps \<union> set bs. hb_free (kh_hdr s b) \<and> align_up n KHEAP_ALIGN \<le> hb_size (kh_hdr s b)"
  obtains b t where "kmalloc n s = Some (b + 48, t)" "allocated base limit s t b (align_up n KHEAP_ALIGN)" "b mod 16 = 0"
proof -
  define w where "w = align_up n KHEAP_ALIGN"
  let ?P = "\<lambda>b. hb_free (kh_hdr s b) \<and> w \<le> hb_size (kh_hdr s b)"
  obtain b where f: "find ?P (ps @ bs) = Some b"
    using assms(5) find_None_iff [of ?P "ps @ bs"] by (cases "find ?P (ps @ bs)") (auto simp: w_def)
  then have b: "b \<in> set (ps @ bs)" "?P b" by (auto dest: find_SomeD)
  then have "b \<in> set bs" using lay by (auto simp: heap_lay_def pmm_block_def)
  then obtain xs ys where bs: "bs = xs @ b # ys" by (auto dest: split_list)
  have "allocated base limit s (hb_upd b (\<lambda>x. x\<lparr>hb_free := False\<rparr>) (split_arena_block b w s)) b w"
    by (rule kmalloc_arena [OF lay [unfolded bs] cp [unfolded bs] _ _ _ refl]) (use b(2) w w_def in simp_all)
  moreover have "b mod 16 = 0"
    using lay tiled_member [of "aren s" "bsz s" base bs limit b] \<open>b \<in> set bs\<close> by (simp add: heap_lay_def)
  ultimately show thesis using that kmalloc_search [OF lay assms(4) w_def] f w_def by simp
qed

lemma kmalloc_cases:
  assumes inv: "heap_inv base limit s" and n: "0 < n" "n \<le> KMALLOC_MAX"
  obtains (null) "kmalloc n s = Some (0, s)"
      "\<And>b. b \<in> blocks s \<Longrightarrow> hb_free (kh_hdr s b) \<Longrightarrow> hb_size (kh_hdr s b) < align_up n KHEAP_ALIGN"
      "\<And>f. 1 \<le> f \<Longrightarrow> f + (align_up n KHEAP_ALIGN + 48 + 4095) div PAGE_SIZE \<le> g_frame_limit (kh_pmm s) \<Longrightarrow>
        \<not> run_free (kh_pmm s) f ((align_up n KHEAP_ALIGN + 48 + 4095) div PAGE_SIZE)"
  | (ok) b t where "kmalloc n s = Some (b + 48, t)" "allocated base limit s t b n" "b mod 16 = 0"
proof -
  obtain ps bs where lay: "heap_lay base limit ps bs s" and cp: "compact (fre s) bs"
    using inv by (auto simp: heap_inv_def)
  define w where "w = align_up n KHEAP_ALIGN"
  note w = align_up_16 [OF n(2), folded w_def]
  have weaken: "allocated base limit s t b w \<Longrightarrow> allocated base limit s t b n" for t b
    using w(2) by (simp add: allocated_def)
  show thesis
  proof (cases "\<exists>b \<in> set ps \<union> set bs. hb_free (kh_hdr s b) \<and> w \<le> hb_size (kh_hdr s b)")
    case False
    then have nofit: "\<And>b. b \<in> blocks s \<Longrightarrow> hb_free (kh_hdr s b) \<Longrightarrow> hb_size (kh_hdr s b) < w"
      unfolding blocks_lay [OF lay] by auto
    from False have "find (\<lambda>b. hb_free (kh_hdr s b) \<and> w \<le> hb_size (kh_hdr s b)) (ps @ bs) = None"
      unfolding find_None_iff by auto
    then have km: "kmalloc n s = Some (kmalloc_pages w s)" using kmalloc_search [OF lay _ w_def] n(1) by simp
    from w n(2) have "w \<le> KMALLOC_MAX + 15" by linarith
    from lay cp this show thesis
    proof (cases rule: kmalloc_pages_cases)
      case none
      from null [folded w_def, OF _ nofit none(2)] km none(1) show thesis by simp
    next
      case (some b t)
      from ok [OF _ weaken [OF some(2)] some(3)] km some(1) show thesis by simp
    qed
  next
    case True
    with kmalloc_fit [OF lay cp, of n] w(1) n(1) ok weaken show thesis by (metis less_numeral_extra(3) w_def)
  qed
qed

lemma kfree_live:
  assumes inv: "heap_inv base limit s" and b: "b \<in> live s"
  shows "freed base limit s (kfree (b + 48) s) b"
proof -
  obtain ps bs where lay: "heap_lay base limit ps bs s" and cp: "compact (fre s) bs"
    using inv by (auto simp: heap_inv_def)
  from b consider "b \<in> set ps" | "b \<in> set bs" "\<not> fre s b" unfolding live_lay [OF lay] by auto
  then show ?thesis
  proof cases
    case 1
    then obtain us vs where ps: "ps = us @ b # vs" by (auto dest: split_list)
    from kfree_pages [OF lay [unfolded ps] cp refl] show ?thesis .
  next
    case 2
    then obtain xs ys where bs: "bs = xs @ b # ys" by (auto dest: split_list)
    from kfree_arena [OF lay [unfolded bs] cp [unfolded bs] 2(2) refl] show ?thesis .
  qed
qed

lemma heap_inv_disjoint:
  assumes "heap_inv base limit s" and "b \<in> blocks s" "c \<in> blocks s" "b \<noteq> c"
  shows "block_span s b \<inter> block_span s c = {}"
proof -
  obtain ps bs where lay: "heap_lay base limit ps bs s" using assms(1) by (auto simp: heap_inv_def)
  have arena: "block_span s p \<inter> block_span s q = {}" if q: "q \<in> set bs" and p: "p \<in> set ps \<union> set bs" "p \<noteq> q" for p q
  proof -
    obtain xs ys where "bs = xs @ q # ys" using split_list [OF q] by blast
    with heap_lay_apart(2,3) [of base limit ps xs q ys s p] lay p show ?thesis by auto
  qed
  show ?thesis
  proof (cases "b \<in> set bs \<or> c \<in> set bs")
    case True
    with arena [of b c] arena [of c b] assms(2-4) show ?thesis unfolding blocks_lay [OF lay] by (auto simp: Int_commute)
  next
    case False
    with lay assms(2-4) show ?thesis unfolding blocks_lay [OF lay] by (auto simp: heap_lay_def)
  qed
qed

lemma heap_inv_aligned:
  assumes "heap_inv base limit s" and "b \<in> blocks s"
  shows "b mod 16 = 0"
proof -
  obtain ps bs where lay: "heap_lay base limit ps bs s" using assms(1) by (auto simp: heap_inv_def)
  from assms(2) consider "b \<in> set ps" | "b \<in> set bs" unfolding blocks_lay [OF lay] by blast
  then show ?thesis
  proof cases
    case 1
    then have "pmm_block s b" using lay by (simp add: heap_lay_def)
    then obtain f where "b = f * PAGE_SIZE" by (rule pmm_blockE)
    then show ?thesis by (simp add: PAGE_SIZE_def mod_mult_eq [symmetric, of f])
  next
    case 2
    with lay tiled_member [of "aren s" "bsz s" base bs limit b] show ?thesis by (simp add: heap_lay_def)
  qed
qed

lemma block_end:
  assumes "heap_inv base limit s" and "b \<in> blocks s"
  shows "b + 48 + hb_size (kh_hdr s b) < 2 ^ 64" "0 < b"
proof -
  obtain ps bs where lay: "heap_lay base limit ps bs s" using assms(1) by (auto simp: heap_inv_def)
  have "seg (nxt s) (prv s) 0 (g_blocks s) (ps @ bs) 0" using lay by (simp add: heap_lay_def)
  from seg_nonzero [OF this] show "0 < b" using assms(2) unfolding blocks_lay [OF lay] by (cases b) auto
  from assms(2) consider "b \<in> set ps" | "b \<in> set bs" unfolding blocks_lay [OF lay] by blast
  then show "b + 48 + hb_size (kh_hdr s b) < 2 ^ 64"
  proof cases
    case 1
    then have "pmm_block s b" "pmm_inv (kh_pmm s)" using lay by (simp_all add: heap_lay_def)
    moreover obtain f n where "b = f * PAGE_SIZE" "0 < n" "f + n \<le> g_frame_limit (kh_pmm s)"
        "hb_size (kh_hdr s b) = n * PAGE_SIZE - 48"
      using calculation(1) by (rule pmm_blockE)
    moreover have "g_frame_limit (kh_pmm s) \<le> PMM_MAX_FRAMES" using calculation(2) by (simp add: pmm_inv_def pmm_ok_def)
    ultimately show ?thesis by (auto simp: PAGE_SIZE_def PMM_MAX_FRAMES_def PMM_MAX_PHYS_ADDR_def)
  next
    case 2
    with lay tiled_member [of "aren s" "bsz s" base bs limit b] show ?thesis by (simp add: heap_lay_def)
  qed
qed

lemma kheap_init_none:
  assumes "pmm_inv (kh_pmm s)" and "start = 0 \<or> sz \<le> 64" and "start < 2 ^ 64"
  shows "heap_inv start start (kheap_init start sz s)" "live (kheap_init start sz s) = {}"
    "kh_pmm (kheap_init start sz s) = kh_pmm s"
proof -
  have eq: "kheap_init start sz s = s\<lparr>g_blocks := 0, g_heap_ready := True\<rparr>"
    using assms(2) by (auto simp: kheap_init_def KHEAP_ALIGN_def)
  have lay: "heap_lay start start [] [] (kheap_init start sz s)" using assms(1,3) by (simp add: heap_lay_def eq)
  then show "heap_inv start start (kheap_init start sz s)" using compact_simps(1) unfolding heap_inv_def by blast
  show "live (kheap_init start sz s) = {}" by (simp add: live_lay [OF lay])
  show "kh_pmm (kheap_init start sz s) = kh_pmm s" by (simp add: eq)
qed

lemma kheap_init_arena:
  assumes "pmm_inv (kh_pmm s)" and "0 < start" "64 < sz" "start + sz < 2 ^ 64"
    and used: "\<And>a. start \<le> a \<Longrightarrow> a < start + sz \<Longrightarrow> frame_is_used (kh_pmm s) (a div PAGE_SIZE)"
    and base: "base = align_up start KHEAP_ALIGN" and t: "t = kheap_init start sz s"
  shows "heap_inv base (start + sz) t" "live t = {}" "kh_pmm t = kh_pmm s"
proof -
  have b: "start \<le> base" "base \<le> start + 15" "base mod 16 = 0"
    using assms(2-4) by (auto simp: base align_up_def KHEAP_ALIGN_def)
  define u where "u = hb_upd base (\<lambda>_. hb_zero\<lparr>hb_magic := KHEAP_MAGIC, hb_size := sz - (base - start) - 48,
      hb_free := True\<rparr>) (s\<lparr>g_blocks := 0, g_heap_ready := True\<rparr>)"
  have "base + 2 ^ 64 - start = (base - start) + 2 ^ 64" using b(1) by simp
  moreover have "base - start < 2 ^ 64" using b(2) by simp
  ultimately have sk: "(base + 2 ^ 64 - start) mod 2 ^ 64 = base - start" by (simp only: mod_add_self2 mod_less)
  have t': "t = append_block base u"
    unfolding t kheap_init_def Let_def base [symmetric] sk u_def header_size_eq
    using b assms(2-4) by (simp add: KHEAP_ALIGN_def)
  have hdr: "body (kh_hdr t base) = (KHEAP_MAGIC, 0, sz - (base - start) - 48, 0, True)"
    by (simp add: t' u_def hb_upd_def) (simp add: body_def hb_zero_def)
  have "seg (nxt t) (prv t) 0 base [base] 0"
    unfolding t' using b assms(2) by (intro append_block_seg) (auto simp: u_def hb_upd_def)
  moreover have "tiled (aren t) (bsz t) base [base] (start + sz)"
    using hdr b assms(3) by (auto simp: body_def arena_hdr_def from_pmm_def)
  ultimately have lay: "heap_lay base (start + sz) [] [base] t"
    using assms(1,4) used b by (auto simp: heap_lay_def t' u_def hb_upd_def)
  then show "heap_inv base (start + sz) t" using compact_simps(2) unfolding heap_inv_def by blast
  show "live t = {}" using hdr by (auto simp: live_lay [OF lay] body_def)
  show "kh_pmm t = kh_pmm s" by (simp add: t' u_def hb_upd_def)
qed

text \<open>A heap with no block in use is as after initialisation: one free block, and no page taken.\<close>

lemma heap_inv_empty:
  assumes inv: "heap_inv base limit s" and "live s = {}"
  shows "blocks s = (if base = limit then {} else {base})" "heap_frames s = free_frames (kh_pmm s)"
    "base \<noteq> limit \<Longrightarrow> hb_free (kh_hdr s base) \<and> base + 48 + hb_size (kh_hdr s base) = limit"
proof -
  obtain ps bs where lay: "heap_lay base limit ps bs s" and cp: "compact (fre s) bs"
    using inv by (auto simp: heap_inv_def)
  have free: "hb_free (kh_hdr s b)" if "b \<in> set ps \<union> set bs" for b
    using that assms(2) by (auto simp: live_lay [OF lay])
  have "ps = []" using free lay by (cases ps) (auto simp: heap_lay_def pmm_block_def)
  have tl: "tiled (aren s) (bsz s) base bs limit" using lay by (simp add: heap_lay_def)
  have "bs = [] \<or> bs = [base]"
  proof (cases bs)
    case (Cons b cs)
    with free cp have "cs = []" by (cases cs) (auto simp: compact_Cons)
    with Cons tl show ?thesis by simp
  qed simp
  then show "blocks s = (if base = limit then {} else {base})"
    using tl \<open>ps = []\<close> by (auto simp: blocks_lay [OF lay])
  show "heap_frames s = free_frames (kh_pmm s)" by (simp add: heap_frames_def assms(2))
  assume "base \<noteq> limit"
  with \<open>bs = [] \<or> bs = [base]\<close> tl free show "hb_free (kh_hdr s base) \<and> base + 48 + hb_size (kh_hdr s base) = limit" by auto
qed

lemma heap_mem_simps [simp]:
  "heap_inv base limit (s\<lparr>kh_mem := m\<rparr>) = heap_inv base limit s" "live (s\<lparr>kh_mem := m\<rparr>) = live s"
  "heap_frames (s\<lparr>kh_mem := m\<rparr>) = heap_frames s" "block_span (s\<lparr>kh_mem := m\<rparr>) = block_span s"
proof -
  have pb: "pmm_block (s\<lparr>kh_mem := m\<rparr>) = pmm_block s" and sp: "block_span (s\<lparr>kh_mem := m\<rparr>) = block_span s"
    by (auto simp: pmm_block_def block_span_def fun_eq_iff)
  show "heap_inv base limit (s\<lparr>kh_mem := m\<rparr>) = heap_inv base limit s"
    by (simp add: heap_inv_def heap_lay_def pb sp)
  show "block_span (s\<lparr>kh_mem := m\<rparr>) = block_span s" by (rule sp)
  show "live (s\<lparr>kh_mem := m\<rparr>) = live s" by (simp add: live_def blocks_def)
  then show "heap_frames (s\<lparr>kh_mem := m\<rparr>) = heap_frames s" by (simp add: heap_frames_def page_span_def sp)
qed

lemma mem_get_set: "mem_get (mem_set p bs m) p (length bs) = bs"
  by (rule nth_equalityI) (auto simp: mem_get_def mem_set_def)

lemma mem_get_set_other:
  "{p..<p + length bs} \<inter> {a..<a + n} = {} \<Longrightarrow> mem_get (mem_set p bs m) a n = mem_get m a n"
  by (auto simp: mem_get_def mem_set_def)

lemma live_magic:
  assumes "heap_inv base limit s" and "b \<in> live s"
  shows "hb_magic (kh_hdr s b) = KHEAP_MAGIC"
proof -
  obtain ps bs where lay: "heap_lay base limit ps bs s" using assms(1) by (auto simp: heap_inv_def)
  then show ?thesis
    using assms(2) tiled_member [of "aren s" "bsz s" base bs limit b]
    unfolding live_lay [OF lay] by (auto simp: heap_lay_def pmm_block_def arena_hdr_def)
qed

text \<open>The bytes of a block, and a step that leaves a set of blocks with their sizes and bytes.\<close>

definition block_bytes :: "kheap \<Rightarrow> nat \<Rightarrow> u8 list" where
  "block_bytes s b = mem_get (kh_mem s) (b + 48) (hb_size (kh_hdr s b))"

lemma block_bytes_kept:
  assumes inv: "heap_inv base limit t" and b: "b \<in> live t" "length bs \<le> hb_size (kh_hdr t b)"
    and c: "c \<in> live t" "c \<noteq> b"
  shows "block_bytes (t\<lparr>kh_mem := mem_set (b + 48) bs (kh_mem t)\<rparr>) c = block_bytes t c"
proof -
  have "block_span t b \<inter> block_span t c = {}"
    using heap_inv_disjoint [OF inv] b(1) c by (auto simp: live_def)
  moreover have "{b + 48..<b + 48 + length bs} \<subseteq> block_span t b" using b(2) by (auto simp: block_span_def)
  moreover have "{c + 48..<c + 48 + hb_size (kh_hdr t c)} \<subseteq> block_span t c" by (auto simp: block_span_def)
  ultimately show ?thesis by (simp add: block_bytes_def) (rule mem_get_set_other, blast)
qed

lemma block_bytes_body:
  "body (kh_hdr t c) = body (kh_hdr s c) \<Longrightarrow> kh_mem t = kh_mem s \<Longrightarrow> block_bytes t c = block_bytes s c"
  by (simp add: block_bytes_def body_def)

lemma krealloc_cases:
  assumes inv: "heap_inv base limit s" and b: "b \<in> live s" and n: "0 < n" "n \<le> KMALLOC_MAX"
  obtains (stay) "krealloc (b + 48) n s = Some (b + 48, s)" "n \<le> hb_size (kh_hdr s b)"
  | (null) "krealloc (b + 48) n s = Some (0, s)"
  | (move) c t u where "krealloc (b + 48) n s = Some (c + 48, u)" "allocated base limit s t c n"
      "freed base limit (t\<lparr>kh_mem := mem_set (c + 48) (block_bytes s b) (kh_mem s)\<rparr>) u b"
      "length (block_bytes s b) < n" "c \<noteq> b"
proof -
  note eq = krealloc_def [of "b + 48" n s] live_magic [OF inv b] n(1)
  show thesis
  proof (cases "n \<le> hb_size (kh_hdr s b)")
    case True
    with that(1) eq show thesis by simp
  next
    case big: False
    from inv n show thesis
    proof (cases rule: kmalloc_cases)
      case null
      with that(2) eq big show thesis by simp
    next
      case (ok c t)
      let ?t = "t\<lparr>kh_mem := mem_set (c + 48) (block_bytes s b) (kh_mem s)\<rparr>"
      have t: "heap_inv base limit t" "b \<in> live t" "hb_size (kh_hdr t b) = hb_size (kh_hdr s b)" "kh_mem t = kh_mem s" "c \<noteq> b"
        using ok(2) b by (auto simp: allocated_def body_def)
      have "krealloc (b + 48) n s = Some (c + 48, kfree (b + 48) ?t)"
        using eq big ok(1) t(3,4) by (simp add: Let_def block_bytes_def)
      moreover have "freed base limit ?t (kfree (b + 48) ?t) b"
        by (rule kfree_live) (simp_all add: t)
      moreover have "length (block_bytes s b) < n" using big by (simp add: block_bytes_def mem_get_def)
      ultimately show thesis using that(3) ok(2) t(5) by blast
    qed
  qed
qed

section \<open>Sequences of calls\<close>

text \<open>
  A step of the kernel on its heap: a call of the interface with a pointer the heap gave out, or a
  store into a block in use.
\<close>

inductive kheap_step :: "kheap \<Rightarrow> kheap \<Rightarrow> bool" where
  step_malloc: "n \<le> KMALLOC_MAX \<Longrightarrow> kmalloc n s = Some (p, t) \<Longrightarrow> kheap_step s t"
| step_zalloc: "n \<le> KMALLOC_MAX \<Longrightarrow> kzalloc n s = Some (p, t) \<Longrightarrow> kheap_step s t"
| step_free: "p = 0 \<or> (\<exists>b \<in> live s. p = b + 48) \<Longrightarrow> kheap_step s (kfree p s)"
| step_realloc: "p = 0 \<or> (\<exists>b \<in> live s. p = b + 48) \<Longrightarrow> n \<le> KMALLOC_MAX \<Longrightarrow>
    krealloc p n s = Some (q, t) \<Longrightarrow> kheap_step s t"
| step_store: "b \<in> live s \<Longrightarrow> b + 48 \<le> a \<Longrightarrow> a < b + 48 + hb_size (kh_hdr s b) \<Longrightarrow>
    kheap_step s (s\<lparr>kh_mem := (kh_mem s)(a := v)\<rparr>)"

definition heap_good :: "nat \<Rightarrow> nat \<Rightarrow> nat set \<Rightarrow> kheap \<Rightarrow> bool" where
  "heap_good base limit fs s \<longleftrightarrow> heap_inv base limit s \<and> heap_frames s = fs"

lemma heap_good_mem [simp]: "heap_good base limit fs (s\<lparr>kh_mem := m\<rparr>) = heap_good base limit fs s"
  by (simp add: heap_good_def)

lemma heap_good_malloc:
  assumes "heap_good base limit fs s" and "n \<le> KMALLOC_MAX" and "kmalloc n s = Some (p, t)"
  shows "heap_good base limit fs t"
proof (cases "n = 0")
  case True
  with assms show ?thesis by (simp add: kmalloc_def)
next
  case False
  then have "heap_inv base limit s" "0 < n" using assms(1) by (auto simp: heap_good_def)
  from this assms(2) show ?thesis
    by (cases rule: kmalloc_cases) (use assms(1,3) in \<open>auto simp: heap_good_def allocated_def\<close>)
qed

lemma heap_good_free:
  assumes "heap_good base limit fs s" and "p = 0 \<or> (\<exists>b \<in> live s. p = b + 48)"
  shows "heap_good base limit fs (kfree p s)"
  using assms(2)
proof
  assume "p = 0"
  with assms(1) show ?thesis by (simp add: kfree_def)
next
  assume "\<exists>b \<in> live s. p = b + 48"
  then obtain b where "b \<in> live s" "p = b + 48" by blast
  with assms(1) kfree_live [of base limit s b] show ?thesis by (auto simp: heap_good_def freed_def)
qed

lemma heap_good_realloc:
  assumes "heap_good base limit fs s" and p: "p = 0 \<or> (\<exists>b \<in> live s. p = b + 48)" and n: "n \<le> KMALLOC_MAX"
    and eq: "krealloc p n s = Some (q, t)"
  shows "heap_good base limit fs t"
proof (cases "p = 0 \<or> n = 0")
  case True
  then have "kmalloc n s = Some (q, t) \<or> t = kfree p s"
    using eq by (auto simp: krealloc_def Let_def split: if_splits)
  with heap_good_malloc [OF assms(1) n] heap_good_free [OF assms(1) p] show ?thesis by blast
next
  case False
  with p obtain b where b: "b \<in> live s" "p = b + 48" by blast
  have "heap_inv base limit s" "0 < n" using assms(1) False by (auto simp: heap_good_def)
  from this(1) b(1) this(2) n show ?thesis
  proof (cases rule: krealloc_cases)
    case (move c u v)
    with assms(1) eq b(2) show ?thesis by (simp add: heap_good_def freed_def allocated_def)
  qed (use assms(1) eq b(2) in simp_all)
qed

lemma heap_good_step:
  assumes "kheap_step s t" and "heap_good base limit fs s"
  shows "heap_good base limit fs t"
  using assms
proof (cases rule: kheap_step.cases)
  case (step_zalloc n p)
  then obtain u where "kmalloc n s = Some (p, u)" "t = u \<or> (\<exists>m. t = u\<lparr>kh_mem := m\<rparr>)"
    by (auto simp: kzalloc_def split: if_splits)
  with heap_good_malloc [OF assms(2) step_zalloc(1)] show ?thesis by auto
qed (use assms(2) in \<open>auto intro: heap_good_malloc heap_good_free heap_good_realloc\<close>)

lemma heap_good_steps: "kheap_step\<^sup>*\<^sup>* s t \<Longrightarrow> heap_good base limit fs s \<Longrightarrow> heap_good base limit fs t"
  by (induction rule: rtranclp_induct) (auto intro: heap_good_step)

end
