(* ===== verification/KheapSpec.thy ===== *)
theory KheapSpec
  imports Kheap
begin

text \<open>
  What the kernel heap promises: the properties of \<^verbatim>\<open>kmalloc\<close>, \<^verbatim>\<open>kfree\<close> and \<^verbatim>\<open>krealloc\<close> of
  \<^verbatim>\<open>src/mm/kheap.c\<close>, for single calls and for every sequence of calls.
\<close>

section \<open>An example heap\<close>

text \<open>An arena of 512 bytes in a frame that the boot map reserves, beside three free frames.\<close>

definition demo_kheap :: kheap where
  "demo_kheap = kheap_init 0x3000 0x200 \<lparr>g_blocks = 0, g_heap_ready = False, kh_hdr = (\<lambda>_. hb_zero),
     kh_mem = (\<lambda>_. 0), kh_pmm = pmm_init 0x5000 0x5001 pmm_witness_map\<rparr>"

lemma demo_arena_used: "0x3000 \<le> a \<Longrightarrow> a < 0x3200 \<Longrightarrow>
    frame_is_used (pmm_init 0x5000 0x5001 pmm_witness_map) (a div PAGE_SIZE)"
proof -
  have "frame_is_used (pmm_init 0x5000 0x5001 pmm_witness_map) 3" by code_simp
  moreover assume "0x3000 \<le> a" "a < 0x3200"
  then have "a div PAGE_SIZE = 3" by (simp add: PAGE_SIZE_def div_nat_eqI)
  ultimately show ?thesis by simp
qed

lemma demo_kheap_inv: "heap_inv 0x3000 0x3200 demo_kheap" "live demo_kheap = {}"
    "kh_pmm demo_kheap = pmm_init 0x5000 0x5001 pmm_witness_map"
proof -
  let ?z = "\<lparr>g_blocks = 0, g_heap_ready = False, kh_hdr = (\<lambda>_. hb_zero), kh_mem = (\<lambda>_. 0),
     kh_pmm = pmm_init 0x5000 0x5001 pmm_witness_map\<rparr>"
  from demo_arena_used pmm_inv_init kheap_init_arena [of ?z "0x3000" "0x200" "0x3000", OF _ _ _ _ _ _ refl]
  show "heap_inv 0x3000 0x3200 demo_kheap" "live demo_kheap = {}"
    "kh_pmm demo_kheap = pmm_init 0x5000 0x5001 pmm_witness_map"
    unfolding demo_kheap_def by (simp_all add: align_up_def KHEAP_ALIGN_def)
qed

lemma demo_kheap_blocks:
  "g_heap_ready demo_kheap" "g_blocks demo_kheap = 0x3000"
  "kh_hdr demo_kheap 0x3000 = hb_zero\<lparr>hb_magic := KHEAP_MAGIC, hb_size := 0x1d0, hb_free := True\<rparr>"
  by (simp_all add: demo_kheap_def kheap_init_def Let_def align_up_def KHEAP_ALIGN_def append_block_def hb_upd_def hb_zero_def)

lemma demo_kheap_in: "0x3000 \<in> blocks demo_kheap" "hb_free (kh_hdr demo_kheap 0x3000)"
  using heap_inv_empty(1,3) [OF demo_kheap_inv(1,2)] by simp_all

lemma demo_kmalloc: "map_option fst (kmalloc 100 demo_kheap) = Some 0x3030"
proof -
  have "align_up 100 KHEAP_ALIGN = 112" by (simp add: align_up_def KHEAP_ALIGN_def)
  moreover have "find_fit (kh_hdr demo_kheap) 112 0x3000 = Some 0x3000"
    by (subst find_fit.simps) (simp add: demo_kheap_blocks)
  ultimately show ?thesis by (simp add: kmalloc_def demo_kheap_blocks)
qed

section \<open>Properties\<close>

text \<open>
  (C31) \<^verbatim>\<open>kmalloc\<close> always returns.  A null result changes nothing and means that no free block of the
  arena is large enough and that the frame allocator has no run of pages for the request; any
  other result is an aligned region of at least the size asked for that was not in use, apart
  from every block in use, whose sizes and bytes are kept.
\<close>

theorem kmalloc_spec:
  assumes "heap_inv base limit s" and "0 < n" and "n \<le> KMALLOC_MAX"
  shows "\<exists>p t. kmalloc n s = Some (p, t) \<and>
    (if p = 0
     then t = s \<and>
       (\<forall>b \<in> blocks s. hb_free (kh_hdr s b) \<longrightarrow> hb_size (kh_hdr s b) < align_up n KHEAP_ALIGN) \<and>
       (let pages = (align_up n KHEAP_ALIGN + header_size + PAGE_SIZE - 1) div PAGE_SIZE
        in \<forall>f \<ge> 1. f + pages \<le> g_frame_limit (kh_pmm s) \<longrightarrow> \<not> run_free (kh_pmm s) f pages)
     else heap_inv base limit t \<and> p mod KHEAP_ALIGN = 0 \<and> header_size \<le> p \<and>
       live t = insert (p - header_size) (live s) \<and> p - header_size \<notin> live s \<and>
       n \<le> hb_size (kh_hdr t (p - header_size)) \<and> kh_mem t = kh_mem s \<and>
       (\<forall>c \<in> live s. hb_size (kh_hdr t c) = hb_size (kh_hdr s c) \<and> {p..<p + n} \<inter> block_span t c = {}))"
  using assms
proof (cases rule: kmalloc_cases)
  case null
  have "(align_up n KHEAP_ALIGN + header_size + PAGE_SIZE - 1) div PAGE_SIZE =
      (align_up n KHEAP_ALIGN + 48 + 4095) div PAGE_SIZE" by (simp add: PAGE_SIZE_def)
  with null show ?thesis by (intro exI [of _ 0] exI [of _ s]) (auto simp: Let_def)
next
  case (ok b t)
  have sz: "hb_size (kh_hdr t c) = hb_size (kh_hdr s c)" if "c \<in> live s" for c
    using ok(2) that by (auto simp: allocated_def dest: bodyD)
  have "{b + 48..<b + 48 + n} \<inter> block_span t c = {}" if "c \<in> live s" for c
  proof -
    have "block_span t b \<inter> block_span t c = {}"
      using ok(2) that by (intro heap_inv_disjoint [of base limit]) (auto simp: allocated_def live_def)
    moreover have "{b + 48..<b + 48 + n} \<subseteq> block_span t b" using ok(2) by (auto simp: allocated_def block_span_def)
    ultimately show ?thesis by blast
  qed
  with ok sz show ?thesis
    by (intro exI [of _ "b + 48"] exI [of _ t]) (auto simp: allocated_def KHEAP_ALIGN_def)
qed

theorem kmalloc_spec_witness:
  "\<exists>t. kmalloc 100 demo_kheap = Some (0x3030, t) \<and> heap_inv 0x3000 0x3200 t \<and> live t = {0x3000} \<and>
     100 \<le> hb_size (kh_hdr t 0x3000)"
proof -
  obtain t where "kmalloc 100 demo_kheap = Some (0x3030, t)" using demo_kmalloc by auto
  with kmalloc_spec [OF demo_kheap_inv(1), of 100] demo_kheap_inv(2) show ?thesis
    by (auto simp: KMALLOC_MAX_def)
qed

text \<open>
  (C32) \<^verbatim>\<open>krealloc\<close> of a block in use returns.  It fails, changing nothing, only by a null result;
  otherwise the block it returns has the requested size and begins with the bytes of the old
  one, the old one is no longer in use unless it is the result, and every other block keeps its
  bytes.
\<close>

theorem krealloc_spec:
  assumes inv: "heap_inv base limit s" and b: "b \<in> live s" and "0 < n" "n \<le> KMALLOC_MAX"
  shows "\<exists>q t. krealloc (b + header_size) n s = Some (q, t) \<and> heap_inv base limit t \<and>
    (if q = 0 then t = s
     else live t = insert (q - header_size) (live s - {b}) \<and> n \<le> hb_size (kh_hdr t (q - header_size)) \<and>
       (let k = min (hb_size (kh_hdr s b)) n in mem_get (kh_mem t) q k = take k (block_bytes s b))) \<and>
    (\<forall>c \<in> live s - {b}. block_bytes t c = block_bytes s c)"
  using assms
proof (cases rule: krealloc_cases)
  case stay
  with inv b show ?thesis
    by (intro exI [of _ "b + 48"] exI [of _ s]) (auto simp: Let_def block_bytes_def mem_get_def take_map)
next
  case null
  with inv show ?thesis by (intro exI [of _ 0] exI [of _ s]) simp
next
  case (move c t u)
  let ?t = "t\<lparr>kh_mem := mem_set (c + 48) (block_bytes s b) (kh_mem s)\<rparr>"
  have t: "heap_inv base limit t" "live t = insert c (live s)" "c \<notin> live s" "n \<le> hb_size (kh_hdr t c)"
      "kh_mem t = kh_mem s" "\<And>d. d \<in> live s \<Longrightarrow> body (kh_hdr t d) = body (kh_hdr s d)"
    using move(2) by (auto simp: allocated_def)
  have u: "heap_inv base limit u" "live u = insert c (live s - {b})" "kh_mem u = kh_mem ?t"
      "\<And>d. d \<in> live u \<Longrightarrow> body (kh_hdr u d) = body (kh_hdr t d)"
    using move(3,5) t(2) by (auto simp: freed_def)
  have "hb_size (kh_hdr u c) = hb_size (kh_hdr t c)" using u(2,4) by (auto dest: bodyD)
  then have "n \<le> hb_size (kh_hdr u c)" using t(4) by simp
  moreover have "mem_get (kh_mem u) (c + 48) (length (block_bytes s b)) = block_bytes s b"
    unfolding u(3) by (simp add: mem_get_set)
  moreover have "block_bytes u d = block_bytes s d" if "d \<in> live s - {b}" for d
  proof -
    have "block_bytes u d = block_bytes ?t d"
      by (rule block_bytes_body) (use u(2,3,4) that in auto)
    also have "block_bytes ?t d = block_bytes t d"
      unfolding t(5) [symmetric] by (rule block_bytes_kept [OF t(1)]) (use t(2,3,4) that move(4) in auto)
    also have "block_bytes t d = block_bytes s d" by (rule block_bytes_body) (use t(5,6) that in auto)
    finally show ?thesis .
  qed
  moreover have "hb_size (kh_hdr s b) = length (block_bytes s b)" by (simp add: block_bytes_def mem_get_def)
  ultimately show ?thesis
    using move(1,4) u(1,2) by (intro exI [of _ "c + 48"] exI [of _ u]) (simp add: Let_def)
qed

theorem krealloc_spec_witness:
  "\<exists>s q t. kmalloc 100 demo_kheap = Some (0x3030, s) \<and> krealloc 0x3030 200 s = Some (q, t) \<and>
     heap_inv 0x3000 0x3200 t"
proof -
  obtain s where s: "kmalloc 100 demo_kheap = Some (0x3030, s)" using demo_kmalloc by auto
  have "heap_inv 0x3000 0x3200 s \<and> 0x3000 \<in> live s"
    using demo_kheap_inv(1) by (cases rule: kmalloc_cases [where n = 100])
      (use s in \<open>auto simp: KMALLOC_MAX_def allocated_def\<close>)
  with krealloc_spec [of "0x3000" "0x3200" s "0x3000" 200] s show ?thesis by (auto simp: KMALLOC_MAX_def)
qed

text \<open>
  (C30) For every sequence of calls and stores after initialisation with an arena
  \<open>[start, start + sz)\<close>: the blocks in use are pairwise apart and aligned, and no frame is lost
  (those the frame allocator had free are free or hold page blocks in use).  Once every block has been
  freed, all these frames are free again and the arena is one free block.
\<close>

theorem kheap_sequence_safe:
  assumes "pmm_inv (kh_pmm s0)" and "0 < start" "64 < sz" "start + sz < 2 ^ 64"
    and "\<forall>a \<in> {start..<start + sz}. frame_is_used (kh_pmm s0) (a div PAGE_SIZE)"
    and steps: "kheap_step\<^sup>*\<^sup>* (kheap_init start sz s0) s"
  shows "(\<forall>b \<in> live s. \<forall>c \<in> live s. b \<noteq> c \<longrightarrow> block_span s b \<inter> block_span s c = {}) \<and>
    (\<forall>b \<in> live s. b mod KHEAP_ALIGN = 0) \<and> heap_frames s = free_frames (kh_pmm s0) \<and>
    (live s = {} \<longrightarrow> free_frames (kh_pmm s) = free_frames (kh_pmm s0) \<and>
      (let b = align_up start KHEAP_ALIGN
       in blocks s = {b} \<and> hb_free (kh_hdr s b) \<and> b + header_size + hb_size (kh_hdr s b) = start + sz))"
proof -
  define base where "base = align_up start KHEAP_ALIGN"
  note init = kheap_init_arena [OF assms(1-4) _ base_def refl]
  have "heap_good base (start + sz) (free_frames (kh_pmm s0)) (kheap_init start sz s0)"
    using init assms(5) by (simp add: heap_good_def heap_frames_def)
  from heap_good_steps [OF steps this]
  have inv: "heap_inv base (start + sz) s" and fr: "heap_frames s = free_frames (kh_pmm s0)"
    by (simp_all add: heap_good_def)
  have "base \<noteq> start + sz" using assms(2-4) by (auto simp: base_def align_up_def KHEAP_ALIGN_def)
  then have "live s = {} \<Longrightarrow> free_frames (kh_pmm s) = free_frames (kh_pmm s0) \<and> blocks s = {base} \<and>
      hb_free (kh_hdr s base) \<and> base + header_size + hb_size (kh_hdr s base) = start + sz"
    using heap_inv_empty [OF inv] fr by simp
  moreover have "\<forall>b \<in> live s. \<forall>c \<in> live s. b \<noteq> c \<longrightarrow> block_span s b \<inter> block_span s c = {}"
    using heap_inv_disjoint [OF inv] by (simp add: live_def)
  moreover have "\<forall>b \<in> live s. b mod KHEAP_ALIGN = 0"
    using heap_inv_aligned [OF inv] by (simp add: live_def KHEAP_ALIGN_def)
  ultimately show ?thesis using fr unfolding Let_def base_def [symmetric] by blast
qed

theorem kheap_sequence_safe_witness:
  "\<exists>s. kheap_step\<^sup>*\<^sup>* demo_kheap s \<and> live s = {} \<and> blocks s = {0x3000} \<and>
     free_frames (kh_pmm s) = free_frames (pmm_init 0x5000 0x5001 pmm_witness_map)"
proof -
  obtain s where s: "kmalloc 100 demo_kheap = Some (0x3030, s)" using demo_kmalloc by auto
  have al: "allocated 0x3000 0x3200 demo_kheap s 0x3000 100"
    using demo_kheap_inv(1) by (cases rule: kmalloc_cases [where n = 100])
      (use s in \<open>auto simp: KMALLOC_MAX_def\<close>)
  then have l: "heap_inv 0x3000 0x3200 s" "0x3000 \<in> live s" "live s = {0x3000}"
    by (simp_all add: allocated_def demo_kheap_inv(2))
  have "kheap_step demo_kheap s" by (rule step_malloc [OF _ s]) (simp add: KMALLOC_MAX_def)
  moreover have "kheap_step s (kfree 0x3030 s)" by (rule step_free) (simp add: l(3))
  ultimately have steps: "kheap_step\<^sup>*\<^sup>* demo_kheap (kfree 0x3030 s)" by auto
  have "live (kfree 0x3030 s) = {}" using kfree_live [OF l(1,2)] l(3) by (simp add: freed_def)
  moreover have "\<forall>a \<in> {0x3000..<0x3000 + 0x200}. frame_is_used (pmm_init 0x5000 0x5001 pmm_witness_map) (a div PAGE_SIZE)"
    using demo_arena_used by simp
  ultimately show ?thesis
    using steps kheap_sequence_safe [OF _ _ _ _ _ steps [unfolded demo_kheap_def]] pmm_inv_init
    by (intro exI [of _ "kfree 0x3030 s"]) (simp add: Let_def align_up_def KHEAP_ALIGN_def)
qed

text \<open>
  (C33) The rounding of a size wraps around: a request of more than \<open>2^64 - 16\<close> bytes is rounded up to 0, so
  that whenever the arena has any free block the call succeeds, with a block smaller than the
  request.
\<close>

theorem kmalloc_size_wraps:
  assumes inv: "heap_inv base limit s" and b: "b \<in> blocks s" "hb_free (kh_hdr s b)"
    and n: "2 ^ 64 - 16 < n" "n < 2 ^ 64"
  shows "\<exists>p t. kmalloc n s = Some (p, t) \<and> p \<noteq> 0 \<and> p - header_size \<in> live t \<and>
    hb_size (kh_hdr t (p - header_size)) < n"
proof -
  have w: "align_up n KHEAP_ALIGN = 0"
    using n by (simp add: align_up_def KHEAP_ALIGN_def add64_def mod_if)
  obtain ps bs where lay: "heap_lay base limit ps bs s" and cp: "compact (fre s) bs"
    using inv by (auto simp: heap_inv_def)
  have "align_up n KHEAP_ALIGN mod 16 = 0" "n \<noteq> 0"
    "\<exists>b \<in> set ps \<union> set bs. hb_free (kh_hdr s b) \<and> align_up n KHEAP_ALIGN \<le> hb_size (kh_hdr s b)"
    using b n(1) w unfolding blocks_lay [OF lay] by auto
  from kmalloc_fit [OF lay cp this, unfolded w]
  obtain c t where km: "kmalloc n s = Some (c + 48, t)" "allocated base limit s t c 0" by blast
  then have "heap_inv base limit t" "c \<in> live t" by (simp_all add: allocated_def)
  with block_end [of base limit t c] n(1) have "hb_size (kh_hdr t c) < n" by (simp add: live_def)
  with km \<open>c \<in> live t\<close> show ?thesis by (intro exI [of _ "c + 48"] exI [of _ t]) simp
qed

theorem kmalloc_size_wraps_witness:
  "\<exists>p t. kmalloc (2 ^ 64 - 1) demo_kheap = Some (p, t) \<and> p \<noteq> 0 \<and> hb_size (kh_hdr t (p - header_size)) < 2 ^ 64 - 1"
  using kmalloc_size_wraps [OF demo_kheap_inv(1), of "0x3000" "2 ^ 64 - 1"] demo_kheap_in by auto

end
