(* ===== verification/VfsPath.thy ===== *)
theory VfsPath
  imports Prelude
begin

text \<open>
  Paths of \<^verbatim>\<open>src/fs/vfs.c\<close>: normalisation in place and the resolution of a path against a working
  directory.  A buffer is a character list that contains a NUL; its string ends before the
  first one.
\<close>

section \<open>Buffers\<close>

definition NUL :: char where "NUL = CHR 0x00"

definition char_at :: "string \<Rightarrow> nat \<Rightarrow> char" where
  "char_at buf i = (if i < length buf then buf ! i else NUL)"

definition cstr :: "string \<Rightarrow> string" where
  "cstr buf = takeWhile (\<lambda>c. c \<noteq> NUL) buf"

text \<open>\<open>memmove\<close> inside one buffer.\<close>

definition buf_move :: "string \<Rightarrow> nat \<Rightarrow> nat \<Rightarrow> nat \<Rightarrow> string" where
  "buf_move buf dst src n =
    map (\<lambda>i. if dst \<le> i \<and> i < dst + n then char_at buf (src + (i - dst)) else buf ! i) [0..<length buf]"

lemma length_buf_move [simp]: "length (buf_move buf dst src n) = length buf"
  by (simp add: buf_move_def)

section \<open>Normalisation\<close>

function skip_slashes :: "string \<Rightarrow> nat \<Rightarrow> nat" where
  "skip_slashes path cursor =
    (if char_at path cursor = CHR ''/'' then skip_slashes path (cursor + 1) else cursor)"
  by pat_completeness auto
termination
  by (relation "measure (\<lambda>(path, cursor). length path - cursor)")
    (auto simp: char_at_def NUL_def split: if_splits)

function skip_name :: "string \<Rightarrow> nat \<Rightarrow> nat" where
  "skip_name path cursor =
    (if char_at path cursor \<noteq> NUL \<and> char_at path cursor \<noteq> CHR ''/''
     then skip_name path (cursor + 1) else cursor)"
  by pat_completeness auto
termination
  by (relation "measure (\<lambda>(path, cursor). length path - cursor)") (auto simp: char_at_def split: if_splits)

declare skip_slashes.simps [simp del] skip_name.simps [simp del]

text \<open>The loop that drops the last component: back to a slash, but not past the first character.\<close>

fun back_to_slash :: "string \<Rightarrow> nat \<Rightarrow> nat" where
  "back_to_slash path len =
    (if len > 1 \<and> char_at path (len - 1) \<noteq> CHR ''/'' then back_to_slash path (len - 1) else len)"

declare back_to_slash.simps [simp del]

definition drop_part :: "string \<Rightarrow> nat \<Rightarrow> nat" where
  "drop_part path len =
    (let n = back_to_slash path len in if n > 1 then n - 1 else n)"

definition put_part :: "string \<Rightarrow> nat \<Rightarrow> nat \<Rightarrow> nat \<Rightarrow> string \<times> nat" where
  "put_part path len start part =
    (let (path1, len1) = (if len > 1 then (path[len := CHR ''/''], len + 1) else (path, len))
     in (buf_move path1 len1 start part, len1 + part))"

lemma length_put_part [simp]: "length (fst (put_part path len start part)) = length path"
  by (simp add: put_part_def)

lemma skip_slashes_ge: "cursor \<le> skip_slashes path cursor"
  by (induction path cursor rule: skip_slashes.induct) (subst skip_slashes.simps, auto simp: Suc_le_eq)

lemma skip_name_ge: "cursor \<le> skip_name path cursor"
  by (induction path cursor rule: skip_name.induct) (subst skip_name.simps, auto simp: Suc_le_eq)

lemma skip_slashes_stop: "char_at path (skip_slashes path cursor) \<noteq> CHR ''/''"
  by (induction path cursor rule: skip_slashes.induct) (subst skip_slashes.simps, simp)

lemma skip_name_stop: "char_at path (skip_name path cursor) = NUL \<or> char_at path (skip_name path cursor) = CHR ''/''"
  by (induction path cursor rule: skip_name.induct) (subst (1 2) skip_name.simps, auto)

lemma skip_name_gt:
  assumes "char_at path cursor \<noteq> NUL" "char_at path cursor \<noteq> CHR ''/''"
  shows "cursor < skip_name path cursor"
  using assms skip_name_ge [of "cursor + 1" path] by (subst skip_name.simps) simp

lemma normalize_progress:
  assumes "char_at path cursor \<noteq> NUL" and "char_at path (skip_slashes path cursor) \<noteq> NUL"
  shows "length path - skip_name path (skip_slashes path cursor) < length path - cursor"
proof -
  have "cursor < length path" using assms(1) by (auto simp: char_at_def split: if_splits)
  moreover have "cursor < skip_name path (skip_slashes path cursor)"
    using skip_name_gt [OF assms(2) skip_slashes_stop] skip_slashes_ge [of cursor path] by linarith
  ultimately show ?thesis by linarith
qed

function normalize_loop :: "string \<Rightarrow> nat \<Rightarrow> nat \<Rightarrow> string \<times> nat" where
  "normalize_loop path len cursor =
    (if char_at path cursor = NUL then (path, len)
     else let start = skip_slashes path cursor
          in if char_at path start = NUL then (path, len)
             else let next = skip_name path start; part = next - start
                  in if part = 1 \<and> char_at path start = CHR ''.'' then normalize_loop path len next
                     else if part = 2 \<and> char_at path start = CHR ''.'' \<and> char_at path (start + 1) = CHR ''.''
                     then normalize_loop path (drop_part path len) next
                     else normalize_loop (fst (put_part path len start part)) (snd (put_part path len start part)) next)"
  by pat_completeness auto
termination
  by (relation "measure (\<lambda>(path, len, cursor). length path - cursor)") (auto intro!: normalize_progress)

declare normalize_loop.simps [simp del]

definition vfs_normalize_path :: "string \<Rightarrow> string res" where
  "vfs_normalize_path path =
    (if char_at path 0 \<noteq> CHR ''/'' then Inl EINVAL
     else let (path1, len) = normalize_loop path 1 1 in Inr (path1[len := NUL]))"

text \<open>
  \<open>out\<close> has \<open>capacity\<close> bytes, of which those not written are kept; a missing working
  directory is \<open>None\<close>.
\<close>

definition vfs_resolve_path :: "string option \<Rightarrow> string \<Rightarrow> string \<Rightarrow> string res" where
  "vfs_resolve_path cwd path out =
    (if length out = 0 then Inl EINVAL
     else if path = [] then Inl ENOENT
     else let cwd1 = (case cwd of Some d \<Rightarrow> if char_at d 0 \<noteq> CHR ''/'' then ''/'' else d | None \<Rightarrow> ''/'');
              pre = (if hd path \<noteq> CHR ''/'' then (if length cwd1 > 1 then cwd1 @ ''/'' else cwd1) else [])
          in if hd path \<noteq> CHR ''/'' \<and> length cwd1 + 1 \<ge> length out then Inl ENAMETOOLONG
             else if length pre + length path \<ge> length out then Inl ENAMETOOLONG
             else vfs_normalize_path (pre @ path @ [NUL] @ drop (length pre + length path + 1) out))"

section \<open>Specification\<close>

lemma dropWhile_shorter:
  assumes "dropWhile P s \<noteq> []" and "\<And>c. \<not> P c \<Longrightarrow> Q c"
  shows "length (dropWhile Q (dropWhile P s)) < length s"
proof -
  obtain c r where r: "dropWhile P s = c # r" using assms(1) by (cases "dropWhile P s") auto
  then have "\<not> P c" using hd_dropWhile [of P s] by auto
  then have "dropWhile Q (dropWhile P s) = dropWhile Q r" using r assms(2) by simp
  moreover have "length (dropWhile Q r) \<le> length r" by (rule length_dropWhile_le)
  moreover have "length (dropWhile P s) \<le> length s" by (rule length_dropWhile_le)
  ultimately show ?thesis using r by simp
qed

text \<open>The components of a path, the effect of one on the list of those before it, and the path of a list.\<close>

function path_parts :: "string \<Rightarrow> string list" where
  "path_parts s =
    (let r = dropWhile (\<lambda>c. c = CHR ''/'') s
     in if r = [] then []
        else takeWhile (\<lambda>c. c \<noteq> CHR ''/'') r # path_parts (dropWhile (\<lambda>c. c \<noteq> CHR ''/'') r))"
  by pat_completeness auto
termination
  by (relation "measure length") (auto intro!: dropWhile_shorter)

declare path_parts.simps [simp del]

definition part_step :: "string list \<Rightarrow> string \<Rightarrow> string list" where
  "part_step st c = (if c = ''.'' then st else if c = ''..'' then butlast st else st @ [c])"

definition path_of :: "string list \<Rightarrow> string" where
  "path_of st = (if st = [] then ''/'' else concat (map (\<lambda>c. CHR ''/'' # c) st))"

definition norm_path :: "string \<Rightarrow> string" where
  "norm_path s = path_of (foldl part_step [] (path_parts s))"

definition proper_part :: "string \<Rightarrow> bool" where
  "proper_part c \<longleftrightarrow> c \<noteq> [] \<and> c \<noteq> ''.'' \<and> c \<noteq> ''..'' \<and> CHR ''/'' \<notin> set c \<and> NUL \<notin> set c"

section \<open>The loop computes the specification\<close>

text \<open>The string from a position on.\<close>

abbreviation rest :: "string \<Rightarrow> nat \<Rightarrow> string" where
  "rest path i \<equiv> cstr (drop i path)"

lemma rest_char: "rest path i = (if char_at path i = NUL then [] else char_at path i # rest path (i + 1))"
proof (cases "i < length path")
  case True
  then have "drop i path = path ! i # drop (i + 1) path" by (simp add: Cons_nth_drop_Suc)
  with True show ?thesis by (simp add: cstr_def char_at_def)
qed (simp add: cstr_def char_at_def)

lemma rest_NUL: "char_at path i = NUL \<Longrightarrow> rest path i = []"
  by (subst rest_char) simp

lemma rest_Cons: "char_at path i \<noteq> NUL \<Longrightarrow> rest path i = char_at path i # rest path (i + 1)"
  by (subst rest_char) simp

lemma drop_char: "char_at path i \<noteq> NUL \<Longrightarrow> drop i path = char_at path i # drop (i + 1) path"
  by (auto simp: char_at_def Cons_nth_drop_Suc split: if_splits)

lemma rest_skip_slashes: "rest path (skip_slashes path i) = dropWhile (\<lambda>c. c = CHR ''/'') (rest path i)"
proof (induction path i rule: skip_slashes.induct)
  case (1 path i)
  show ?case
  proof (cases "char_at path i = CHR ''/''")
    case True
    then have "char_at path i \<noteq> NUL" by (simp add: NUL_def)
    with 1 [OF True] True rest_Cons [of path i] show ?thesis by (subst skip_slashes.simps) simp
  next
    case False
    then show ?thesis
      using rest_NUL [of path i] rest_Cons [of path i] by (subst skip_slashes.simps) (cases "char_at path i = NUL"; simp)
  qed
qed

lemma rest_skip_name:
  "rest path (skip_name path i) = dropWhile (\<lambda>c. c \<noteq> CHR ''/'') (rest path i) \<and>
   take (skip_name path i - i) (drop i path) = takeWhile (\<lambda>c. c \<noteq> CHR ''/'') (rest path i)"
proof (induction path i rule: skip_name.induct)
  case (1 path i)
  show ?case
  proof (cases "char_at path i \<noteq> NUL \<and> char_at path i \<noteq> CHR ''/''")
    case True
    have s: "skip_name path i = skip_name path (i + 1)" using True by (subst skip_name.simps) simp
    have n: "skip_name path (i + 1) - i = Suc (skip_name path (i + 1) - (i + 1))"
      using skip_name_ge [of "i + 1" path] by simp
    have "take (skip_name path i - i) (drop i path) =
        char_at path i # take (skip_name path (i + 1) - (i + 1)) (drop (i + 1) path)"
      unfolding s n using drop_char [of path i] True by simp
    with 1 [OF True] True rest_Cons [of path i] show ?thesis by (simp add: s)
  next
    case False
    then have "skip_name path i = i" by (subst skip_name.simps) auto
    with False rest_NUL [of path i] rest_Cons [of path i] show ?thesis
      by (cases "char_at path i = NUL") auto
  qed
qed

lemma buf_move_spec:
  assumes "dst \<le> src" and "src + n \<le> length buf"
  shows "take (dst + n) (buf_move buf dst src n) = take dst buf @ take n (drop src buf)"
    and "drop (dst + n) (buf_move buf dst src n) = drop (dst + n) buf"
proof -
  have len: "dst + n \<le> length buf" using assms by simp
  have "take (dst + n) (buf_move buf dst src n) ! i = (take dst buf @ take n (drop src buf)) ! i" if "i < dst + n" for i
    using that assms len by (auto simp: buf_move_def char_at_def nth_append)
  then show "take (dst + n) (buf_move buf dst src n) = take dst buf @ take n (drop src buf)"
    using assms len by (intro nth_equalityI) simp_all
  show "drop (dst + n) (buf_move buf dst src n) = drop (dst + n) buf"
    by (intro nth_equalityI) (auto simp: buf_move_def)
qed

lemma put_part_spec:
  assumes "len \<le> start" and "len > 1 \<Longrightarrow> len < start" and "start + part \<le> length path"
  shows "take (snd (put_part path len start part)) (fst (put_part path len start part)) =
      take len path @ (if len > 1 then ''/'' else []) @ take part (drop start path)"
    and "snd (put_part path len start part) = (if len > 1 then len + 1 else len) + part"
    and "drop (start + part) (fst (put_part path len start part)) = drop (start + part) path"
proof -
  define path1 where "path1 = (if len > 1 then path[len := CHR ''/''] else path)"
  define len1 where "len1 = (if len > 1 then len + 1 else len)"
  have eq: "put_part path len start part = (buf_move path1 len1 start part, len1 + part)"
    by (simp add: put_part_def path1_def len1_def)
  have len1: "len1 \<le> start" "start + part \<le> length path1" "len < length path \<or> len \<le> 1"
    using assms by (auto simp: len1_def path1_def)
  have "take len1 path1 = take len path @ (if len > 1 then ''/'' else [])"
    using len1(3) by (auto simp: len1_def path1_def take_Suc_conv_app_nth)
  moreover have d: "drop start path1 = drop start path" using len1(1) by (auto simp: path1_def len1_def)
  ultimately show "take (snd (put_part path len start part)) (fst (put_part path len start part)) =
      take len path @ (if len > 1 then ''/'' else []) @ take part (drop start path)"
    unfolding eq using buf_move_spec(1) [OF len1(1,2)] by simp
  show "snd (put_part path len start part) = (if len > 1 then len + 1 else len) + part"
    unfolding eq by (simp add: len1_def)
  have "drop (start + part) (buf_move path1 len1 start part) =
      drop (start - len1) (drop (len1 + part) (buf_move path1 len1 start part))" using len1(1) by simp
  also have "\<dots> = drop part (drop start path1)" unfolding buf_move_spec(2) [OF len1(1,2)] using len1(1) by (simp add: add.commute)
  finally show "drop (start + part) (fst (put_part path len start part)) = drop (start + part) path"
    unfolding eq d by (simp add: add.commute)
qed

lemma back_to_slash_spec:
  assumes "take (k + Suc (length c)) path = take k path @ CHR ''/'' # c" and "CHR ''/'' \<notin> set c"
    and "k + Suc (length c) \<le> length path"
  shows "back_to_slash path (k + Suc (length c)) = k + 1"
  using assms
proof (induction c rule: rev_induct)
  case Nil
  then have "char_at path k = CHR ''/''" by (simp add: char_at_def take_Suc_conv_app_nth)
  then show ?case by (subst back_to_slash.simps) simp
next
  case (snoc x c)
  let ?n = "k + Suc (length c)"
  have t: "take ?n path @ [path ! ?n] = (take k path @ CHR ''/'' # c) @ [x]"
    using snoc.prems(1,3) by (simp add: take_Suc_conv_app_nth)
  then have "path ! ?n = x" "take ?n path = take k path @ CHR ''/'' # c" by (simp_all only: append1_eq_conv)
  moreover have "x \<noteq> CHR ''/''" "CHR ''/'' \<notin> set c" using snoc.prems(2) by auto
  moreover have "back_to_slash path (k + Suc (length (c @ [x]))) = back_to_slash path ?n"
    using calculation snoc.prems(3) by (subst back_to_slash.simps) (simp add: char_at_def)
  ultimately show ?case using snoc by simp
qed

text \<open>A list of components as the loop keeps it: none is empty, a dot, or contains a separator.\<close>

lemma path_of_snoc: "path_of (st @ [c]) = (if st = [] then ''/'' else path_of st @ ''/'') @ c"
  by (simp add: path_of_def)

lemma path_of_length: "list_all proper_part st \<Longrightarrow> (1 < length (path_of st)) = (st \<noteq> []) \<and> 1 \<le> length (path_of st)"
  by (cases st rule: rev_cases) (auto simp: path_of_def proper_part_def)

lemma drop_part_spec:
  assumes "take len path = path_of st" "len = length (path_of st)" "list_all proper_part st" "len \<le> length path"
  shows "drop_part path len = length (path_of (butlast st)) \<and>
    take (drop_part path len) path = path_of (butlast st)"
proof (cases st rule: rev_cases)
  case Nil
  then have "len = 1" using assms(2) by (simp add: path_of_def)
  then have "drop_part path len = 1" by (simp add: drop_part_def back_to_slash.simps)
  with Nil assms(1) \<open>len = 1\<close> show ?thesis by (simp add: path_of_def)
next
  case (snoc us c)
  have c: "CHR ''/'' \<notin> set c" using assms(3) snoc by (simp add: proper_part_def)
  define k where "k = (if us = [] then 0 else length (path_of us))"
  have len: "len = k + Suc (length c)" and p: "path_of st = take k (path_of st) @ CHR ''/'' # c"
    using assms(2) snoc by (auto simp: path_of_snoc k_def)
  have tk: "take k path = take k (path_of st)" unfolding assms(1) [symmetric] len by simp
  have "back_to_slash path len = k + 1"
    using assms(1,4) c p tk unfolding len by (intro back_to_slash_spec) simp_all
  moreover have "k \<noteq> 0 \<longleftrightarrow> us \<noteq> []" using path_of_length [of us] assms(3) snoc by (auto simp: k_def)
  moreover have "us \<noteq> [] \<Longrightarrow> take k path = path_of us" "us = [] \<Longrightarrow> take 1 path = ''/''"
  proof -
    show "us \<noteq> [] \<Longrightarrow> take k path = path_of us" unfolding tk snoc path_of_snoc by (simp add: k_def)
    assume "us = []"
    then have "take len path = CHR ''/'' # c" "1 \<le> len" using assms(1) len snoc by (simp_all add: path_of_def)
    then have "take 1 (take len path) = ''/''" by simp
    then show "take 1 path = ''/''" using \<open>1 \<le> len\<close> by (simp add: min_def)
  qed
  ultimately show ?thesis using snoc by (cases "us = []") (auto simp: drop_part_def path_of_def k_def)
qed

lemma part_step_proper:
  "list_all proper_part st \<Longrightarrow> c \<noteq> [] \<Longrightarrow> CHR ''/'' \<notin> set c \<Longrightarrow> NUL \<notin> set c \<Longrightarrow> list_all proper_part (part_step st c)"
  by (auto simp: part_step_def proper_part_def list_all_iff dest: in_set_butlastD)

lemma cstr_no_NUL: "NUL \<notin> set (cstr s)"
  by (auto simp: cstr_def dest: set_takeWhileD)

lemma char_at_take: "i < length (take n path) \<Longrightarrow> char_at path i = take n path ! i"
  by (simp add: char_at_def)

text \<open>
  The state of the loop: the output so far is the path of \<open>st\<close>, it ends before the cursor, and there
  is room for a separator.
\<close>

definition loop_ok :: "string \<Rightarrow> nat \<Rightarrow> nat \<Rightarrow> string list \<Rightarrow> bool" where
  "loop_ok path len cursor st \<longleftrightarrow>
    take len path = path_of st \<and> len = length (path_of st) \<and> list_all proper_part st \<and>
    len \<le> cursor \<and> cursor < length path \<and>
    (st \<noteq> [] \<longrightarrow> char_at path cursor = NUL \<or> char_at path cursor = CHR ''/'')"

lemma nul_skip:
  assumes "NUL \<in> set (drop i path)"
  shows "NUL \<in> set (drop (skip_slashes path i) path)" "NUL \<in> set (drop (skip_name path i) path)"
proof -
  have step: "NUL \<in> set (drop (i + 1) path)" if "char_at path i \<noteq> NUL" "NUL \<in> set (drop i path)" for i path
    using that drop_char [OF that(1)] by auto
  show "NUL \<in> set (drop (skip_slashes path i) path)" using assms
  proof (induction path i rule: skip_slashes.induct)
    case (1 path i)
    have "char_at path i = CHR ''/'' \<Longrightarrow> char_at path i \<noteq> NUL" by (simp add: NUL_def)
    with 1 step [of path i] show ?case by (subst skip_slashes.simps) auto
  qed
  show "NUL \<in> set (drop (skip_name path i) path)" using assms
  proof (induction path i rule: skip_name.induct)
    case (1 path i)
    with step [of path i] show ?case by (subst skip_name.simps) auto
  qed
qed

lemma rest_end:
  "skip_slashes path i + length (rest path (skip_slashes path i)) = i + length (rest path i)"
  "skip_name path i + length (rest path (skip_name path i)) = i + length (rest path i)"
proof -
  show "skip_slashes path i + length (rest path (skip_slashes path i)) = i + length (rest path i)"
  proof (induction path i rule: skip_slashes.induct)
    case (1 path i)
    have "char_at path i = CHR ''/'' \<Longrightarrow> char_at path i \<noteq> NUL" by (simp add: NUL_def)
    with 1 rest_Cons [of path i] show ?case by (subst (1 2) skip_slashes.simps) simp
  qed
  show "skip_name path i + length (rest path (skip_name path i)) = i + length (rest path i)"
  proof (induction path i rule: skip_name.induct)
    case (1 path i)
    with rest_Cons [of path i] show ?case by (subst (1 2) skip_name.simps) simp
  qed
qed

lemma path_of_butlast: "length (path_of (butlast st)) \<le> length (path_of st)"
  by (cases st rule: rev_cases) (auto simp: path_of_snoc path_of_def)

text \<open>What one pass of the loop reads: the component between \<open>start\<close> and the next cursor.\<close>

lemma next_part:
  assumes "char_at path cursor \<noteq> NUL" and "NUL \<in> set (drop cursor path)"
    and "start = skip_slashes path cursor" "char_at path start \<noteq> NUL" "next = skip_name path start"
    and "c = take (next - start) (drop start path)"
  shows "path_parts (rest path cursor) = c # path_parts (rest path next)"
    and "c \<noteq> []" "CHR ''/'' \<notin> set c" "NUL \<notin> set c" "length c = next - start" "start < next" "next < length path"
    and "c = ''.'' \<longleftrightarrow> next - start = 1 \<and> char_at path start = CHR ''.''"
    and "c = ''..'' \<longleftrightarrow> next - start = 2 \<and> char_at path start = CHR ''.'' \<and> char_at path (start + 1) = CHR ''.''"
    and "NUL \<in> set (drop next path)" "next + length (rest path next) = cursor + length (rest path cursor)"
proof -
  have rs: "rest path start = dropWhile (\<lambda>c. c = CHR ''/'') (rest path cursor)" "rest path start \<noteq> []"
    using rest_skip_slashes [of path cursor] rest_Cons [OF assms(4)] assms(3) by auto
  have c: "c = takeWhile (\<lambda>c. c \<noteq> CHR ''/'') (rest path start)"
    and rn: "rest path next = dropWhile (\<lambda>c. c \<noteq> CHR ''/'') (rest path start)"
    using rest_skip_name [of path start] assms(5,6) by auto
  show "path_parts (rest path cursor) = c # path_parts (rest path next)"
    unfolding c rn using rs by (subst path_parts.simps) (simp add: Let_def)
  show nn: "NUL \<in> set (drop next path)" using nul_skip [OF assms(2)] nul_skip(2) assms(3,5) by blast
  then show nl: "next < length path" by (metis drop_eq_Nil empty_iff list.set(1) not_le)
  show sn: "start < next" using skip_name_gt [OF assms(4)] skip_slashes_stop assms(3,5) by blast
  show len: "length c = next - start" using nl sn assms(6) by simp
  with sn show "c \<noteq> []" by auto
  show "CHR ''/'' \<notin> set c" unfolding c by (auto dest: set_takeWhileD)
  show "NUL \<notin> set c" unfolding c using cstr_no_NUL by (meson set_takeWhileD)
  have at: "c ! i = char_at path (start + i)" if "i < next - start" for i
  proof -
    have "start + i < length path" using that nl by simp
    with that assms(6) show ?thesis by (simp add: char_at_def)
  qed
  show "c = ''.'' \<longleftrightarrow> next - start = 1 \<and> char_at path start = CHR ''.''"
    using len at [of 0] by (auto simp: list_eq_iff_nth_eq)
  show "c = ''..'' \<longleftrightarrow> next - start = 2 \<and> char_at path start = CHR ''.'' \<and> char_at path (start + 1) = CHR ''.''"
    using len at [of 0] at [of 1] by (auto simp: list_eq_iff_nth_eq nth_Cons' less_2_cases_iff)
  show "next + length (rest path next) = cursor + length (rest path cursor)"
    using rest_end(1) [of path cursor] rest_end(2) [of path start] assms(3,5) by simp
qed

lemma loop_ok_put:
  assumes "loop_ok path len cursor st" and "char_at path cursor \<noteq> NUL" and "start = skip_slashes path cursor"
    and "start < next" "next < length path" "c = take (next - start) (drop start path)" "proper_part c"
    and "char_at path next = NUL \<or> char_at path next = CHR ''/''"
    and "put_part path len start (next - start) = (path2, len2)"
  shows "loop_ok path2 len2 next (st @ [c])" and "drop next path2 = drop next path" and "length path2 = length path"
proof -
  have ok: "take len path = path_of st" "len = length (path_of st)" "list_all proper_part st" "len \<le> cursor"
      "st \<noteq> [] \<Longrightarrow> char_at path cursor = CHR ''/''"
    using assms(1,2) by (auto simp: loop_ok_def)
  have st: "len > 1 \<longleftrightarrow> st \<noteq> []" using path_of_length [OF ok(3)] ok(2) by simp
  have "cursor \<le> start" using skip_slashes_ge assms(3) by blast
  moreover have "cursor < start" if "st \<noteq> []"
    using ok(5) [OF that] assms(3) skip_slashes_ge [of "cursor + 1" path] by (subst (asm) skip_slashes.simps) simp
  ultimately have b: "len \<le> start" "len > 1 \<Longrightarrow> len < start" using ok(4) st by auto
  have n: "start + (next - start) \<le> length path" "start + (next - start) = next" using assms(4,5) by auto
  note p = put_part_spec [OF b n(1), unfolded assms(9) fst_conv snd_conv n(2)]
  show len': "length path2 = length path" using length_put_part [of path len start "next - start"] by (simp add: assms(9))
  show d: "drop next path2 = drop next path" by (rule p(3))
  have p0: "path_of [] = ''/''" by (simp add: path_of_def)
  have lc: "length c = next - start" using assms(4-6) by simp
  have "take len2 path2 = path_of (st @ [c])"
    using p(1) st ok(1) p0 unfolding path_of_snoc assms(6) [symmetric] by (cases "st = []") simp_all
  moreover have l2: "len2 = length (path_of (st @ [c]))"
    using p(2) st ok(2) p0 lc unfolding path_of_snoc by (cases "st = []") simp_all
  moreover have "len2 \<le> next" using p(2) b assms(4) by (cases "len > 1") auto
  moreover have "char_at path2 next = char_at path next"
    using d len' assms(5) by (simp add: char_at_def) (metis Cons_nth_drop_Suc list.inject)
  ultimately show "loop_ok path2 len2 next (st @ [c])"
    using ok(3) assms(4,5,7,8) p(2) b len' unfolding loop_ok_def by auto
qed

lemma normalize_loop_spec:
  assumes "loop_ok path len cursor st" and "NUL \<in> set (drop cursor path)"
    and "normalize_loop path len cursor = (path', len')"
  shows "length path' = length path \<and> len' = length (path_of (foldl part_step st (path_parts (rest path cursor)))) \<and>
    take len' path' = path_of (foldl part_step st (path_parts (rest path cursor))) \<and>
    list_all proper_part (foldl part_step st (path_parts (rest path cursor))) \<and>
    len' \<le> cursor + length (rest path cursor)"
  using assms
proof (induction path len cursor arbitrary: st rule: normalize_loop.induct)
  case (1 path len cursor)
  define start where "start = skip_slashes path cursor"
  show ?case
  proof (cases "char_at path cursor = NUL \<or> char_at path start = NUL")
    case True
    then have "normalize_loop path len cursor = (path, len)"
      by (subst normalize_loop.simps) (auto simp: Let_def start_def)
    moreover have "path_parts (rest path cursor) = []"
      using True rest_NUL [of path cursor] rest_NUL [of path start] rest_skip_slashes [of path cursor]
      by (subst path_parts.simps) (auto simp: start_def Let_def)
    ultimately show ?thesis using "1.prems" by (auto simp: loop_ok_def)
  next
    case False
    then have nz: "char_at path cursor \<noteq> NUL" "char_at path start \<noteq> NUL" by auto
    define nxt where "nxt = skip_name path start"
    define c where "c = take (nxt - start) (drop start path)"
    note np = next_part [OF nz(1) "1.prems"(2) start_def nz(2) nxt_def c_def]
    have stop: "char_at path nxt = NUL \<or> char_at path nxt = CHR ''/''" unfolding nxt_def by (rule skip_name_stop)
    have ok: "loop_ok path len cursor st" by (rule "1.prems"(1))
    have le: "len \<le> nxt" using ok skip_slashes_ge [of cursor path] np(6) by (auto simp: loop_ok_def start_def)
    note eq = "1.prems"(3) [unfolded normalize_loop.simps [of path len cursor] Let_def if_not_P [OF nz(1)]
        start_def [symmetric] if_not_P [OF nz(2)] nxt_def [symmetric] np(8,9) [symmetric]]
    note IH = "1.IH" [OF nz(1) start_def nz(2) nxt_def refl, folded np(8,9)]
    show ?thesis
    proof (cases "c = ''.'' \<or> c = ''..''")
      case True
      define len1 where "len1 = (if c = ''.'' then len else drop_part path len)"
      define st1 where "st1 = (if c = ''.'' then st else butlast st)"
      have "loop_ok path len1 nxt st1"
      proof (cases "c = ''.''")
        case True
        with ok le np(7) stop show ?thesis by (auto simp: loop_ok_def len1_def st1_def)
      next
        case False
        have "drop_part path len = length (path_of (butlast st)) \<and> take (drop_part path len) path = path_of (butlast st)"
          using ok by (intro drop_part_spec) (auto simp: loop_ok_def)
        moreover have "list_all proper_part (butlast st)" using ok by (auto simp: loop_ok_def list_all_iff dest: in_set_butlastD)
        ultimately show ?thesis
          using False ok le np(7) stop path_of_butlast [of st] by (auto simp: loop_ok_def len1_def st1_def)
      qed
      moreover have "normalize_loop path len1 nxt = (path', len')" using eq True by (auto simp: len1_def)
      ultimately show ?thesis
        using IH(1,2) [of st1] True np(1,10,11) by (auto simp: part_step_def len1_def st1_def)
    next
      case False
      obtain path2 len2 where pp: "put_part path len start (nxt - start) = (path2, len2)" by fastforce
      have "proper_part c" using False np(2-4) by (simp add: proper_part_def)
      note ok2 = loop_ok_put [OF ok nz(1) start_def np(6,7) c_def this stop pp]
      have "normalize_loop path2 len2 nxt = (path', len')" using eq False by (simp add: pp)
      then show ?thesis
        using IH(3) [of "st @ [c]"] False np(1,10,11) ok2 pp by (auto simp: part_step_def)
    qed
  qed
qed

section \<open>Properties of the specification\<close>

lemma path_parts_slash: "path_parts (CHR ''/'' # s) = path_parts s"
  by (subst (1 2) path_parts.simps) simp

lemma path_parts_Nil: "path_parts [] = []"
  by (subst path_parts.simps) simp

lemma path_parts_slashes: "path_parts (dropWhile (\<lambda>c. c = CHR ''/'') s) = path_parts s"
  by (induction s) (simp_all add: path_parts_slash)

lemma path_parts_name:
  assumes "s \<noteq> []" and "hd s \<noteq> CHR ''/''"
  shows "path_parts s = takeWhile (\<lambda>c. c \<noteq> CHR ''/'') s # path_parts (dropWhile (\<lambda>c. c \<noteq> CHR ''/'') s)"
proof -
  have "dropWhile (\<lambda>c. c = CHR ''/'') s = s" using assms by (cases s) auto
  with assms(1) show ?thesis by (subst path_parts.simps) simp
qed

lemma path_parts_append: "path_parts (a @ CHR ''/'' # b) = path_parts a @ path_parts b"
proof (induction "length a" arbitrary: a rule: less_induct)
  case less
  consider "a = []" | a' where "a = CHR ''/'' # a'" | "a \<noteq> []" "hd a \<noteq> CHR ''/''" by (cases a) auto
  then show ?case
  proof cases
    case 1
    then show ?thesis by (simp add: path_parts_slash path_parts_Nil)
  next
    case 2
    with less [of a'] show ?thesis by (simp add: path_parts_slash)
  next
    case 3
    let ?d = "dropWhile (\<lambda>c. c \<noteq> CHR ''/'')" and ?t = "takeWhile (\<lambda>c. c \<noteq> CHR ''/'')"
    have "length (?d a) < length a" using 3 length_dropWhile_le [of _ "tl a"] by (cases a) (auto simp: less_Suc_eq_le)
    note IH = less [OF this]
    have "path_parts (a @ CHR ''/'' # b) = ?t (a @ CHR ''/'' # b) # path_parts (?d (a @ CHR ''/'' # b))"
      using 3 by (intro path_parts_name) auto
    also have "?t (a @ CHR ''/'' # b) = ?t a" by (induction a) auto
    also have "?d (a @ CHR ''/'' # b) = ?d a @ CHR ''/'' # b" by (auto simp: dropWhile_append)
    finally show ?thesis using IH path_parts_name [OF 3] by simp
  qed
qed

lemma path_parts_single:
  assumes "proper_part c"
  shows "path_parts c = [c]"
proof -
  have c: "\<forall>x \<in> set c. x \<noteq> CHR ''/''" "c \<noteq> []" using assms by (auto simp: proper_part_def)
  then have e: "takeWhile (\<lambda>c. c \<noteq> CHR ''/'') c = c" "dropWhile (\<lambda>c. c \<noteq> CHR ''/'') c = []" by auto
  have "hd c \<noteq> CHR ''/''" using c by (cases c) auto
  from path_parts_name [OF c(2) this] show ?thesis unfolding e path_parts_Nil .
qed

lemma path_parts_path_of: "list_all proper_part st \<Longrightarrow> path_parts (path_of st) = st"
proof (induction st rule: rev_induct)
  case Nil
  show ?case by (simp add: path_of_def path_parts_slash path_parts_Nil)
next
  case (snoc c st)
  then have "path_parts c = [c]" "path_parts (path_of st) = st" by (auto intro: path_parts_single)
  with path_parts_append [of "path_of st" c] path_parts_slash [of c] show ?case
    unfolding path_of_snoc by (cases "st = []") simp_all
qed

lemma foldl_proper: "list_all proper_part (st @ cs) \<Longrightarrow> foldl part_step st cs = st @ cs"
  by (induction cs arbitrary: st) (auto simp: part_step_def proper_part_def)

lemma norm_path_of: "list_all proper_part st \<Longrightarrow> norm_path (path_of st) = path_of st"
  using foldl_proper [of "[]" st] by (simp add: norm_path_def path_parts_path_of)

lemma path_of_no_NUL: "list_all proper_part st \<Longrightarrow> NUL \<notin> set (path_of st)"
proof -
  assume "list_all proper_part st"
  then have "\<forall>c \<in> set st. NUL \<notin> set c" by (auto simp: list_all_iff proper_part_def)
  moreover have "CHR ''/'' \<noteq> NUL" by (simp add: NUL_def)
  ultimately show ?thesis by (auto simp: path_of_def)
qed

lemma normalize_spec:
  assumes "NUL \<in> set buf" and "char_at buf 0 = CHR ''/''"
  obtains out st where "vfs_normalize_path buf = Inr out" "length out = length buf" "NUL \<in> set out"
    "st = foldl part_step [] (path_parts (cstr buf))" "list_all proper_part st" "cstr out = path_of st"
    "length (cstr out) \<le> length (cstr buf)"
proof -
  obtain s where buf: "buf = CHR ''/'' # s" using assms(2) by (cases buf) (auto simp: char_at_def NUL_def)
  have slash: "CHR ''/'' \<noteq> NUL" by (simp add: NUL_def)
  then have s: "NUL \<in> set s" "cstr buf = CHR ''/'' # cstr s" using assms(1) buf by (auto simp: cstr_def)
  have ok: "loop_ok buf 1 1 []" using buf s(1) by (cases s) (auto simp: loop_ok_def path_of_def)
  obtain path1 len where loop: "normalize_loop buf 1 1 = (path1, len)" by fastforce
  define st where "st = foldl part_step [] (path_parts (cstr buf))"
  have st: "st = foldl part_step [] (path_parts (rest buf 1))"
    unfolding st_def s(2) path_parts_slash by (simp add: buf)
  have spec: "length path1 = length buf" "len = length (path_of st)" "take len path1 = path_of st"
      "list_all proper_part st" "len \<le> length (cstr buf)"
    using normalize_loop_spec [OF ok _ loop] s buf unfolding st by auto
  have "length (cstr buf) < length buf" using assms(1) unfolding cstr_def by (induction buf) auto
  then have "len < length path1" using spec(1,5) by simp
  then have out: "path1[len := NUL] = path_of st @ NUL # drop (len + 1) path1"
    using upd_conv_take_nth_drop [of len path1 NUL] spec(3) by simp
  have "\<forall>c \<in> set (path_of st). c \<noteq> NUL" using path_of_no_NUL [OF spec(4)] by auto
  then have "cstr (path1[len := NUL]) = path_of st" unfolding out cstr_def by (simp add: takeWhile_append2)
  moreover have "vfs_normalize_path buf = Inr (path1[len := NUL])" using assms(2) loop by (simp add: vfs_normalize_path_def)
  moreover have "NUL \<in> set (path1[len := NUL])" unfolding out by simp
  ultimately show thesis using that [OF _ _ _ st_def spec(4)] spec(1,2,5) by simp
qed


section \<open>Properties\<close>

text \<open>
  (C38) Normalising in place computes the canonical form of the path in the buffer: the components
  after dropping empty ones and dots and resolving double dots, with the root its own
  parent.  The buffer keeps its size, the string does not grow, the result has only proper
  components, and normalising it again changes nothing.  A path that does not begin with a
  slash is refused.
\<close>

theorem vfs_normalize_path_canonical:
  assumes "NUL \<in> set buf"
  shows "case vfs_normalize_path buf of
      Inl e \<Rightarrow> e = EINVAL \<and> char_at buf 0 \<noteq> CHR ''/''
    | Inr out \<Rightarrow> char_at buf 0 = CHR ''/'' \<and> length out = length buf \<and> cstr out = norm_path (cstr buf) \<and>
        length (cstr out) \<le> length (cstr buf) \<and> (\<exists>st. list_all proper_part st \<and> cstr out = path_of st) \<and>
        (\<exists>again. vfs_normalize_path out = Inr again \<and> cstr again = cstr out)"
proof (cases "char_at buf 0 = CHR ''/''")
  case False
  then show ?thesis by (simp add: vfs_normalize_path_def)
next
  case True
  obtain out st where out: "vfs_normalize_path buf = Inr out" "length out = length buf" "NUL \<in> set out"
      "st = foldl part_step [] (path_parts (cstr buf))" "list_all proper_part st" "cstr out = path_of st"
      "length (cstr out) \<le> length (cstr buf)"
    using normalize_spec [OF assms True] .
  have hd: "char_at out 0 = CHR ''/''"
    using rest_Cons [of out 0] rest_NUL [of out 0] out(6) by (cases "char_at out 0 = NUL") (auto simp: path_of_def split: if_splits; cases st; auto)+
  obtain again where "vfs_normalize_path out = Inr again" "cstr again = norm_path (cstr out)"
    using normalize_spec [OF out(3) hd] unfolding norm_path_def by metis
  with out True norm_path_of [OF out(5)] show ?thesis by (auto simp: norm_path_def)
qed

theorem vfs_normalize_path_canonical_witness:
  "\<exists>out. vfs_normalize_path (''/a//./b/../c/'' @ [NUL]) = Inr out \<and> cstr out = ''/a/c''"
proof -
  have "norm_path ''/a//./b/../c/'' = ''/a/c''" by code_simp
  moreover have "cstr (''/a//./b/../c/'' @ [NUL]) = ''/a//./b/../c/''" "char_at (''/a//./b/../c/'' @ [NUL]) 0 = CHR ''/''"
    by (simp_all add: cstr_def NUL_def char_at_def)
  ultimately show ?thesis
    using vfs_normalize_path_canonical [of "''/a//./b/../c/'' @ [NUL]"]
    by (simp split: sum.splits)
qed



end
