(* ===== verification/Printf.thy ===== *)
theory Printf
  imports Prelude
begin

text \<open>
  Formatted output of \<^verbatim>\<open>src/lib/printf.c\<close>: division of a 64-bit value by shifting, digits collected in
  a buffer of 24 characters, and the interpreter of format strings.  The characters given to
  \<open>putc\<close> are returned as a string; \<open>None\<close> stands for a store outside the buffer, or for an argument
  that does not have the type its conversion reads.
\<close>

section \<open>Numbers\<close>

text \<open>The loop over the bits \<open>n - 1, \<dots>, 0\<close> of the value, with quotient \<open>q\<close> and remainder \<open>r\<close>.\<close>

fun divmod_loop :: "nat \<Rightarrow> u64 \<Rightarrow> u64 \<Rightarrow> u64 \<Rightarrow> u64 \<Rightarrow> u64 \<times> u64" where
  "divmod_loop 0 v base q r = (q, r)"
| "divmod_loop (Suc n) v base q r =
    (let r1 = push_bit 1 r OR (drop_bit n v AND 1)
     in if r1 \<ge> base then divmod_loop n v base (q OR push_bit n 1) (r1 - base)
        else divmod_loop n v base q r1)"

definition divmod_u64 :: "u64 \<Rightarrow> u64 \<Rightarrow> u64 \<times> u64" where
  "divmod_u64 v base = divmod_loop 64 v base 0 0"

definition printf_digits :: string where
  "printf_digits = ''0123456789abcdef''"

definition PRINTF_BUF :: nat where
  "PRINTF_BUF = 24"

function digits_loop :: "u64 \<Rightarrow> u64 \<Rightarrow> string \<Rightarrow> string option" where
  "digits_loop base v buf =
    (if length buf \<ge> PRINTF_BUF then None
     else let (q, r) = divmod_u64 v base;
              buf1 = buf @ [printf_digits ! unat r]
          in if q \<noteq> 0 then digits_loop base q buf1 else Some buf1)"
  by pat_completeness auto
termination
  by (relation "measure (\<lambda>(base, v, buf). PRINTF_BUF - length buf)") auto

declare digits_loop.simps [simp del]

definition print_uint :: "u64 \<Rightarrow> u64 \<Rightarrow> int \<Rightarrow> char \<Rightarrow> string option" where
  "print_uint v base width pad =
    (case digits_loop base v [] of
       None \<Rightarrow> None
     | Some buf \<Rightarrow>
         if int (length buf) < width
         then if width > int PRINTF_BUF then None
              else Some (rev (buf @ replicate (nat width - length buf) pad))
         else Some (rev buf))"

definition print_int :: "u64 \<Rightarrow> int \<Rightarrow> char \<Rightarrow> string option" where
  "print_int v width pad =
    (if sint v < 0
     then map_option ((#) CHR ''-'') (print_uint (- v) 10 (if width > 0 then width - 1 else width) pad)
     else print_uint v 10 width pad)"

section \<open>Format strings\<close>

text \<open>The arguments: a string or a null pointer, \<open>int\<close>-sized values, \<open>long\<close>-sized values and pointers.\<close>

datatype karg = A_str "string option" | A_int u32 | A_long u64 | A_ptr u64

fun arg_unsigned :: "bool \<Rightarrow> karg \<Rightarrow> u64 option" where
  "arg_unsigned False (A_int w) = Some (ucast w)"
| "arg_unsigned True (A_long w) = Some w"
| "arg_unsigned _ _ = None"

fun arg_signed :: "bool \<Rightarrow> karg \<Rightarrow> u64 option" where
  "arg_signed False (A_int w) = Some (scast w)"
| "arg_signed True (A_long w) = Some w"
| "arg_signed _ _ = None"

definition is_digit :: "char \<Rightarrow> bool" where
  "is_digit c \<longleftrightarrow> 48 \<le> (of_char c :: nat) \<and> (of_char c :: nat) \<le> 57"

fun fmt_width :: "int \<Rightarrow> string \<Rightarrow> int \<times> string" where
  "fmt_width w [] = (w, [])"
| "fmt_width w (c # fmt) = (if is_digit c then fmt_width (w * 10 + (of_char c - 48)) fmt else (w, c # fmt))"

text \<open>One conversion: the characters it prints, or \<open>None\<close>.  \<open>%%\<close> and unknown ones take no argument.\<close>

definition printf_conv :: "char \<Rightarrow> int \<Rightarrow> bool \<Rightarrow> char \<Rightarrow> karg \<Rightarrow> string option" where
  "printf_conv pad width long c a =
    (if c = CHR ''s'' then (case a of A_str None \<Rightarrow> Some ''(null)'' | A_str (Some t) \<Rightarrow> Some t | _ \<Rightarrow> None)
     else if c = CHR ''c'' then (case a of A_int w \<Rightarrow> Some [char_of (unat w)] | _ \<Rightarrow> None)
     else if c = CHR ''d'' \<or> c = CHR ''i'' then Option.bind (arg_signed long a) (\<lambda>v. print_int v width pad)
     else if c = CHR ''u'' then Option.bind (arg_unsigned long a) (\<lambda>v. print_uint v 10 width pad)
     else if c = CHR ''x'' then Option.bind (arg_unsigned long a) (\<lambda>v. print_uint v 16 width pad)
     else if c = CHR ''p''
     then (case a of A_ptr v \<Rightarrow> map_option (\<lambda>t. ''0x'' @ t) (print_uint v 16 16 CHR ''0'') | _ \<Rightarrow> None)
     else None)"

definition takes_arg :: "char \<Rightarrow> bool" where
  "takes_arg c \<longleftrightarrow> c \<in> set ''scdiuxp''"

lemma length_fmt_width: "length (snd (fmt_width w fmt)) \<le> length fmt"
  by (induction fmt arbitrary: w) (auto simp: le_Suc_eq)

text \<open>After a \<open>%\<close>: the fill character, the width, whether there is an \<open>l\<close>, and what follows.\<close>

definition fmt_spec :: "string \<Rightarrow> char \<times> int \<times> bool \<times> string" where
  "fmt_spec fmt =
    (let (pad, f1) = (case fmt of CHR ''0'' # f \<Rightarrow> (CHR ''0'', f) | _ \<Rightarrow> (CHR '' '', fmt));
         (width, f2) = fmt_width 0 f1
     in (pad, width, f2 \<noteq> [] \<and> hd f2 = CHR ''l'', dropWhile (\<lambda>c. c = CHR ''l'') f2))"

lemma length_fmt_spec: "fmt_spec fmt = (pad, width, long, f) \<Longrightarrow> length f \<le> length fmt"
proof -
  assume eq: "fmt_spec fmt = (pad, width, long, f)"
  define f1 where "f1 = snd (case fmt of CHR ''0'' # f \<Rightarrow> (CHR ''0'', f) | _ \<Rightarrow> (CHR '' '', fmt))"
  have "f = dropWhile (\<lambda>c. c = CHR ''l'') (snd (fmt_width 0 f1))"
    using eq by (auto simp: fmt_spec_def f1_def Let_def split: prod.splits)
  moreover have "length f1 \<le> length fmt" by (cases fmt) (auto simp: f1_def split: char.splits bool.splits)
  ultimately show ?thesis
    using length_dropWhile_le [of "\<lambda>c. c = CHR ''l''" "snd (fmt_width 0 f1)"] length_fmt_width [of 0 f1] by simp
qed

function kvprintf :: "string \<Rightarrow> karg list \<Rightarrow> string option" where
  "kvprintf [] args = Some []"
| "kvprintf (c # fmt) args =
    (if c \<noteq> CHR ''%'' then map_option ((#) c) (kvprintf fmt args)
     else case fmt_spec fmt of
            (pad, width, long, []) \<Rightarrow> Some []
          | (pad, width, long, d # rest) \<Rightarrow>
              if d = CHR ''%'' then map_option ((#) CHR ''%'') (kvprintf rest args)
              else if \<not> takes_arg d then map_option (\<lambda>t. CHR ''%'' # d # t) (kvprintf rest args)
              else case args of
                     [] \<Rightarrow> None
                   | a # args1 \<Rightarrow>
                       Option.bind (printf_conv pad width long d a) (\<lambda>out.
                         map_option (\<lambda>t. out @ t) (kvprintf rest args1)))"
  by pat_completeness auto
termination
  by (relation "measure (\<lambda>(fmt, args). length fmt)") (auto dest!: length_fmt_spec [OF sym])

section \<open>Division\<close>

lemma unat_shift_in:
  fixes r v :: u64
  assumes "unat r < 2 ^ 63"
  shows "unat (push_bit 1 r OR (drop_bit n v AND 1)) = 2 * unat r + unat v div 2 ^ n mod 2"
proof -
  have "unat v < 2 ^ 64" using unsigned_less [of v] by simp
  then have "take_bit 64 (unat v) = unat v" by (rule take_bit_nat_eq_self)
  then have "unat (drop_bit n v AND 1) = unat v div 2 ^ n mod 2"
    unfolding unsigned_and_eq unsigned_drop_bit_eq by (simp add: and_one_eq drop_bit_eq_div)
  moreover have "unat (push_bit 1 r) = 2 * unat r"
    using assms by (simp add: push_bit_eq_mult unat_word_ariths(2))
  moreover have "(2 * a) OR (b mod 2) = 2 * a + b mod 2" for a b :: nat
    using disjunctive_add_eq_or [of "2 * a" "1 :: nat"] by (cases "b mod 2 = 0") (auto simp: and_one_eq)
  ultimately show ?thesis by (simp add: unsigned_or_eq)
qed

lemma unat_set_bit:
  fixes q :: u64
  assumes "n < 64" and "unat q mod 2 ^ Suc n = 0"
  shows "unat (q OR push_bit n 1) = unat q + 2 ^ n"
proof -
  have "\<not> bit (unat q) n"
    using assms(2) by (metis bit_take_bit_iff lessI take_bit_eq_mod bit_0_eq bot_apply bot_bool_def)
  then have "unat q AND 2 ^ n = 0" by (simp add: and_exp_eq_0_iff_not_bit)
  then have "unat q + 2 ^ n = unat q OR 2 ^ n" by (rule disjunctive_add_eq_or)
  moreover have "unat (push_bit n 1 :: u64) = 2 ^ n"
  proof -
    have "(2 :: nat) ^ n < 2 ^ 64" using assms(1) by (intro power_strict_increasing) simp_all
    then have "unat (of_nat (2 ^ n) :: u64) = 2 ^ n" unfolding unat_of_nat by simp
    then show ?thesis by (simp add: push_bit_eq_mult)
  qed
  ultimately show ?thesis by (simp add: unsigned_or_eq)
qed

text \<open>After the high bits down to \<open>n\<close>: they are the part of the quotient found so far times the base, plus the remainder.\<close>

lemma divmod_loop_spec:
  assumes "n \<le> 64" and "0 < unat base" "unat base \<le> 2 ^ 63" and "unat r < unat base"
    and "unat q mod 2 ^ n = 0" and "unat v div 2 ^ n = unat q div 2 ^ n * unat base + unat r"
    and "divmod_loop n v base q r = (q', r')"
  shows "unat q' = unat v div unat base \<and> unat r' = unat v mod unat base"
  using assms
proof (induction n arbitrary: q r)
  case 0
  then have "unat v = unat q * unat base + unat r" "q' = q" "r' = r" by simp_all
  with \<open>unat r < unat base\<close> show ?case by auto
next
  case (Suc n)
  define r1 where "r1 = push_bit 1 r OR (drop_bit n v AND 1)"
  have r1: "unat r1 = 2 * unat r + unat v div 2 ^ n mod 2"
    unfolding r1_def using Suc.prems(3,4) by (intro unat_shift_in) simp
  have "unat v div 2 ^ n = 2 * (unat v div 2 ^ Suc n) + unat v div 2 ^ n mod 2"
    by (simp add: div_mult2_eq power_Suc2 del: power_Suc)
  moreover have q2: "unat q div 2 ^ n = 2 * (unat q div 2 ^ Suc n)" "unat q mod 2 ^ n = 0"
    using Suc.prems(5) by (auto elim!: dvdE simp: mod_eq_0_iff_dvd)
  ultimately have v: "unat v div 2 ^ n = unat q div 2 ^ n * unat base + unat r1"
    using Suc.prems(6) r1 by (simp add: algebra_simps)
  have lt: "unat r1 < 2 * unat base" using r1 Suc.prems(4) by simp
  show ?case
  proof (cases "r1 \<ge> base")
    case True
    then have sub: "unat (r1 - base) = unat r1 - unat base" "unat base \<le> unat r1"
      by (simp_all add: unat_sub word_le_nat_alt)
    have q1: "unat (q OR push_bit n 1) = unat q + 2 ^ n" using Suc.prems(1,5) by (intro unat_set_bit) simp_all
    show ?thesis
    proof (rule Suc.IH)
      show "unat v div 2 ^ n = unat (q OR push_bit n 1) div 2 ^ n * unat base + unat (r1 - base)"
        unfolding q1 sub(1) v using sub(2) by (simp add: div_add_self2 algebra_simps)
      show "unat (q OR push_bit n 1) mod 2 ^ n = 0" unfolding q1 using q2(2) by simp
      show "divmod_loop n v base (q OR push_bit n 1) (r1 - base) = (q', r')"
        using Suc.prems(7) True unfolding divmod_loop.simps(2) Let_def r1_def [symmetric] by simp
    qed (use Suc.prems lt sub in simp_all)
  next
    case False
    show ?thesis
    proof (rule Suc.IH)
      show "divmod_loop n v base q r1 = (q', r')" 
        using Suc.prems(7) False unfolding divmod_loop.simps(2) Let_def r1_def [symmetric] by simp
      show "unat r1 < unat base" using False by (simp add: word_le_nat_alt)
    qed (use Suc.prems q2(2) v in simp_all)
  qed
qed

lemma divmod_u64_spec:
  assumes "0 < unat base" "unat base \<le> 2 ^ 63"
  shows "divmod_u64 v base = (v div base, v mod base)"
proof -
  obtain q r where qr: "divmod_u64 v base = (q, r)" by fastforce
  have "unat v < 2 ^ 64" using unsigned_less [of v] by simp
  then have "unat q = unat v div unat base \<and> unat r = unat v mod unat base"
    using assms qr by (intro divmod_loop_spec [of 64]) (simp_all add: divmod_u64_def)
  then have "q = v div base" "r = v mod base" by (simp_all add: word_unat_eq_iff unat_div unat_mod)
  with qr show ?thesis by simp
qed

section \<open>Digits\<close>

text \<open>The usual notation of a number in base \<open>b\<close>, and the number a string stands for.\<close>

fun num_str :: "nat \<Rightarrow> nat \<Rightarrow> string" where
  "num_str b n = (if b < 2 \<or> n < b then [printf_digits ! n] else num_str b (n div b) @ [printf_digits ! (n mod b)])"

declare num_str.simps [simp del]

definition digit_val :: "char \<Rightarrow> nat" where
  "digit_val c = (if is_digit c then of_char c - 48 else of_char c - 87)"

definition num_val :: "nat \<Rightarrow> string \<Rightarrow> nat" where
  "num_val b s = foldl (\<lambda>a c. a * b + digit_val c) 0 s"

definition int_val :: "string \<Rightarrow> int" where
  "int_val s = (if s \<noteq> [] \<and> hd s = CHR ''-'' then - int (num_val 10 (tl s)) else int (num_val 10 s))"

lemma digit_val_nth: "d < 16 \<Longrightarrow> digit_val (printf_digits ! d) = d"
proof -
  have "\<forall>d \<in> set [0..<16]. digit_val (printf_digits ! d) = d" by code_simp
  then show "d < 16 \<Longrightarrow> ?thesis" by simp
qed

lemma num_val_num_str: "2 \<le> b \<Longrightarrow> b \<le> 16 \<Longrightarrow> num_val b (num_str b n) = n"
proof (induction b n rule: num_str.induct)
  case (1 b n)
  moreover from this have "n mod b < 16" using mod_less_divisor [of b n] by linarith
  ultimately show ?case by (subst num_str.simps) (auto simp: num_val_def digit_val_nth)
qed

lemma set_num_str: "2 \<le> b \<Longrightarrow> b \<le> 16 \<Longrightarrow> set (num_str b n) \<subseteq> set printf_digits"
proof (induction b n rule: num_str.induct)
  case (1 b n)
  have len: "length printf_digits = 16" by (simp add: printf_digits_def)
  moreover have "n mod b < 16" using 1 mod_less_divisor [of b n] by linarith
  ultimately show ?case using 1 by (subst num_str.simps) (auto intro: nth_mem)
qed

lemma num_str_nonempty: "num_str b n \<noteq> []"
  by (subst num_str.simps) simp

lemma length_num_str: "2 \<le> b \<Longrightarrow> n < b ^ Suc k \<Longrightarrow> length (num_str b n) \<le> Suc k"
proof (induction k arbitrary: n)
  case 0
  then show ?case by (subst num_str.simps) simp
next
  case (Suc k)
  have "n div b < b ^ Suc k" using Suc.prems by (simp add: div_less_iff_less_mult mult.commute)
  with Suc show ?case by (subst num_str.simps) simp
qed

lemma length_num_str_64:
  assumes "b = 10 \<or> b = 16"
  shows "length (num_str b (unat (v :: u64))) \<le> 20"
proof -
  have "unat v < 2 ^ 64" using unsigned_less [of v] by simp
  then have "unat v < b ^ Suc 19" using assms by auto
  with assms length_num_str [of b "unat v" 19] show ?thesis by auto
qed

lemma digits_loop_spec:
  assumes "2 \<le> unat base" "unat base \<le> 2 ^ 63" and "length buf + length (num_str (unat base) (unat v)) \<le> PRINTF_BUF"
  shows "digits_loop base v buf = Some (buf @ rev (num_str (unat base) (unat v)))"
  using assms(3)
proof (induction "unat v" arbitrary: v buf rule: less_induct)
  case less
  let ?b = "unat base" and ?buf = "buf @ [printf_digits ! (unat v mod unat base)]"
  have dm: "divmod_u64 v base = (v div base, v mod base)" using assms(1,2) by (intro divmod_u64_spec) simp_all
  have room: "length buf < PRINTF_BUF" using less.prems num_str_nonempty [of ?b "unat v"]
    by (cases "num_str ?b (unat v)") auto
  have z: "v div base \<noteq> 0 \<longleftrightarrow> \<not> unat v < ?b"
    using assms(1) by (simp add: word_unat_eq_iff unat_div div_eq_0_iff)
  have loop: "digits_loop base v buf = (if unat v < ?b then Some ?buf else digits_loop base (v div base) ?buf)"
    using room z by (subst digits_loop.simps) (simp add: dm unat_mod)
  show ?case
  proof (cases "unat v < ?b")
    case True
    with loop assms(1) show ?thesis by (subst num_str.simps) simp
  next
    case False
    have lt: "unat (v div base) < unat v" using False assms(1) by (simp add: unat_div)
    have ns: "num_str ?b (unat v) = num_str ?b (unat (v div base)) @ [printf_digits ! (unat v mod ?b)]"
      using False assms(1) by (subst num_str.simps) (simp add: unat_div)
    then have "digits_loop base (v div base) ?buf = Some (?buf @ rev (num_str ?b (unat (v div base))))"
      using less.prems by (intro less.hyps [OF lt]) simp
    with loop ns False show ?thesis by simp
  qed
qed

lemma print_uint_spec:
  assumes "base = 10 \<or> base = 16" and s: "s = num_str (unat base) (unat v)"
  shows "print_uint v base width pad =
    (if width \<le> int PRINTF_BUF then Some (replicate (nat width - length s) pad @ s) else None)"
proof -
  have b: "unat base = 10 \<or> unat base = 16" using assms(1) by auto
  have len: "length s \<le> 20" unfolding s by (rule length_num_str_64 [OF b])
  then have "digits_loop base v [] = Some (rev s)"
    using digits_loop_spec [of base "[]" v] b s by (auto simp: PRINTF_BUF_def)
  with len show ?thesis by (auto simp: print_uint_def PRINTF_BUF_def)
qed

lemma sint_u64_cases:
  fixes v :: u64
  obtains "sint v = int (unat v)" "0 \<le> sint v" | "- sint v = int (unat (- v))" "sint v < 0"
proof -
  have lt: "uint v < 2 ^ 64" using uint_lt2p [of v] by simp
  then have tb: "take_bit 64 (uint v) = uint v" by (simp add: take_bit_int_eq_self)
  have "sint v = take_bit 64 (uint v) - 2 ^ 64 * of_bool (bit (uint v) 63)"
    unfolding sint_uint using signed_take_bit_eq_take_bit_minus [of 63 "uint v"] by simp
  then have s: "sint v = uint v - 2 ^ 64 * of_bool (bit (uint v) 63)" unfolding tb .
  have u: "int (unat v) = uint v" by simp
  show thesis
  proof (cases "bit (uint v) 63")
    case True
    then have "uint v \<noteq> 0" by auto
    then have "uint (- v) = 2 ^ 64 - uint v"
      using lt by (simp add: uint_word_ariths zmod_zminus1_eq_if)
    with True s lt show thesis by (intro that(2)) simp_all
  next
    case False
    with s show thesis by (intro that(1)) simp_all
  qed
qed

section \<open>Properties\<close>



end
