(* ===== verification/Procfs.thy ===== *)
theory Procfs
  imports Printf
begin

text \<open>
  The generated files of \<^verbatim>\<open>src/fs/procfs.c\<close>: the texts, made with the kernel's \<open>printf\<close> from what the rest
  of the kernel reports, and reads through one snapshot buffer that the seven files share.
\<close>

section \<open>Texts\<close>

definition PROCFS_FILE_COUNT :: nat where "PROCFS_FILE_COUNT = 7"
definition PROCFS_BUFFER_SIZE :: nat where "PROCFS_BUFFER_SIZE = 2048"

abbreviation TAB :: string where "TAB \<equiv> [CHR 0x09]"
abbreviation LF :: string where "LF \<equiv> [CHR 0x0A]"

definition TACH_VERSION_STRING :: string where "TACH_VERSION_STRING = ''0.0.12''"

text \<open>What the generators ask other parts for: the architecture, page counts, processes, system call names, mounts.\<close>

record proc_info =
  pi_name :: string
  pi_pid :: u32
  pi_ppid :: u32
  pi_state :: string
  pi_uid :: u32
  pi_gid :: u32
  pi_ticks :: u64

record proc_env =
  pe_arch :: string
  pe_total_pages :: u64
  pe_free_pages :: u64
  pe_current :: "nat option"
  pe_procs :: "proc_info list"
  pe_syscalls :: "(u32 \<times> string) list"
  pe_mounts :: "string list"

definition gen_version :: "proc_env \<Rightarrow> string option" where
  "gen_version env = kvprintf (''tach %s %s (freestanding C kernel)'' @ LF)
     [A_str (Some TACH_VERSION_STRING), A_str (Some (pe_arch env))]"

definition gen_uname :: "proc_env \<Rightarrow> string option" where
  "gen_uname env = kvprintf (''tach %s %s userspace'' @ LF)
     [A_str (Some TACH_VERSION_STRING), A_str (Some (pe_arch env))]"

definition gen_meminfo :: "proc_env \<Rightarrow> string option" where
  "gen_meminfo env = kvprintf (''MemTotal:'' @ TAB @ ''%lu kB'' @ LF @ ''MemFree:'' @ TAB @ ''%lu kB'' @ LF)
     [A_long (pe_total_pages env * 4), A_long (pe_free_pages env * 4)]"

definition gen_self_status :: "proc_env \<Rightarrow> string option" where
  "gen_self_status env =
    (case pe_current env of
       None \<Rightarrow> Some []
     | Some i \<Rightarrow>
         let p = pe_procs env ! i
         in kvprintf (''Name:'' @ TAB @ ''%s'' @ LF @ ''Pid:'' @ TAB @ ''%u'' @ LF @ ''PPid:'' @ TAB @ ''%u'' @ LF @
              ''State:'' @ TAB @ ''%s'' @ LF @ ''Uid:'' @ TAB @ ''%u'' @ LF @ ''Gid:'' @ TAB @ ''%u'' @ LF)
            [A_str (Some (pi_name p)), A_int (pi_pid p), A_int (pi_ppid p), A_str (Some (pi_state p)),
             A_int (pi_uid p), A_int (pi_gid p)])"

definition cat_opt :: "string option \<Rightarrow> string option \<Rightarrow> string option" where
  "cat_opt a b = Option.bind a (\<lambda>s. map_option (\<lambda>t. s @ t) b)"

definition ps_line :: "bool \<Rightarrow> proc_info \<Rightarrow> string option" where
  "ps_line is_current p =
    cat_opt (kvprintf ''%c%4u %5u '' [A_int (if is_current then 42 else 32), A_int (pi_pid p), A_int (pi_ppid p)])
      (cat_opt (kvprintf ''%s'' [A_str (Some (pi_state p))])
        (cat_opt (Some (replicate (9 - length (pi_state p)) CHR '' ''))
          (kvprintf (''%5lu %s'' @ LF) [A_long (pi_ticks p), A_str (Some (pi_name p))])))"

definition gen_ps :: "proc_env \<Rightarrow> string option" where
  "gen_ps env =
    foldl cat_opt (kvprintf ('' PID  PPID STATE     TICKS NAME'' @ LF) [])
      (map (\<lambda>i. ps_line (pe_current env = Some i) (pe_procs env ! i)) [0..<length (pe_procs env)])"

definition gen_syscalls :: "proc_env \<Rightarrow> string option" where
  "gen_syscalls env =
    foldl cat_opt (Some []) (map (\<lambda>(i, name). kvprintf (''%3d  %s'' @ LF) [A_int i, A_str (Some name)]) (pe_syscalls env))"

definition gen_mounts :: "proc_env \<Rightarrow> string option" where
  "gen_mounts env =
    foldl cat_opt (kvprintf (''initrd / ro'' @ LF @ ''tmpfs /tmp rw'' @ LF @ ''procfs /proc ro'' @ LF) [])
      (map (\<lambda>path. kvprintf (''fat32 %s rw'' @ LF) [A_str (Some path)]) (pe_mounts env))"

definition procfs_table :: "(string \<times> (proc_env \<Rightarrow> string option)) list" where
  "procfs_table =
    [(''/proc/version'', gen_version), (''/proc/uname'', gen_uname), (''/proc/meminfo'', gen_meminfo),
     (''/proc/self/status'', gen_self_status), (''/proc/ps'', gen_ps), (''/proc/syscalls'', gen_syscalls),
     (''/proc/mounts'', gen_mounts)]"

section \<open>Files\<close>

text \<open>The snapshot: its text and the file that made it.\<close>

record procfs =
  pf_data :: string
  pf_owner :: "nat option"

definition procfs_open :: "nat \<Rightarrow> int \<Rightarrow> unit res" where
  "procfs_open i flags = (if rdonly flags then Inr () else Inl EACCES)"

text \<open>\<open>procfs_putc\<close> drops what does not fit into the buffer beside a final NUL.\<close>

definition procfs_text :: "proc_env \<Rightarrow> nat \<Rightarrow> string option" where
  "procfs_text env i = map_option (take (PROCFS_BUFFER_SIZE - 1)) (snd (procfs_table ! i) env)"

definition procfs_read :: "proc_env \<Rightarrow> nat \<Rightarrow> nat \<Rightarrow> int \<Rightarrow> procfs \<Rightarrow> string res option \<times> procfs" where
  "procfs_read env i count offset s =
    (if offset < 0 then (Some (Inl EFAULT), s)
     else if i \<ge> PROCFS_FILE_COUNT then (Some (Inl EBADF), s)
     else case (if offset = 0 \<or> pf_owner s \<noteq> Some i
                then map_option (\<lambda>text. \<lparr>pf_data = text, pf_owner = Some i\<rparr>) (procfs_text env i) else Some s) of
            None \<Rightarrow> (None, s)
          | Some s1 \<Rightarrow>
              (Some (Inr (if nat offset < length (pf_data s1)
                          then take (min count (length (pf_data s1) - nat offset)) (drop (nat offset) (pf_data s1))
                          else [])), s1))"

definition procfs_lookup :: "string \<Rightarrow> nat option" where
  "procfs_lookup path = find (\<lambda>i. path = fst (procfs_table ! i)) [0..<PROCFS_FILE_COUNT]"

definition procfs_count :: nat where "procfs_count = PROCFS_FILE_COUNT"

definition procfs_path :: "nat \<Rightarrow> string option" where
  "procfs_path index = (if index < PROCFS_FILE_COUNT then Some (fst (procfs_table ! index)) else None)"

end
