(* ===== verification/Vfs.thy ===== *)
theory Vfs
  imports VfsPath Tmpfs Procfs BlkStore
begin

text \<open>
  The virtual file system of \<^verbatim>\<open>src/fs/vfs.c\<close>: the mount table and its routing, devices, memory files,
  directories derived from the paths that exist, and the operations that go through them.
  A vnode is a value naming the object; a mounted file system is a record of
  operations on its own state.  Paths are character lists.
\<close>

section \<open>Mounts\<close>

definition VFS_MAX_MEMFILES :: nat where "VFS_MAX_MEMFILES = 64"
definition VFS_MAX_MOUNTS :: nat where "VFS_MAX_MOUNTS = 8"
definition VFS_MOUNT_PATH_MAX :: nat where "VFS_MOUNT_PATH_MAX = 64"
definition VFS_MAX_DIRS :: nat where "VFS_MAX_DIRS = 16"
definition VNODE_PATH_SIZE :: nat where "VNODE_PATH_SIZE = 128"
definition VFS_PREFIX_MAX :: nat where "VFS_PREFIX_MAX = VNODE_PATH_SIZE + 2"
definition D_NAME_SIZE :: nat where "D_NAME_SIZE = 256"

text \<open>
  The operations of a mounted file system, each present or not; \<open>'f\<close> is the pointer \<open>fs\<close>, \<open>'w\<close> the state
  of the mounted file systems and \<open>'v\<close> their vnodes.  \<open>open\<close> without a vnode and without an error code counts
  as \<open>ENOENT\<close>.
\<close>

record ('f, 'w, 'v) vfs_fsops =
  fo_open :: "('f \<Rightarrow> string \<Rightarrow> int \<Rightarrow> 'w \<Rightarrow> 'v res \<times> 'w) option"
  fo_unlink :: "('f \<Rightarrow> string \<Rightarrow> 'w \<Rightarrow> unit res \<times> 'w) option"
  fo_mkdir :: "('f \<Rightarrow> string \<Rightarrow> 'w \<Rightarrow> unit res \<times> 'w) option"
  fo_rmdir :: "('f \<Rightarrow> string \<Rightarrow> 'w \<Rightarrow> unit res \<times> 'w) option"
  fo_rename :: "('f \<Rightarrow> string \<Rightarrow> string \<Rightarrow> 'w \<Rightarrow> unit res \<times> 'w) option"
  fo_sync :: "('f \<Rightarrow> 'w \<Rightarrow> unit res \<times> 'w) option"
  fo_unmount :: "('f \<Rightarrow> 'w \<Rightarrow> unit res \<times> 'w) option"

record ('f, 'w, 'v) vfs_mount =
  vm_path :: string
  vm_ops :: "('f, 'w, 'v) vfs_fsops"
  vm_fs :: 'f

type_synonym ('f, 'w, 'v) mounts = "('f, 'w, 'v) vfs_mount option list"

text \<open>\<open>path\<close> is \<open>mnt\<close> or lies below it.\<close>

definition mount_match :: "string \<Rightarrow> string \<Rightarrow> bool" where
  "mount_match mnt path \<longleftrightarrow>
    take (length mnt) path = mnt \<and> (char_at path (length mnt) = NUL \<or> char_at path (length mnt) = CHR ''/'')"

fun mount_scan :: "string \<Rightarrow> ('f, 'w, 'v) mounts \<Rightarrow> nat \<Rightarrow> nat option \<Rightarrow> nat \<Rightarrow> nat option \<times> nat" where
  "mount_scan path [] i best best_len = (best, best_len)"
| "mount_scan path (None # ms) i best best_len = mount_scan path ms (i + 1) best best_len"
| "mount_scan path (Some m # ms) i best best_len =
    (if mount_match (vm_path m) path \<and> length (vm_path m) > best_len
     then mount_scan path ms (i + 1) (Some i) (length (vm_path m))
     else mount_scan path ms (i + 1) best best_len)"

definition mount_find :: "('f, 'w, 'v) mounts \<Rightarrow> string \<Rightarrow> (nat \<times> string) option" where
  "mount_find ms path =
    (case mount_scan path ms 0 None 0 of
       (None, _) \<Rightarrow> None
     | (Some i, len) \<Rightarrow> Some (i, if char_at path len = NUL then ''/'' else drop len path))"

definition vfs_mount_fs ::
    "string \<Rightarrow> ('f, 'w, 'v) vfs_fsops \<Rightarrow> 'f \<Rightarrow> ('f, 'w, 'v) mounts \<Rightarrow> unit res \<times> ('f, 'w, 'v) mounts" where
  "vfs_mount_fs path ops fs ms =
    (if char_at path 0 \<noteq> CHR ''/'' then (Inl EINVAL, ms)
     else if length path < 2 then (Inl EINVAL, ms)
     else if length path \<ge> VFS_MOUNT_PATH_MAX then (Inl ENAMETOOLONG, ms)
     else case vfs_normalize_path (path @ replicate (VFS_MOUNT_PATH_MAX - length path) NUL) of
            Inl _ \<Rightarrow> (Inl EINVAL, ms)
          | Inr norm \<Rightarrow>
              if cstr norm \<noteq> path then (Inl EINVAL, ms)
              else if \<exists>m \<in> set ms. case m of None \<Rightarrow> False | Some x \<Rightarrow> vm_path x = path then (Inl EBUSY, ms)
              else case find (\<lambda>i. ms ! i = None) [0..<length ms] of
                     None \<Rightarrow> (Inl ENOSPC, ms)
                   | Some i \<Rightarrow> (Inr (), ms[i := Some \<lparr>vm_path = path, vm_ops = ops, vm_fs = fs\<rparr>]))"

definition vfs_mount_path :: "nat \<Rightarrow> ('f, 'w, 'v) mounts \<Rightarrow> string option" where
  "vfs_mount_path index ms =
    (let used = map (vm_path \<circ> the) (filter (\<lambda>m. m \<noteq> None) ms)
     in if index < length used then Some (used ! index) else None)"

text \<open>Run an optional operation that may fail; a missing one does nothing.\<close>

definition opt_op :: "('f \<Rightarrow> 'w \<Rightarrow> unit res \<times> 'w) option \<Rightarrow> 'f \<Rightarrow> 'w \<Rightarrow> unit res \<times> 'w" where
  "opt_op op fs w = (case op of None \<Rightarrow> (Inr (), w) | Some f \<Rightarrow> f fs w)"

definition vfs_umount :: "string \<Rightarrow> ('f, 'w, 'v) mounts \<Rightarrow> 'w \<Rightarrow> unit res \<times> ('f, 'w, 'v) mounts \<times> 'w" where
  "vfs_umount path ms w =
    (case find (\<lambda>i. case ms ! i of None \<Rightarrow> False | Some m \<Rightarrow> vm_path m = path) [0..<length ms] of
       None \<Rightarrow> (Inl EINVAL, ms, w)
     | Some i \<Rightarrow>
         let m = the (ms ! i)
         in case opt_op (fo_sync (vm_ops m)) (vm_fs m) w of
              (Inl e, w1) \<Rightarrow> (Inl e, ms, w1)
            | (Inr _, w1) \<Rightarrow>
                (case opt_op (fo_unmount (vm_ops m)) (vm_fs m) w1 of
                   (Inl e, w2) \<Rightarrow> (Inl e, ms, w2)
                 | (Inr _, w2) \<Rightarrow> (Inr (), ms[i := None], w2)))"

text \<open>The calls that only a mounted file system serves; \<open>sel\<close> selects its operation.\<close>

definition mount_call ::
    "(('f, 'w, 'v) vfs_fsops \<Rightarrow> ('f \<Rightarrow> string \<Rightarrow> 'w \<Rightarrow> unit res \<times> 'w) option) \<Rightarrow> ('f, 'w, 'v) vfs_mount \<Rightarrow> string \<Rightarrow>
     'w \<Rightarrow> unit res \<times> 'w" where
  "mount_call sel m rel w = (case sel (vm_ops m) of None \<Rightarrow> (Inl ENOTSUP, w) | Some f \<Rightarrow> f (vm_fs m) rel w)"

definition vfs_mkdir :: "string \<Rightarrow> ('f, 'w, 'v) mounts \<Rightarrow> 'w \<Rightarrow> unit res \<times> 'w" where
  "vfs_mkdir path ms w =
    (case mount_find ms path of
       None \<Rightarrow> (Inl EROFS, w) | Some (i, rel) \<Rightarrow> mount_call fo_mkdir (the (ms ! i)) rel w)"

definition vfs_rmdir :: "string \<Rightarrow> ('f, 'w, 'v) mounts \<Rightarrow> 'w \<Rightarrow> unit res \<times> 'w" where
  "vfs_rmdir path ms w =
    (case mount_find ms path of
       None \<Rightarrow> (Inl EROFS, w) | Some (i, rel) \<Rightarrow> mount_call fo_rmdir (the (ms ! i)) rel w)"

definition vfs_rename :: "string \<Rightarrow> string \<Rightarrow> ('f, 'w, 'v) mounts \<Rightarrow> 'w \<Rightarrow> unit res \<times> 'w" where
  "vfs_rename old_path new_path ms w =
    (let a = mount_find ms old_path; b = mount_find ms new_path
     in if map_option fst a \<noteq> map_option fst b then (Inl EXDEV, w)
        else case (a, b) of
               (Some (i, r1), Some (_, r2)) \<Rightarrow>
                 (case fo_rename (vm_ops (the (ms ! i))) of
                    None \<Rightarrow> (Inl ENOTSUP, w) | Some f \<Rightarrow> f (vm_fs (the (ms ! i))) r1 r2 w)
             | _ \<Rightarrow> (Inl EROFS, w))"

fun sync_mounts :: "('f, 'w, 'v) mounts \<Rightarrow> errno option \<Rightarrow> 'w \<Rightarrow> errno option \<times> 'w" where
  "sync_mounts [] first w = (first, w)"
| "sync_mounts (None # ms) first w = sync_mounts ms first w"
| "sync_mounts (Some m # ms) first w =
    (case opt_op (fo_sync (vm_ops m)) (vm_fs m) w of
       (Inr _, w1) \<Rightarrow> sync_mounts ms first w1
     | (Inl e, w1) \<Rightarrow> sync_mounts ms (case first of None \<Rightarrow> Some e | Some x \<Rightarrow> Some x) w1)"

definition vfs_sync :: "('f, 'w, 'v) mounts \<Rightarrow> 'w \<Rightarrow> errno option \<times> 'w" where
  "vfs_sync ms w = sync_mounts ms None w"

section \<open>Vnodes and state\<close>

datatype vnode_type = VNODE_FILE | VNODE_DIR | VNODE_LINK | VNODE_CHAR | VNODE_BLOCK | VNODE_PIPE

record dirent =
  d_ino :: nat
  d_off :: nat
  d_type :: vnode_type
  d_name :: string

text \<open>
  The objects a path can name: the fixed nodes, block devices, tmpfs and procfs nodes, memory files,
  derived directories (by index in their tables), and the nodes of mounted file systems.
\<close>

datatype 'v vnode =
    V_root | V_console | V_null | V_zero | V_disk nat | V_tmp tmpfs_vnode | V_proc nat
  | V_memfile nat | V_dir nat | V_mnt 'v

record memfile =
  mf_path :: string
  mf_data :: "u8 list"

text \<open>\<open>v_keys\<close> is the console input still to come; \<open>v_refs\<close> are the reference counts, which no code reads.\<close>

record ('f, 'w, 'v, 'd) vfs =
  g_mounts :: "('f, 'w, 'v) mounts"
  g_memfiles :: "memfile list"
  g_dirs :: "string list"
  v_refs :: "'v vnode \<Rightarrow> nat"
  v_tmp :: tmpfs
  v_proc :: procfs
  v_blk :: "'d blk"
  v_world :: 'w
  v_keys :: "nat \<Rightarrow> u8"
  v_screen :: "u8 list"

text \<open>The vnode operations of mounted file systems, and what they keep in the vnode.\<close>

record ('w, 'v) vnode_ops =
  vo_type :: "'v \<Rightarrow> 'w \<Rightarrow> vnode_type"
  vo_path :: "'v \<Rightarrow> 'w \<Rightarrow> string"
  vo_size :: "'v \<Rightarrow> 'w \<Rightarrow> nat"
  vo_close :: "'v \<Rightarrow> 'w \<Rightarrow> unit res \<times> 'w"
  vo_read :: "('v \<Rightarrow> nat \<Rightarrow> int \<Rightarrow> 'w \<Rightarrow> u8 list res \<times> 'w) option"
  vo_write :: "('v \<Rightarrow> u8 list \<Rightarrow> int \<Rightarrow> 'w \<Rightarrow> nat res \<times> 'w) option"
  vo_release :: "'v \<Rightarrow> 'w \<Rightarrow> 'w"
  vo_readdir_at :: "('v \<Rightarrow> nat \<Rightarrow> 'w \<Rightarrow> dirent option res \<times> 'w) option"

section \<open>Devices and memory files\<close>

definition EOT :: u8 where "EOT = 4"

text \<open>Characters are read until one is EOT, which is consumed and ends the read.\<close>

fun console_read :: "nat \<Rightarrow> (nat \<Rightarrow> u8) \<Rightarrow> u8 list \<times> (nat \<Rightarrow> u8)" where
  "console_read 0 keys = ([], keys)"
| "console_read (Suc n) keys =
    (if keys 0 = EOT then ([], keys \<circ> Suc)
     else let (cs, rest) = console_read n (keys \<circ> Suc) in (keys 0 # cs, rest))"

definition memfile_read :: "u8 list \<Rightarrow> nat \<Rightarrow> int \<Rightarrow> u8 list res" where
  "memfile_read data count offset =
    (if offset < 0 then Inl EFAULT
     else if nat offset \<ge> length data then Inr []
     else Inr (take (min count (length data - nat offset)) (drop (nat offset) data)))"

definition disk_read :: "'d driver \<Rightarrow> nat \<Rightarrow> nat \<Rightarrow> int \<Rightarrow> 'd blk \<Rightarrow> u8 list res \<times> 'd blk" where
  "disk_read drv dev count offset s =
    (let total = bd_sectors (g_devinfo s dev) * BLK_SECTOR_SIZE;
         count' = min count (total - nat offset)
     in if offset < 0 then (Inl EINVAL, s)
        else if nat offset \<ge> total \<or> count' = 0 then (Inr [], s)
        else blk_read_bytes drv dev (nat offset) count' s)"

definition disk_write :: "'d driver \<Rightarrow> nat \<Rightarrow> u8 list \<Rightarrow> int \<Rightarrow> 'd blk \<Rightarrow> nat res \<times> 'd blk" where
  "disk_write drv dev buffer offset s =
    (let total = bd_sectors (g_devinfo s dev) * BLK_SECTOR_SIZE;
         count' = min (length buffer) (total - nat offset)
     in if offset < 0 then (Inl EINVAL, s)
        else if bd_readonly (g_devinfo s dev) then (Inl EROFS, s)
        else if nat offset \<ge> total then (Inl ENOSPC, s)
        else if count' = 0 then (Inr 0, s)
        else case blk_write_bytes drv dev (nat offset) (take count' buffer) s of
               (Inl e, s1) \<Rightarrow> (Inl e, s1) | (Inr _, s1) \<Rightarrow> (Inr count', s1))"

definition disk_lookup :: "string \<Rightarrow> 'd blk \<Rightarrow> nat option" where
  "disk_lookup path s =
    (if take 5 path \<noteq> ''/dev/'' \<or> length path \<le> 5 then None
     else case blk_find (drop 5 path) s of
            None \<Rightarrow> None
          | Some dev \<Rightarrow> if \<exists>i \<in> set [0..<blk_count s]. blk_get i s = Some dev then Some dev else None)"

definition vfs_register_memfile ::
    "string \<Rightarrow> u8 list \<Rightarrow> ('f, 'w, 'v, 'd) vfs \<Rightarrow> unit res \<times> ('f, 'w, 'v, 'd) vfs" where
  "vfs_register_memfile path data s =
    (if char_at path 0 \<noteq> CHR ''/'' \<or> data = [] then (Inl EINVAL, s)
     else if length path \<ge> VNODE_PATH_SIZE then (Inl ENAMETOOLONG, s)
     else if \<exists>f \<in> set (g_memfiles s). mf_path f = path then (Inl EEXIST, s)
     else if length (g_memfiles s) \<ge> VFS_MAX_MEMFILES then (Inl ENOSPC, s)
     else (Inr (), s\<lparr>g_memfiles := g_memfiles s @ [\<lparr>mf_path = path, mf_data = data\<rparr>],
                     v_refs := (v_refs s)(V_memfile (length (g_memfiles s)) := 1)\<rparr>))"

definition memfile_find :: "string \<Rightarrow> memfile list \<Rightarrow> nat option" where
  "memfile_find path fs = find (\<lambda>i. mf_path (fs ! i) = path) [0..<length fs]"

definition vfs_read_file :: "string \<Rightarrow> ('f, 'w, 'v, 'd) vfs \<Rightarrow> u8 list res" where
  "vfs_read_file path s =
    (case memfile_find path (g_memfiles s) of
       None \<Rightarrow> Inl ENOENT | Some i \<Rightarrow> Inr (mf_data (g_memfiles s ! i)))"

section \<open>Directories\<close>

definition g_fixed :: "(string \<times> vnode_type) list" where
  "g_fixed = [(''/dev/console'', VNODE_CHAR), (''/dev/tty'', VNODE_CHAR), (''/dev/null'', VNODE_CHAR),
              (''/dev/zero'', VNODE_CHAR), (''/tmp'', VNODE_DIR)]"

definition candidate_total :: "('f, 'w, 'v, 'd) vfs \<Rightarrow> nat" where
  "candidate_total s = length g_fixed + blk_count (v_blk s) + length (g_memfiles s) + procfs_count"

definition candidate_at :: "('f, 'w, 'v, 'd) vfs \<Rightarrow> nat \<Rightarrow> (string \<times> vnode_type) option" where
  "candidate_at s index =
    (let i1 = index - length g_fixed; i2 = i1 - blk_count (v_blk s); i3 = i2 - length (g_memfiles s)
     in if index < length g_fixed then Some (g_fixed ! index)
        else if i1 < blk_count (v_blk s)
        then map_option (\<lambda>dev. (''/dev/'' @ take (BLK_NAME_MAX - 1) (bd_name (g_devinfo (v_blk s) dev)), VNODE_BLOCK))
               (blk_get i1 (v_blk s))
        else if i2 < length (g_memfiles s) then Some (mf_path (g_memfiles s ! i2), VNODE_FILE)
        else if i3 < procfs_count then map_option (\<lambda>p. (p, VNODE_FILE)) (procfs_path i3)
        else None)"

definition dir_prefix :: "string \<Rightarrow> string option" where
  "dir_prefix dir =
    (if length dir + 2 > VFS_PREFIX_MAX then None
     else Some (if length dir \<noteq> 1 then dir @ ''/'' else dir))"

text \<open>The first component of \<open>path\<close> below the prefix, and whether more follow.\<close>

definition child_of :: "string \<Rightarrow> string \<Rightarrow> (string \<times> bool) option" where
  "child_of path prefix =
    (if take (length prefix) path \<noteq> prefix then None
     else let name = drop (length prefix) path; first = takeWhile (\<lambda>c. c \<noteq> CHR ''/'') name
          in if first = [] then None else Some (first, length first < length name))"

text \<open>The child that candidate \<open>i\<close> is of the directory with this prefix.\<close>

definition candidate_child :: "('f, 'w, 'v, 'd) vfs \<Rightarrow> string \<Rightarrow> nat \<Rightarrow> (string \<times> bool \<times> vnode_type) option" where
  "candidate_child s prefix i =
    (case candidate_at s i of
       None \<Rightarrow> None
     | Some (path, type) \<Rightarrow> map_option (\<lambda>(name, nested). (name, nested, type)) (child_of path prefix))"

definition is_directory :: "('f, 'w, 'v, 'd) vfs \<Rightarrow> string \<Rightarrow> bool" where
  "is_directory s path \<longleftrightarrow>
    path = ''/'' \<or>
    (path \<noteq> [] \<and> last path \<noteq> CHR ''/'' \<and>
     (case dir_prefix path of
        None \<Rightarrow> False
      | Some prefix \<Rightarrow> \<exists>i \<in> set [0..<candidate_total s]. candidate_child s prefix i \<noteq> None))"

definition dir_vnode :: "string \<Rightarrow> ('f, 'w, 'v, 'd) vfs \<Rightarrow> 'v vnode res \<times> ('f, 'w, 'v, 'd) vfs" where
  "dir_vnode path s =
    (if length path \<ge> VNODE_PATH_SIZE then (Inl ENAMETOOLONG, s)
     else case find (\<lambda>i. g_dirs s ! i = path) [0..<length (g_dirs s)] of
            Some i \<Rightarrow> (Inr (V_dir i), s)
          | None \<Rightarrow>
              if length (g_dirs s) < VFS_MAX_DIRS
              then (Inr (V_dir (length (g_dirs s))),
                    s\<lparr>g_dirs := g_dirs s @ [path], v_refs := (v_refs s)(V_dir (length (g_dirs s)) := 1)\<rparr>)
              else (Inl ENOSPC, s))"

text \<open>Candidate \<open>i\<close> gives an entry of its own: its name fits and no earlier candidate has it.\<close>

definition entry_ok :: "('f, 'w, 'v, 'd) vfs \<Rightarrow> string \<Rightarrow> nat \<Rightarrow> bool" where
  "entry_ok s prefix i \<longleftrightarrow>
    (case candidate_child s prefix i of
       None \<Rightarrow> False
     | Some (name, _) \<Rightarrow>
         length name < D_NAME_SIZE \<and>
         \<not> (\<exists>j \<in> set [0..<i]. map_option fst (candidate_child s prefix j) = Some name))"

fun vfs_readdir_loop :: "('f, 'w, 'v, 'd) vfs \<Rightarrow> string \<Rightarrow> nat \<Rightarrow> nat list \<Rightarrow> nat \<Rightarrow> dirent option" where
  "vfs_readdir_loop s prefix index [] seen = None"
| "vfs_readdir_loop s prefix index (i # is) seen =
    (if \<not> entry_ok s prefix i then vfs_readdir_loop s prefix index is seen
     else if seen \<noteq> index then vfs_readdir_loop s prefix index is (seen + 1)
     else case candidate_child s prefix i of
            None \<Rightarrow> None
          | Some (name, nested, type) \<Rightarrow>
              Some \<lparr>d_ino = i + 1, d_off = index + 1, d_type = (if nested then VNODE_DIR else type), d_name = name\<rparr>)"

fun vnode_type_of :: "('w, 'v) vnode_ops \<Rightarrow> 'v vnode \<Rightarrow> 'w \<Rightarrow> vnode_type" where
  "vnode_type_of ops V_root w = VNODE_DIR"
| "vnode_type_of ops V_console w = VNODE_CHAR"
| "vnode_type_of ops V_null w = VNODE_CHAR"
| "vnode_type_of ops V_zero w = VNODE_CHAR"
| "vnode_type_of ops (V_disk d) w = VNODE_BLOCK"
| "vnode_type_of ops (V_tmp Tmp_dir) w = VNODE_DIR"
| "vnode_type_of ops (V_tmp (Tmp_file i)) w = VNODE_FILE"
| "vnode_type_of ops (V_proc i) w = VNODE_FILE"
| "vnode_type_of ops (V_memfile i) w = VNODE_FILE"
| "vnode_type_of ops (V_dir i) w = VNODE_DIR"
| "vnode_type_of ops (V_mnt v) w = vo_type ops v w"

fun vnode_path :: "('w, 'v) vnode_ops \<Rightarrow> 'v vnode \<Rightarrow> ('f, 'w, 'v, 'd) vfs \<Rightarrow> string" where
  "vnode_path ops (V_tmp Tmp_dir) s = ''/tmp''"
| "vnode_path ops (V_tmp (Tmp_file i)) s = tf_path (v_tmp s i)"
| "vnode_path ops (V_proc i) s = fst (procfs_table ! i)"
| "vnode_path ops (V_memfile i) s = mf_path (g_memfiles s ! i)"
| "vnode_path ops (V_dir i) s = g_dirs s ! i"
| "vnode_path ops (V_mnt v) s = vo_path ops v (v_world s)"
| "vnode_path ops _ s = []"

text \<open>The result is the entry, or none at the end of the directory.\<close>

definition vfs_readdir ::
    "('w, 'v) vnode_ops \<Rightarrow> 'v vnode \<Rightarrow> nat \<Rightarrow> ('f, 'w, 'v, 'd) vfs \<Rightarrow> dirent option res \<times> ('f, 'w, 'v, 'd) vfs" where
  "vfs_readdir ops dir index s =
    (let path = (if dir = V_root then ''/'' else vnode_path ops dir s)
     in if vnode_type_of ops dir (v_world s) \<noteq> VNODE_DIR then (Inl ENOTDIR, s)
        else case (dir, vo_readdir_at ops) of
               (V_mnt v, Some f) \<Rightarrow> (let (r, w) = f v index (v_world s) in (r, s\<lparr>v_world := w\<rparr>))
             | _ \<Rightarrow>
                 if path = [] then (Inl EINVAL, s)
                 else if path = ''/tmp''
                 then (Inr (map_option (\<lambda>d. \<lparr>d_ino = td_ino d, d_off = td_off d, d_type = VNODE_FILE, d_name = td_name d\<rparr>)
                        (tmpfs_list index (v_tmp s))), s)
                 else case dir_prefix path of
                        None \<Rightarrow> (Inl ENAMETOOLONG, s)
                      | Some prefix \<Rightarrow> (Inr (vfs_readdir_loop s prefix index [0..<candidate_total s] 0), s))"

section \<open>Opening and closing\<close>

text \<open>The \<open>open\<close> operation of the vnodes the file system itself has.\<close>

fun vnode_open :: "'v vnode \<Rightarrow> int \<Rightarrow> ('f, 'w, 'v, 'd) vfs \<Rightarrow> unit res \<times> ('f, 'w, 'v, 'd) vfs" where
  "vnode_open V_root flags s = (if rdonly flags then Inr () else Inl EISDIR, s)"
| "vnode_open (V_dir i) flags s = (if rdonly flags then Inr () else Inl EISDIR, s)"
| "vnode_open (V_tmp v) flags s = (let (r, fs) = tmp_vnode_open v flags (v_tmp s) in (r, s\<lparr>v_tmp := fs\<rparr>))"
| "vnode_open (V_proc i) flags s = (procfs_open i flags, s)"
| "vnode_open _ flags s = (Inr (), s)"

text \<open>The lookup without mounts: an error of tmpfs ends it, nothing found may still be a directory.\<close>

definition vfs_lookup ::
    "string \<Rightarrow> int \<Rightarrow> ('f, 'w, 'v, 'd) vfs \<Rightarrow> 'v vnode option res \<times> ('f, 'w, 'v, 'd) vfs" where
  "vfs_lookup path flags s =
    (if path = ''/'' then (Inr (Some V_root), s)
     else if path = ''/dev/console'' \<or> path = ''/dev/tty'' then (Inr (Some V_console), s)
     else if path = ''/dev/null'' then (Inr (Some V_null), s)
     else if path = ''/dev/zero'' then (Inr (Some V_zero), s)
     else case disk_lookup path (v_blk s) of
            Some dev \<Rightarrow> (Inr (Some (V_disk dev)), s)
          | None \<Rightarrow>
              if tmpfs_owns path
              then (case tmpfs_lookup path flags (v_tmp s) of
                      (Inl e, fs) \<Rightarrow> (Inl e, s\<lparr>v_tmp := fs\<rparr>)
                    | (Inr v, fs) \<Rightarrow>
                        (Inr (Some (V_tmp v)),
                         s\<lparr>v_tmp := fs,
                           v_refs := (case v of
                                        Tmp_file i \<Rightarrow> if tf_used (v_tmp s i) then v_refs s else (v_refs s)(V_tmp v := 1)
                                      | Tmp_dir \<Rightarrow> v_refs s)\<rparr>))
              else case procfs_lookup path of
                     Some i \<Rightarrow> (Inr (Some (V_proc i)), s)
                   | None \<Rightarrow> (Inr (map_option V_memfile (memfile_find path (g_memfiles s))), s))"

definition vfs_finish_open ::
    "'v vnode \<Rightarrow> int \<Rightarrow> ('f, 'w, 'v, 'd) vfs \<Rightarrow> 'v vnode res \<times> ('f, 'w, 'v, 'd) vfs" where
  "vfs_finish_open v flags s =
    (case vnode_open v flags s of
       (Inl e, s1) \<Rightarrow> (Inl e, s1)
     | (Inr _, s1) \<Rightarrow> (Inr v, s1\<lparr>v_refs := (v_refs s1)(v := v_refs s1 v + 1)\<rparr>))"

definition vfs_open_err ::
    "string \<Rightarrow> int \<Rightarrow> ('f, 'w, 'v, 'd) vfs \<Rightarrow> 'v vnode res \<times> ('f, 'w, 'v, 'd) vfs" where
  "vfs_open_err path flags s =
    (case mount_find (g_mounts s) path of
       Some (i, rel) \<Rightarrow>
         (case fo_open (vm_ops (the (g_mounts s ! i))) of
            None \<Rightarrow> (Inl ENOTSUP, s)
          | Some f \<Rightarrow>
              (case f (vm_fs (the (g_mounts s ! i))) rel flags (v_world s) of
                 (Inl e, w) \<Rightarrow> (Inl e, s\<lparr>v_world := w\<rparr>) | (Inr v, w) \<Rightarrow> (Inr (V_mnt v), s\<lparr>v_world := w\<rparr>)))
     | None \<Rightarrow>
         (case vfs_lookup path flags s of
            (Inl e, s1) \<Rightarrow> (Inl e, s1)
          | (Inr (Some v), s1) \<Rightarrow> vfs_finish_open v flags s1
          | (Inr None, s1) \<Rightarrow>
              if is_directory s1 path
              then (case dir_vnode path s1 of
                      (Inl e, s2) \<Rightarrow> (Inl e, s2) | (Inr v, s2) \<Rightarrow> vfs_finish_open v flags s2)
              else (Inl ENOENT, s1)))"

definition vfs_unlink :: "string \<Rightarrow> ('f, 'w, 'v, 'd) vfs \<Rightarrow> unit res \<times> ('f, 'w, 'v, 'd) vfs" where
  "vfs_unlink path s =
    (case mount_find (g_mounts s) path of
       Some (i, rel) \<Rightarrow>
         (let (r, w) = mount_call fo_unlink (the (g_mounts s ! i)) rel (v_world s) in (r, s\<lparr>v_world := w\<rparr>))
     | None \<Rightarrow>
         if tmpfs_owns path then (let (r, fs) = tmpfs_unlink path (v_tmp s) in (r, s\<lparr>v_tmp := fs\<rparr>))
         else (Inl EROFS, s))"

definition vfs_close ::
    "('w, 'v) vnode_ops \<Rightarrow> 'v vnode \<Rightarrow> ('f, 'w, 'v, 'd) vfs \<Rightarrow> unit res \<times> ('f, 'w, 'v, 'd) vfs" where
  "vfs_close ops v s =
    (let (r, s1) = (case v of V_mnt x \<Rightarrow> (let (r, w) = vo_close ops x (v_world s) in (r, s\<lparr>v_world := w\<rparr>))
                    | _ \<Rightarrow> (Inr (), s))
     in (r, s1\<lparr>v_refs := (v_refs s1)(v := v_refs s1 v - 1)\<rparr>))"

fun vnode_release :: "('w, 'v) vnode_ops \<Rightarrow> 'v vnode \<Rightarrow> ('f, 'w, 'v, 'd) vfs \<Rightarrow> ('f, 'w, 'v, 'd) vfs" where
  "vnode_release ops (V_tmp v) s = s\<lparr>v_tmp := tmp_release v (v_tmp s)\<rparr>"
| "vnode_release ops (V_mnt v) s = s\<lparr>v_world := vo_release ops v (v_world s)\<rparr>"
| "vnode_release ops _ s = s"

definition vfs_release :: "('w, 'v) vnode_ops \<Rightarrow> 'v vnode \<Rightarrow> ('f, 'w, 'v, 'd) vfs \<Rightarrow> ('f, 'w, 'v, 'd) vfs" where
  "vfs_release ops v s = vnode_release ops v (snd (vfs_close ops v s))"

section \<open>Reading and writing\<close>

definition bytes_of :: "string \<Rightarrow> u8 list" where
  "bytes_of s = map (\<lambda>c. of_nat (of_char c)) s"

text \<open>\<open>env\<close> is what the generators of procfs see; a read of procfs whose text cannot be made has no result.\<close>

fun vfs_read ::
    "('w, 'v) vnode_ops \<Rightarrow> 'd driver \<Rightarrow> proc_env \<Rightarrow> 'v vnode \<Rightarrow> nat \<Rightarrow> int \<Rightarrow> ('f, 'w, 'v, 'd) vfs \<Rightarrow>
     u8 list res option \<times> ('f, 'w, 'v, 'd) vfs" where
  "vfs_read ops drv env V_console count offset s =
    (let (cs, keys) = console_read count (v_keys s) in (Some (Inr cs), s\<lparr>v_keys := keys\<rparr>))"
| "vfs_read ops drv env V_null count offset s = (Some (Inr []), s)"
| "vfs_read ops drv env V_zero count offset s = (Some (Inr (replicate count 0)), s)"
| "vfs_read ops drv env (V_disk d) count offset s =
    (let (r, b) = disk_read drv d count offset (v_blk s) in (Some r, s\<lparr>v_blk := b\<rparr>))"
| "vfs_read ops drv env (V_tmp Tmp_dir) count offset s =
    (Some (map_sum id bytes_of (dir_read count offset (v_tmp s))), s)"
| "vfs_read ops drv env (V_tmp (Tmp_file i)) count offset s = (Some (file_read i count offset (v_tmp s)), s)"
| "vfs_read ops drv env (V_proc i) count offset s =
    (let (r, p) = procfs_read env i count offset (v_proc s) in (map_option (map_sum id bytes_of) r, s\<lparr>v_proc := p\<rparr>))"
| "vfs_read ops drv env (V_memfile i) count offset s =
    (Some (memfile_read (mf_data (g_memfiles s ! i)) count offset), s)"
| "vfs_read ops drv env (V_mnt v) count offset s =
    (case vo_read ops of
       None \<Rightarrow> (Some (Inl EBADF), s)
     | Some f \<Rightarrow> (let (r, w) = f v count offset (v_world s) in (Some r, s\<lparr>v_world := w\<rparr>)))"
| "vfs_read ops drv env _ count offset s = (Some (Inl EISDIR), s)"

fun vfs_write ::
    "('w, 'v) vnode_ops \<Rightarrow> 'd driver \<Rightarrow> (nat \<Rightarrow> u8 list option) \<Rightarrow> 'v vnode \<Rightarrow> u8 list \<Rightarrow> int \<Rightarrow> ('f, 'w, 'v, 'd) vfs \<Rightarrow>
     nat res \<times> ('f, 'w, 'v, 'd) vfs" where
  "vfs_write ops drv heap V_console buffer offset s = (Inr (length buffer), s\<lparr>v_screen := v_screen s @ buffer\<rparr>)"
| "vfs_write ops drv heap V_null buffer offset s = (Inr (length buffer), s)"
| "vfs_write ops drv heap V_zero buffer offset s = (Inr (length buffer), s)"
| "vfs_write ops drv heap (V_disk d) buffer offset s =
    (let (r, b) = disk_write drv d buffer offset (v_blk s) in (r, s\<lparr>v_blk := b\<rparr>))"
| "vfs_write ops drv heap (V_tmp (Tmp_file i)) buffer offset s =
    (let (r, fs) = file_write heap i buffer offset (v_tmp s) in (r, s\<lparr>v_tmp := fs\<rparr>))"
| "vfs_write ops drv heap (V_mnt v) buffer offset s =
    (case vo_write ops of
       None \<Rightarrow> (Inl EBADF, s)
     | Some f \<Rightarrow> (let (r, w) = f v buffer offset (v_world s) in (r, s\<lparr>v_world := w\<rparr>)))"
| "vfs_write ops drv heap _ buffer offset s = (Inl EBADF, s)"

section \<open>Metadata\<close>

abbreviation TACH_S_IFLNK :: nat where "TACH_S_IFLNK \<equiv> 0xA000"
abbreviation TACH_S_IFREG :: nat where "TACH_S_IFREG \<equiv> 0x8000"
abbreviation TACH_S_IFBLK :: nat where "TACH_S_IFBLK \<equiv> 0x6000"
abbreviation TACH_S_IFDIR :: nat where "TACH_S_IFDIR \<equiv> 0x4000"
abbreviation TACH_S_IFCHR :: nat where "TACH_S_IFCHR \<equiv> 0x2000"
abbreviation TACH_S_IFIFO :: nat where "TACH_S_IFIFO \<equiv> 0x1000"

record tach_stat =
  st_mode :: nat
  st_nlink :: nat
  st_size :: nat

text \<open>Permissions of regular files: octal 755, 444 and 644.\<close>

definition file_perm :: "string \<Rightarrow> nat" where
  "file_perm path =
    (if take 5 path = ''/bin/'' \<or> take 6 path = ''/sbin/'' then 0x1ED
     else if take 6 path = ''/proc/'' then 0x124 else 0x1A4)"

fun stat_mode :: "vnode_type \<Rightarrow> string \<Rightarrow> nat" where
  "stat_mode VNODE_DIR path = TACH_S_IFDIR + 0x1ED"
| "stat_mode VNODE_CHAR path = TACH_S_IFCHR + 0x1B6"
| "stat_mode VNODE_BLOCK path = TACH_S_IFBLK + 0x1B0"
| "stat_mode VNODE_LINK path = TACH_S_IFLNK + 0x1FF"
| "stat_mode VNODE_PIPE path = TACH_S_IFIFO + 0x180"
| "stat_mode VNODE_FILE path = TACH_S_IFREG + file_perm path"

fun vnode_size :: "('w, 'v) vnode_ops \<Rightarrow> 'v vnode \<Rightarrow> ('f, 'w, 'v, 'd) vfs \<Rightarrow> nat" where
  "vnode_size ops (V_disk d) s = bd_sectors (g_devinfo (v_blk s) d) * BLK_SECTOR_SIZE"
| "vnode_size ops (V_tmp (Tmp_file i)) s = tf_size (v_tmp s i)"
| "vnode_size ops (V_memfile i) s = length (mf_data (g_memfiles s ! i))"
| "vnode_size ops (V_mnt v) s = vo_size ops v (v_world s)"
| "vnode_size ops _ s = 0"

definition vfs_stat_vnode :: "('w, 'v) vnode_ops \<Rightarrow> 'v vnode \<Rightarrow> ('f, 'w, 'v, 'd) vfs \<Rightarrow> tach_stat" where
  "vfs_stat_vnode ops v s =
    (let type = vnode_type_of ops v (v_world s)
     in \<lparr>st_mode = stat_mode type (vnode_path ops v s), st_nlink = (if type = VNODE_DIR then 2 else 1),
         st_size = (if type = VNODE_DIR then 0 else vnode_size ops v s)\<rparr>)"

definition vfs_stat ::
    "('w, 'v) vnode_ops \<Rightarrow> string \<Rightarrow> ('f, 'w, 'v, 'd) vfs \<Rightarrow> tach_stat res \<times> ('f, 'w, 'v, 'd) vfs" where
  "vfs_stat ops path s =
    (case vfs_open_err path O_RDONLY s of
       (Inl e, s1) \<Rightarrow> (Inl e, s1)
     | (Inr v, s1) \<Rightarrow> (Inr (vfs_stat_vnode ops v s1), vfs_release ops v s1))"

section \<open>Initialisation\<close>

text \<open>The other parts of the state have initialisations of their own.\<close>

definition vfs_init :: "('f, 'w, 'v, 'd) vfs \<Rightarrow> ('f, 'w, 'v, 'd) vfs" where
  "vfs_init s =
    s\<lparr>g_mounts := replicate VFS_MAX_MOUNTS None, g_memfiles := [], g_dirs := [],
      v_refs := (\<lambda>v. case v of
        V_root \<Rightarrow> 1 | V_console \<Rightarrow> 1 | V_null \<Rightarrow> 1 | V_zero \<Rightarrow> 1 | V_memfile _ \<Rightarrow> 0 | V_dir _ \<Rightarrow> 0 | _ \<Rightarrow> v_refs s v)\<rparr>"

end
