(* ===== verification/VfsSpec.thy ===== *)
theory VfsSpec
  imports Vfs "HOL-Library.Sublist"
begin

text \<open>
  The mount table of the virtual file system: its shape after any mounts and unmounts, and
  which mount a path is routed to.
\<close>

section \<open>The mount table\<close>

text \<open>The tables that mounting and unmounting can make from the empty one.\<close>

inductive mounts_reach :: "('f, 'w, 'v) mounts \<Rightarrow> bool" where
  reach_init: "mounts_reach (replicate VFS_MAX_MOUNTS None)"
| reach_mount: "mounts_reach ms \<Longrightarrow> NUL \<notin> set path \<Longrightarrow> mounts_reach (snd (vfs_mount_fs path ops fs ms))"
| reach_umount: "mounts_reach ms \<Longrightarrow> mounts_reach (fst (snd (vfs_umount path ms w)))"

definition mount_path_ok :: "string \<Rightarrow> bool" where
  "mount_path_ok path \<longleftrightarrow>
    length path < VFS_MOUNT_PATH_MAX \<and> (\<exists>st. st \<noteq> [] \<and> list_all proper_part st \<and> path = path_of st)"

definition mounts_ok :: "('f, 'w, 'v) mounts \<Rightarrow> bool" where
  "mounts_ok ms \<longleftrightarrow>
    length ms = VFS_MAX_MOUNTS \<and> (\<forall>m. Some m \<in> set ms \<longrightarrow> mount_path_ok (vm_path m)) \<and>
    (\<forall>i j a b. i < length ms \<longrightarrow> j < length ms \<longrightarrow> ms ! i = Some a \<longrightarrow> ms ! j = Some b \<longrightarrow>
      vm_path a = vm_path b \<longrightarrow> i = j)"

lemma find_index_Some:
  "find P [0..<n] = Some i \<Longrightarrow> i < n \<and> P i"
  by (auto simp: find_Some_iff)

lemma find_index_None: "find P [0..<n] = None \<longleftrightarrow> (\<forall>i < n. \<not> P i)"
  by (auto simp: find_None_iff)

lemma mounts_ok_umount:
  assumes "mounts_ok ms"
  shows "mounts_ok (ms[i := None])"
proof -
  have old: "ms ! j = Some a" if "j < length ms" "ms[i := None] ! j = Some a" for j a
    using that by (cases "j = i") simp_all
  have "Some m \<in> set ms" if "Some m \<in> set (ms[i := None])" for m
    using that set_update_subset_insert [of ms i None] by blast
  then show ?thesis using assms old unfolding mounts_ok_def length_list_update by blast
qed

lemma mounts_ok_mount:
  assumes "mounts_ok ms" "mount_path_ok (vm_path m)" "\<And>x. Some x \<in> set ms \<Longrightarrow> vm_path x \<noteq> vm_path m"
  shows "mounts_ok (ms[i := Some m])"
proof -
  have new: "vm_path m \<noteq> vm_path x" if "j < length ms" "ms ! j = Some x" for j x
    using assms(3) [of x] that by (metis nth_mem)
  have "mount_path_ok (vm_path x)" if "Some x \<in> set (ms[i := Some m])" for x
    using that assms(1,2) set_update_subset_insert [of ms i "Some m"] unfolding mounts_ok_def by blast
  moreover have "j = k" if "j < length ms" "k < length ms" "ms[i := Some m] ! j = Some a" "ms[i := Some m] ! k = Some b"
      "vm_path a = vm_path b" for j k a b
  proof -
    have old: "ms ! l = Some x" if "l < length ms" "l \<noteq> i" "ms[i := Some m] ! l = Some x" for l x
      using that by simp
    have at: "x = m" if "i < length ms" "ms[i := Some m] ! i = Some x" for x using that by simp
    from that old at new assms(1) show ?thesis unfolding mounts_ok_def by (metis (full_types))
  qed
  ultimately show ?thesis using assms(1) unfolding mounts_ok_def length_list_update by blast
qed

lemma normal_mount_path:
  assumes "NUL \<notin> set path" "char_at path 0 = CHR ''/''" "2 \<le> length path" "length path < VFS_MOUNT_PATH_MAX"
    and "vfs_normalize_path (path @ replicate (VFS_MOUNT_PATH_MAX - length path) NUL) = Inr norm" "cstr norm = path"
  shows "mount_path_ok path"
proof -
  define buf where "buf = path @ replicate (VFS_MOUNT_PATH_MAX - length path) NUL"
  have "NUL \<in> set buf" "char_at buf 0 = CHR ''/''" using assms(2-4) by (auto simp: buf_def char_at_def nth_append)
  then obtain out st where "vfs_normalize_path buf = Inr out" "list_all proper_part st" "cstr out = path_of st"
    using normalize_spec by metis
  then have "list_all proper_part st" "path = path_of st" using assms(5,6) by (simp_all add: buf_def)
  moreover from this have "st \<noteq> []" using assms(3) by (auto simp: path_of_def)
  ultimately show ?thesis using assms(4) unfolding mount_path_ok_def by blast
qed

lemma vfs_mount_fs_ok:
  assumes "mounts_ok ms" "NUL \<notin> set path"
  shows "mounts_ok (snd (vfs_mount_fs path ops fs ms))"
  using assms normal_mount_path [of path]
  by (auto simp: vfs_mount_fs_def not_le not_less intro!: mounts_ok_mount split: sum.splits option.splits)

lemma vfs_umount_ok: "mounts_ok ms \<Longrightarrow> mounts_ok (fst (snd (vfs_umount path ms w)))"
  by (auto simp: vfs_umount_def Let_def mounts_ok_umount split: option.splits sum.splits prod.splits)

lemma mounts_reach_ok: "mounts_reach ms \<Longrightarrow> mounts_ok ms"
proof (induction rule: mounts_reach.induct)
  case reach_init
  show ?case by (simp add: mounts_ok_def)
qed (simp_all add: vfs_mount_fs_ok vfs_umount_ok)

section \<open>Routing\<close>

text \<open>The scan has a result of its own: a mount of the table that matches and is longer than the bound.\<close>

definition scan_hit :: "string \<Rightarrow> ('f, 'w, 'v) mounts \<Rightarrow> nat \<Rightarrow> nat \<Rightarrow> nat option \<Rightarrow> nat \<Rightarrow> bool" where
  "scan_hit path ms i bl r n \<longleftrightarrow>
    (\<exists>k m. k < length ms \<and> ms ! k = Some m \<and> r = Some (i + k) \<and> mount_match (vm_path m) path \<and>
      n = length (vm_path m) \<and> bl < n)"

lemma scan_hit_here:
  "mount_match (vm_path m) path \<Longrightarrow> bl < length (vm_path m) \<Longrightarrow>
   scan_hit path (Some m # ms) i bl (Some i) (length (vm_path m))"
  unfolding scan_hit_def by (intro exI [of _ 0] exI [of _ m]) simp

lemma scan_hit_later:
  assumes "scan_hit path ms (i + 1) bl r n" "bl' \<le> bl"
  shows "scan_hit path (x # ms) i bl' r n"
proof -
  obtain k m where "k < length ms" "ms ! k = Some m" "r = Some (i + 1 + k)" "mount_match (vm_path m) path"
      "n = length (vm_path m)" "bl < n"
    using assms(1) unfolding scan_hit_def by blast
  with assms(2) show ?thesis unfolding scan_hit_def by (intro exI [of _ "Suc k"] exI [of _ m]) simp
qed

lemma mount_scan_spec:
  "mount_scan path ms i best bl = (r, n) \<Longrightarrow>
   bl \<le> n \<and> (\<forall>m. Some m \<in> set ms \<longrightarrow> mount_match (vm_path m) path \<longrightarrow> length (vm_path m) \<le> n) \<and>
   ((r = best \<and> n = bl) \<or> scan_hit path ms i bl r n)"
proof (induction path ms i best bl rule: mount_scan.induct)
  case (2 path ms i best bl)
  then show ?case by (auto intro: scan_hit_later)
next
  case (3 path m ms i best bl)
  show ?case
  proof (cases "mount_match (vm_path m) path \<and> length (vm_path m) > bl")
    case True
    with "3.IH"(1) "3.prems" show ?thesis by (auto intro: scan_hit_later scan_hit_here)
  next
    case False
    with "3.IH"(2) "3.prems" show ?thesis by (auto intro: scan_hit_later)
  qed
qed auto

text \<open>On canonical paths, lying below a mount point is being an extension of its components.\<close>

lemma path_of_append:
  "a \<noteq> [] \<Longrightarrow> path_of (a @ c) = path_of a @ concat (map (\<lambda>x. CHR ''/'' # x) c)"
  by (simp add: path_of_def)

lemma mount_match_prefix:
  assumes "list_all proper_part a" "a \<noteq> []" "list_all proper_part b"
  shows "mount_match (path_of a) (path_of b) \<longleftrightarrow> prefix a b"
proof
  assume "prefix a b"
  then obtain c where b: "b = a @ c" by (auto simp: prefix_def)
  show "mount_match (path_of a) (path_of b)"
    unfolding mount_match_def b path_of_append [OF assms(2)]
    by (cases c) (auto simp: char_at_def nth_append)
next
  assume m: "mount_match (path_of a) (path_of b)"
  define r where "r = drop (length (path_of a)) (path_of b)"
  have eq: "path_of b = path_of a @ r"
    using m append_take_drop_id [of "length (path_of a)" "path_of b"] by (simp add: mount_match_def r_def)
  show "prefix a b"
  proof (cases r)
    case Nil
    with eq have "path_parts (path_of b) = path_parts (path_of a)" by simp
    then show ?thesis using assms by (simp add: path_parts_path_of)
  next
    case (Cons x r')
    have "char_at (path_of b) (length (path_of a)) = x" using eq Cons by (simp add: char_at_def nth_append)
    moreover have "x \<noteq> NUL" using path_of_no_NUL [OF assms(3)] eq Cons by auto
    ultimately have "x = CHR ''/''" using m by (simp add: mount_match_def)
    with eq Cons have "path_parts (path_of b) = path_parts (path_of a) @ path_parts r'" by (simp add: path_parts_append)
    then show ?thesis using assms by (simp add: path_parts_path_of)
  qed
qed

lemma mount_rel:
  assumes "list_all proper_part b" "prefix a b" "a \<noteq> []"
  shows "(if char_at (path_of b) (length (path_of a)) = NUL then ''/'' else drop (length (path_of a)) (path_of b)) =
    path_of (drop (length a) b)"
proof -
  obtain c where b: "b = a @ c" using assms(2) by (auto simp: prefix_def)
  have "CHR ''/'' \<noteq> NUL" by (simp add: NUL_def)
  then show ?thesis unfolding b path_of_append [OF assms(3)]
    by (cases c) (simp_all add: char_at_def path_of_def nth_append)
qed

lemma path_of_longer:
  "prefix a b \<Longrightarrow> a \<noteq> [] \<Longrightarrow> length (path_of b) \<le> length (path_of a) \<Longrightarrow> a = b"
  by (auto simp: prefix_def path_of_append)

lemma mount_components:
  assumes "mounts_ok ms" "Some m \<in> set ms"
  shows "list_all proper_part (path_parts (vm_path m)) \<and> path_parts (vm_path m) \<noteq> [] \<and>
    path_of (path_parts (vm_path m)) = vm_path m"
proof -
  obtain st where "st \<noteq> []" "list_all proper_part st" "vm_path m = path_of st"
    using assms unfolding mounts_ok_def mount_path_ok_def by blast
  then show ?thesis by (simp add: path_parts_path_of)
qed

lemma mount_match_components:
  assumes "mounts_ok ms" "Some m \<in> set ms" "list_all proper_part p"
  shows "mount_match (vm_path m) (path_of p) \<longleftrightarrow> prefix (path_parts (vm_path m)) p"
  using mount_match_prefix [of "path_parts (vm_path m)" p] mount_components [OF assms(1,2)] assms(3) by simp

lemma mount_find_Some:
  assumes "mount_find ms path = Some (i, rel)"
  obtains m where "i < length ms" "ms ! i = Some m" "mount_match (vm_path m) path"
    "rel = (if char_at path (length (vm_path m)) = NUL then ''/'' else drop (length (vm_path m)) path)"
    "\<And>m'. Some m' \<in> set ms \<Longrightarrow> mount_match (vm_path m') path \<Longrightarrow> length (vm_path m') \<le> length (vm_path m)"
proof -
  obtain n where scan: "mount_scan path ms 0 None 0 = (Some i, n)"
      "rel = (if char_at path n = NUL then ''/'' else drop n path)"
    using assms by (auto simp: mount_find_def split: prod.splits option.splits)
  from mount_scan_spec [OF scan(1)] scan(2) that show thesis by (auto simp: scan_hit_def)
qed

lemma mount_find_None:
  assumes "mount_find ms path = None" "Some m \<in> set ms" "vm_path m \<noteq> []"
  shows "\<not> mount_match (vm_path m) path"
proof -
  obtain n where scan: "mount_scan path ms 0 None 0 = (None, n)"
    using assms(1) by (auto simp: mount_find_def split: prod.splits option.splits)
  have "n = 0" using mount_scan_spec [OF scan] by (auto simp: scan_hit_def)
  with mount_scan_spec [OF scan] assms(2,3) show ?thesis by auto
qed

text \<open>Mounting on a canonical path that is not yet a mount point takes the first free entry.\<close>

lemma vfs_mount_fs_free:
  assumes "mount_path_ok path" "\<And>m. Some m \<in> set ms \<Longrightarrow> vm_path m \<noteq> path" "find (\<lambda>i. ms ! i = None) [0..<length ms] = Some i"
  shows "vfs_mount_fs path ops fs ms = (Inr (), ms[i := Some \<lparr>vm_path = path, vm_ops = ops, vm_fs = fs\<rparr>])"
proof -
  obtain st where st: "st \<noteq> []" "list_all proper_part st" "path = path_of st" "length path < VFS_MOUNT_PATH_MAX"
    using assms(1) unfolding mount_path_ok_def by blast
  have two: "2 \<le> length path" using path_of_length [OF st(2)] st(1,3) by simp
  define buf where "buf = path @ replicate (VFS_MOUNT_PATH_MAX - length path) NUL"
  have hd: "char_at path 0 = CHR ''/''" using st(1,3) by (cases st) (simp_all add: path_of_def char_at_def)
  then have buf: "NUL \<in> set buf" "char_at buf 0 = CHR ''/''"
    using st(4) two by (auto simp: buf_def char_at_def nth_append split: if_splits)
  have "\<forall>c \<in> set path. c \<noteq> NUL" using path_of_no_NUL [OF st(2)] st(3) by auto
  then have "cstr buf = path" by (simp add: buf_def cstr_def takeWhile_append2 takeWhile_eq_Nil_iff hd_replicate)
  moreover obtain out where "vfs_normalize_path buf = Inr out" "cstr out = norm_path (cstr buf)"
    using normalize_spec [OF buf] unfolding norm_path_def by metis
  ultimately have "vfs_normalize_path buf = Inr out" "cstr out = path" using norm_path_of [OF st(2)] st(3) by simp_all
  moreover have "\<not> (\<exists>m \<in> set ms. case m of None \<Rightarrow> False | Some x \<Rightarrow> vm_path x = path)"
    using assms(2) by (auto split: option.splits)
  ultimately show ?thesis using hd two st(4) assms(3) unfolding vfs_mount_fs_def buf_def by simp
qed

section \<open>Properties of mounts\<close>

text \<open>
  (C35) Type of the mount table: whatever sequence of mounts and unmounts made it, it has its eight
  entries, every used one has a canonical path that is not the root and fits its buffer, and no two have the
  same path.
\<close>

theorem mount_table_well_formed:
  assumes "mounts_reach ms"
  shows "length ms = VFS_MAX_MOUNTS \<and>
    (\<forall>i m. i < VFS_MAX_MOUNTS \<and> ms ! i = Some m \<longrightarrow>
      length (vm_path m) < VFS_MOUNT_PATH_MAX \<and> norm_path (vm_path m) = vm_path m \<and> path_parts (vm_path m) \<noteq> []) \<and>
    (\<forall>i j m m'. i < VFS_MAX_MOUNTS \<and> j < VFS_MAX_MOUNTS \<and> i \<noteq> j \<and> ms ! i = Some m \<and> ms ! j = Some m' \<longrightarrow>
      vm_path m \<noteq> vm_path m')"
proof (intro conjI allI impI)
  have ok: "mounts_ok ms" using assms by (rule mounts_reach_ok)
  then show len: "length ms = VFS_MAX_MOUNTS" by (simp add: mounts_ok_def)
  show "vm_path m \<noteq> vm_path m'"
    if "i < VFS_MAX_MOUNTS \<and> j < VFS_MAX_MOUNTS \<and> i \<noteq> j \<and> ms ! i = Some m \<and> ms ! j = Some m'" for i j m m'
    using that ok len unfolding mounts_ok_def by metis
  fix i m
  assume "i < VFS_MAX_MOUNTS \<and> ms ! i = Some m"
  then have m: "Some m \<in> set ms" using len by (metis nth_mem)
  then show "length (vm_path m) < VFS_MOUNT_PATH_MAX" using ok unfolding mounts_ok_def mount_path_ok_def by blast
  show "norm_path (vm_path m) = vm_path m" "path_parts (vm_path m) \<noteq> []"
    using mount_components [OF ok m] norm_path_of [of "path_parts (vm_path m)"] by simp_all
qed

definition no_fsops :: "(unit, unit, unit) vfs_fsops" where
  "no_fsops = \<lparr>fo_open = None, fo_unlink = None, fo_mkdir = None, fo_rmdir = None, fo_rename = None, fo_sync = None,
    fo_unmount = None\<rparr>"

definition demo_mounts :: "(unit, unit, unit) mounts" where
  "demo_mounts = snd (vfs_mount_fs ''/mnt/usb'' no_fsops () (snd (vfs_mount_fs ''/mnt'' no_fsops () (replicate VFS_MAX_MOUNTS None))))"

lemma demo_mounts_reach: "mounts_reach demo_mounts"
  unfolding demo_mounts_def by (intro mounts_reach.intros) (simp_all add: NUL_def)

lemma demo_mounts_eq:
  "demo_mounts = [Some \<lparr>vm_path = ''/mnt'', vm_ops = no_fsops, vm_fs = ()\<rparr>,
    Some \<lparr>vm_path = ''/mnt/usb'', vm_ops = no_fsops, vm_fs = ()\<rparr>, None, None, None, None, None, None]"
proof -
  have ok: "mount_path_ok (path_of st)" if "st \<noteq> []" "list_all proper_part st" "length (path_of st) < 64" for st
    using that unfolding mount_path_ok_def VFS_MOUNT_PATH_MAX_def by blast
  have ok: "mount_path_ok ''/mnt''" "mount_path_ok ''/mnt/usb''"
    using ok [of "[''mnt'']"] ok [of "[''mnt'', ''usb'']"] by (simp_all add: path_of_def proper_part_def NUL_def)
  have empty: "replicate VFS_MAX_MOUNTS (None :: (unit, unit, unit) vfs_mount option) = [None, None, None, None, None, None, None, None]"
    by (simp add: VFS_MAX_MOUNTS_def numeral_eq_Suc)
  have "vfs_mount_fs ''/mnt'' no_fsops () (replicate VFS_MAX_MOUNTS None) =
      (Inr (), (replicate VFS_MAX_MOUNTS None)[0 := Some \<lparr>vm_path = ''/mnt'', vm_ops = no_fsops, vm_fs = ()\<rparr>])"
    by (rule vfs_mount_fs_free [OF ok(1)]) (simp_all add: empty upt_rec)
  moreover have "vfs_mount_fs ''/mnt/usb'' no_fsops () ((replicate VFS_MAX_MOUNTS None)[0 := Some \<lparr>vm_path = ''/mnt'', vm_ops = no_fsops, vm_fs = ()\<rparr>]) =
      (Inr (), ((replicate VFS_MAX_MOUNTS None)[0 := Some \<lparr>vm_path = ''/mnt'', vm_ops = no_fsops, vm_fs = ()\<rparr>])[1 := Some \<lparr>vm_path = ''/mnt/usb'', vm_ops = no_fsops, vm_fs = ()\<rparr>])"
    by (rule vfs_mount_fs_free [OF ok(2)]) (auto simp: empty upt_rec)
  ultimately show ?thesis by (simp add: demo_mounts_def empty)
qed

theorem mount_table_well_formed_witness:
  "length demo_mounts = 8 \<and> (\<exists>a b. demo_mounts ! 0 = Some a \<and> demo_mounts ! 1 = Some b \<and> vm_path a \<noteq> vm_path b \<and>
    norm_path (vm_path a) = vm_path a)"
proof -
  obtain a b where ab: "demo_mounts ! 0 = Some a" "demo_mounts ! 1 = Some b" by (simp add: demo_mounts_eq)
  note wf = mount_table_well_formed [OF demo_mounts_reach, unfolded VFS_MAX_MOUNTS_def]
  have "length demo_mounts = 8" using wf by simp
  moreover have "norm_path (vm_path a) = vm_path a" using wf ab(1) by (metis zero_less_numeral)
  moreover have "vm_path a \<noteq> vm_path b" using wf ab by (metis one_less_numeral_iff semiring_norm(76) zero_less_numeral zero_neq_one)
  ultimately show ?thesis using ab by blast
qed

text \<open>
  (C34) Routing: a canonical path goes to the mount whose components are its longest prefix, and
  the file system gets the path of the remaining components; it goes to none exactly when no mount point is
  the path or one of its ancestors.
\<close>

theorem mount_find_longest:
  assumes "mounts_reach ms" and "list_all proper_part p"
  shows "case mount_find ms (path_of p) of
      None \<Rightarrow> \<forall>m. Some m \<in> set ms \<longrightarrow> \<not> prefix (path_parts (vm_path m)) p
    | Some (i, rel) \<Rightarrow> i < VFS_MAX_MOUNTS \<and> (\<exists>m. ms ! i = Some m \<and> prefix (path_parts (vm_path m)) p \<and>
        rel = path_of (drop (length (path_parts (vm_path m))) p) \<and>
        (\<forall>j m'. j < VFS_MAX_MOUNTS \<longrightarrow> j \<noteq> i \<longrightarrow> ms ! j = Some m' \<longrightarrow> prefix (path_parts (vm_path m')) p \<longrightarrow>
          length (path_parts (vm_path m')) < length (path_parts (vm_path m))))"
proof (cases "mount_find ms (path_of p)")
  case None
  have ok: "mounts_ok ms" using assms(1) by (rule mounts_reach_ok)
  have "\<not> prefix (path_parts (vm_path m)) p" if "Some m \<in> set ms" for m
    using mount_find_None [OF None that] mount_match_components [OF ok that assms(2)] mount_components [OF ok that]
    by (metis path_parts_Nil)
  with None show ?thesis by simp
next
  case (Some hit)
  obtain i rel where hit: "hit = (i, rel)" by fastforce
  have ok: "mounts_ok ms" using assms(1) by (rule mounts_reach_ok)
  obtain m where m: "i < length ms" "ms ! i = Some m" "mount_match (vm_path m) (path_of p)"
      "rel = (if char_at (path_of p) (length (vm_path m)) = NUL then ''/'' else drop (length (vm_path m)) (path_of p))"
      "\<And>m'. Some m' \<in> set ms \<Longrightarrow> mount_match (vm_path m') (path_of p) \<Longrightarrow> length (vm_path m') \<le> length (vm_path m)"
    using mount_find_Some [OF Some [unfolded hit]] by blast
  have len: "length ms = VFS_MAX_MOUNTS" using ok by (simp add: mounts_ok_def)
  have in_ms: "Some m \<in> set ms" using m(1,2) by (metis nth_mem)
  note cm = mount_components [OF ok in_ms]
  have pre: "prefix (path_parts (vm_path m)) p" using m(3) mount_match_components [OF ok in_ms assms(2)] by simp
  have "length (path_parts (vm_path m')) < length (path_parts (vm_path m))"
    if "j < VFS_MAX_MOUNTS" "j \<noteq> i" "ms ! j = Some m'" "prefix (path_parts (vm_path m')) p" for j m'
  proof (rule ccontr)
    assume "\<not> length (path_parts (vm_path m')) < length (path_parts (vm_path m))"
    then have pp: "prefix (path_parts (vm_path m)) (path_parts (vm_path m'))"
      using pre that(4) by (auto intro: prefix_length_prefix)
    have in': "Some m' \<in> set ms" using that(1,3) len by (metis nth_mem)
    have "length (vm_path m') \<le> length (vm_path m)"
      using m(5) [OF in'] that(4) mount_match_components [OF ok in' assms(2)] by simp
    then have "path_parts (vm_path m) = path_parts (vm_path m')"
      using path_of_longer [OF pp] cm mount_components [OF ok in'] by metis
    then have "vm_path m = vm_path m'" using cm mount_components [OF ok in'] by metis
    with ok that m(1,2) len show False unfolding mounts_ok_def by metis
  qed
  moreover have "rel = path_of (drop (length (path_parts (vm_path m))) p)"
    using m(4) mount_rel [OF assms(2) pre] cm by metis
  ultimately show ?thesis using Some hit m(1,2) len pre by simp
qed

theorem mount_find_longest_witness:
  "\<exists>m. demo_mounts ! 1 = Some m \<and> vm_path m = ''/mnt/usb'' \<and>
    mount_find demo_mounts (path_of [''mnt'', ''usb'', ''a'']) = Some (1, path_of [''a''])"
proof -
  have "mount_find demo_mounts (path_of [''mnt'', ''usb'', ''a'']) = Some (1, ''/a'')"
    by (simp add: demo_mounts_eq mount_find_def mount_match_def char_at_def path_of_def NUL_def)
  moreover have "list_all proper_part [''mnt'', ''usb'', ''a'']" by (simp add: proper_part_def NUL_def)
  moreover have "path_of [''a''] = ''/a''" by (simp add: path_of_def)
  ultimately show ?thesis
    using mount_find_longest [OF demo_mounts_reach, of "[''mnt'', ''usb'', ''a'']"] by (auto simp: demo_mounts_eq)
qed

end
