(* ===== verification/VfsDir.thy ===== *)
theory VfsDir
  imports Vfs
begin

text \<open>
  What clients of the virtual file system see of it: a listing enumerates the directory, and a
  registered memory file is found, opened and read.
\<close>

section \<open>Directory listings\<close>

text \<open>
  What a directory contains: the first components, below it, of the paths that exist.  The paths
  that exist are the candidates, in the order of the code.
\<close>

definition below :: "string \<Rightarrow> string \<Rightarrow> string \<Rightarrow> string \<Rightarrow> bool" where
  "below prefix path c tail \<longleftrightarrow>
    path = prefix @ c @ tail \<and> c \<noteq> [] \<and> CHR ''/'' \<notin> set c \<and> (tail = [] \<or> hd tail = CHR ''/'')"

definition dir_children :: "('f, 'w, 'v, 'd) vfs \<Rightarrow> string \<Rightarrow> string set" where
  "dir_children s dir =
    {c. \<exists>i < candidate_total s. \<exists>path type tail. candidate_at s i = Some (path, type) \<and>
      below (if dir = ''/'' then ''/'' else dir @ ''/'') path c tail \<and> length c < D_NAME_SIZE}"

lemma child_of_below: "child_of path prefix = Some (c, nested) \<longleftrightarrow> (\<exists>tail. below prefix path c tail \<and> nested = (tail \<noteq> []))"
proof
  assume "child_of path prefix = Some (c, nested)"
  then have c: "take (length prefix) path = prefix" "c = takeWhile (\<lambda>x. x \<noteq> CHR ''/'') (drop (length prefix) path)" "c \<noteq> []"
      "nested = (length c < length (drop (length prefix) path))"
    by (auto simp: child_of_def Let_def split: if_splits)
  define tail where "tail = dropWhile (\<lambda>x. x \<noteq> CHR ''/'') (drop (length prefix) path)"
  have split: "drop (length prefix) path = c @ tail" unfolding c(2) tail_def by simp
  have "path = prefix @ c @ tail" using append_take_drop_id [of "length prefix" path] c(1) split by simp
  moreover have "CHR ''/'' \<notin> set c" unfolding c(2) by (auto dest: set_takeWhileD)
  moreover have "tail = [] \<or> hd tail = CHR ''/''" unfolding tail_def using hd_dropWhile by blast
  moreover have "nested = (tail \<noteq> [])" unfolding c(4) split by (cases tail) simp_all
  ultimately show "\<exists>tail. below prefix path c tail \<and> nested = (tail \<noteq> [])" using c(3) unfolding below_def by blast
next
  assume "\<exists>tail. below prefix path c tail \<and> nested = (tail \<noteq> [])"
  then obtain tail where b: "path = prefix @ c @ tail" "c \<noteq> []" "CHR ''/'' \<notin> set c" "tail = [] \<or> hd tail = CHR ''/''"
      "nested = (tail \<noteq> [])"
    unfolding below_def by blast
  have "takeWhile (\<lambda>x. x \<noteq> CHR ''/'') (c @ tail) = c"
    using b(3,4) by (cases tail) (auto simp: takeWhile_append2 takeWhile_eq_all_conv takeWhile_append)
  with b show "child_of path prefix = Some (c, nested)" by (simp add: child_of_def Let_def)
qed

lemma dir_prefix_path: "length path < VNODE_PATH_SIZE \<Longrightarrow> path \<noteq> [] \<Longrightarrow> hd path = CHR ''/'' \<Longrightarrow>
    dir_prefix path = Some (if path = ''/'' then ''/'' else path @ ''/'')"
  by (cases path; cases "tl path") (auto simp: dir_prefix_def VFS_PREFIX_MAX_def)

definition dir_entry :: "('f, 'w, 'v, 'd) vfs \<Rightarrow> string \<Rightarrow> nat \<Rightarrow> nat \<Rightarrow> dirent option" where
  "dir_entry s prefix index i =
    map_option (\<lambda>(name, nested, type). \<lparr>d_ino = i + 1, d_off = index + 1, d_type = (if nested then VNODE_DIR else type), d_name = name\<rparr>)
      (candidate_child s prefix i)"

lemma readdir_loop_nth:
  "seen \<le> index \<Longrightarrow> vfs_readdir_loop s prefix index is seen =
    (let es = filter (entry_ok s prefix) is
     in if index - seen < length es then dir_entry s prefix index (es ! (index - seen)) else None)"
proof (induction "is" arbitrary: seen)
  case (Cons i "is")
  show ?case
  proof (cases "entry_ok s prefix i \<and> seen \<noteq> index")
    case True
    with Cons.prems have "seen < index" by simp
    then have "index - seen = Suc (index - (seen + 1))" by simp
    with True Cons show ?thesis by (simp add: Let_def)
  next
    case False
    with Cons show ?thesis by (auto simp: Let_def dir_entry_def split: option.splits)
  qed
qed simp

definition dir_names :: "('f, 'w, 'v, 'd) vfs \<Rightarrow> string \<Rightarrow> string list" where
  "dir_names s prefix =
    map (\<lambda>i. fst (the (candidate_child s prefix i))) (filter (entry_ok s prefix) [0..<candidate_total s])"

lemma entry_okD:
  assumes "entry_ok s prefix i"
  obtains name nested type where "candidate_child s prefix i = Some (name, nested, type)" "length name < D_NAME_SIZE"
    "\<And>j. j < i \<Longrightarrow> map_option fst (candidate_child s prefix j) \<noteq> Some name"
  using assms unfolding entry_ok_def by (auto split: option.splits)

lemma dir_names_distinct: "distinct (dir_names s prefix)"
proof -
  have "inj_on (\<lambda>i. fst (the (candidate_child s prefix i))) {i. entry_ok s prefix i}"
  proof (rule inj_onI)
    fix i j
    assume ij: "i \<in> {i. entry_ok s prefix i}" "j \<in> {i. entry_ok s prefix i}"
      "fst (the (candidate_child s prefix i)) = fst (the (candidate_child s prefix j))"
    then obtain a b c a' b' c' where "candidate_child s prefix i = Some (a, b, c)" "candidate_child s prefix j = Some (a', b', c')"
        "\<And>k. k < i \<Longrightarrow> map_option fst (candidate_child s prefix k) \<noteq> Some a"
        "\<And>k. k < j \<Longrightarrow> map_option fst (candidate_child s prefix k) \<noteq> Some a'"
      by (elim CollectE entry_okD) blast
    with ij(3) show "i = j" by (cases i j rule: linorder_cases) fastforce+
  qed
  then show ?thesis unfolding dir_names_def by (auto simp: distinct_map inj_on_def)
qed

lemma candidate_child_below:
  "candidate_child s prefix i = Some (c, nested, type) \<longleftrightarrow>
    (\<exists>path tail. candidate_at s i = Some (path, type) \<and> below prefix path c tail \<and> nested = (tail \<noteq> []))"
proof (cases "candidate_at s i")
  case None
  then show ?thesis by (simp add: candidate_child_def)
next
  case (Some pt)
  obtain path t where pt: "pt = (path, t)" by fastforce
  have "candidate_child s prefix i = Some (c, nested, type) \<longleftrightarrow> child_of path prefix = Some (c, nested) \<and> t = type"
    using Some pt by (auto simp: candidate_child_def)
  then show ?thesis unfolding child_of_below using Some pt by auto
qed

lemma dir_names_set:
  "set (dir_names s prefix) =
    {c. \<exists>i < candidate_total s. \<exists>path type tail. candidate_at s i = Some (path, type) \<and> below prefix path c tail \<and>
      length c < D_NAME_SIZE}" (is "_ = ?R")
proof (intro set_eqI iffI)
  fix c
  assume "c \<in> set (dir_names s prefix)"
  then obtain i where i: "i < candidate_total s" "entry_ok s prefix i" "c = fst (the (candidate_child s prefix i))"
    unfolding dir_names_def by auto
  obtain name nested type where "candidate_child s prefix i = Some (name, nested, type)" "length name < D_NAME_SIZE"
    using entry_okD [OF i(2)] by metis
  moreover from this have "c = name" using i(3) by simp
  ultimately show "c \<in> ?R" using i(1) candidate_child_below by blast
next
  fix c
  assume "c \<in> ?R"
  then obtain i b t where i: "i < candidate_total s" "candidate_child s prefix i = Some (c, b, t)" "length c < D_NAME_SIZE"
    using candidate_child_below by blast
  define k where "k = (LEAST k. map_option fst (candidate_child s prefix k) = Some c)"
  have k: "map_option fst (candidate_child s prefix k) = Some c" "k \<le> i"
    using LeastI [of "\<lambda>k. map_option fst (candidate_child s prefix k) = Some c" i]
      Least_le [of "\<lambda>k. map_option fst (candidate_child s prefix k) = Some c" i] i(2) unfolding k_def by auto
  have "map_option fst (candidate_child s prefix j) \<noteq> Some c" if "j < k" for j
    using not_less_Least that unfolding k_def by blast
  with k i(3) have "entry_ok s prefix k" by (auto simp: entry_ok_def)
  then show "c \<in> set (dir_names s prefix)" using k i(1) unfolding dir_names_def by (auto intro!: image_eqI [of _ _ k])
qed

lemma vfs_readdir_path:
  assumes "dir = V_root \<and> path = ''/'' \<or> (\<exists>i. dir = V_dir i \<and> path = g_dirs s ! i)"
    and "path \<noteq> []" "hd path = CHR ''/''" "path \<noteq> ''/tmp''" "length path < VNODE_PATH_SIZE"
  shows "vfs_readdir ops dir index s =
    (Inr (vfs_readdir_loop s (if path = ''/'' then ''/'' else path @ ''/'') index [0..<candidate_total s] 0), s)"
  using assms dir_prefix_path [OF assms(5,2,3)] by (auto simp: vfs_readdir_def Let_def)

section \<open>Properties\<close>


definition demo_ops :: "(unit, unit) vnode_ops" where
  "demo_ops = \<lparr>vo_type = (\<lambda>_ _. VNODE_FILE), vo_path = (\<lambda>_ _. []), vo_size = (\<lambda>_ _. 0), vo_close = (\<lambda>_ w. (Inr (), w)),
    vo_read = None, vo_write = None, vo_release = (\<lambda>_ w. w), vo_readdir_at = None\<rparr>"

definition demo_vfs :: "(unit, unit, unit, unit) vfs" where
  "demo_vfs = vfs_init
    \<lparr>g_mounts = [], g_memfiles = [], g_dirs = [], v_refs = (\<lambda>_. 0), v_tmp = tmpfs_init,
     v_proc = \<lparr>pf_data = [], pf_owner = None\<rparr>,
     v_blk = \<lparr>g_devs = (\<lambda>_. None),
       g_devinfo = (\<lambda>_. \<lparr>bd_name = [], bd_sectors = 0, bd_readonly = False, bd_has_read = False, bd_has_write = False,
         bd_has_flush = False, bd_parent = None, bd_start = 0, bd_owned = False, bd_address = 0\<rparr>),
       g_pool = (\<lambda>_. \<lparr>bb_dev = None, bb_lba = 0, bb_refs = 0, bb_dirty = False, bb_data = []\<rparr>),
       g_buckets = (\<lambda>_. []), g_lru = [], g_ready = False, g_world = ()\<rparr>,
     v_world = (), v_keys = (\<lambda>_. 0), v_screen = []\<rparr>"


section \<open>Memory files\<close>

lemma memfile_find_append:
  "memfile_find p (fs @ [f]) =
    (case memfile_find p fs of Some i \<Rightarrow> Some i | None \<Rightarrow> if mf_path f = p then Some (length fs) else None)"
proof -
  have "find (\<lambda>i. mf_path ((fs @ [f]) ! i) = p) [0..<length fs] = find (\<lambda>i. mf_path (fs ! i) = p) [0..<length fs]"
    by (rule find_cong) (auto simp: nth_append)
  moreover have "find P (xs @ [x]) = (case find P xs of Some i \<Rightarrow> Some i | None \<Rightarrow> if P x then Some x else None)" for P and xs :: "nat list" and x
    by (induction xs) auto
  ultimately show ?thesis by (simp add: memfile_find_def split: option.splits)
qed

lemma memfile_find_Some: "memfile_find p fs = Some i \<Longrightarrow> i < length fs \<and> mf_path (fs ! i) = p"
  unfolding memfile_find_def by (auto simp: find_Some_iff)

lemma memfile_find_None: "memfile_find p fs = None \<longleftrightarrow> (\<forall>f \<in> set fs. mf_path f \<noteq> p)"
  unfolding memfile_find_def find_None_iff all_set_conv_all_nth by simp

lemma vfs_register_ok:
  assumes "vfs_register_memfile path data s = (Inr (), s1)"
  shows "g_memfiles s1 = g_memfiles s @ [\<lparr>mf_path = path, mf_data = data\<rparr>]"
    and "memfile_find path (g_memfiles s) = None" "char_at path 0 = CHR ''/''" "length path < VNODE_PATH_SIZE"
    and "g_mounts s1 = g_mounts s" "v_blk s1 = v_blk s" "v_tmp s1 = v_tmp s"
  using assms by (auto simp: vfs_register_memfile_def memfile_find_None split: if_splits)

lemma candidate_memfile:
  assumes "i < length (g_memfiles s)"
  shows "candidate_at s (length g_fixed + blk_count (v_blk s) + i) = Some (mf_path (g_memfiles s ! i), VNODE_FILE)"
    and "length g_fixed + blk_count (v_blk s) + i < candidate_total s"
  using assms by (simp_all add: candidate_at_def candidate_total_def Let_def)

lemma memfile_parent:
  assumes "i < length (g_memfiles s)" "mf_path (g_memfiles s ! i) = dir @ ''/'' @ c" "length (dir @ ''/'' @ c) < VNODE_PATH_SIZE"
    and "hd dir = CHR ''/''" "dir \<noteq> []" "last dir \<noteq> CHR ''/''" "c \<noteq> []" "hd c \<noteq> CHR ''/''"
  shows "is_directory s dir"
proof -
  define name where "name = takeWhile (\<lambda>x. x \<noteq> CHR ''/'') c"
  have b: "below (dir @ ''/'') (dir @ ''/'' @ c) name (dropWhile (\<lambda>x. x \<noteq> CHR ''/'') c)"
    using assms(7,8) hd_dropWhile [of "\<lambda>x. x \<noteq> CHR ''/''" c] unfolding below_def name_def
    by (cases c) (auto dest: set_takeWhileD)
  let ?k = "length g_fixed + blk_count (v_blk s) + i"
  have "candidate_child s (dir @ ''/'') ?k \<noteq> None"
    using b candidate_memfile(1) [OF assms(1)] assms(2) candidate_child_below by (metis option.distinct(1))
  moreover have "dir_prefix dir = Some (dir @ ''/'')"
    using dir_prefix_path [of dir] assms(3-6) by auto
  ultimately show ?thesis
    using candidate_memfile(2) [OF assms(1)] assms(5,6) by (auto simp: is_directory_def)
qed

text \<open>
  (C37) A registered memory file is there: unless a mount, a device or another file system has
  its path, opening it succeeds with any flags, reads give the slices of its data, writes are refused, its
  status has its size, and every directory above it exists.  Other memory files are as
  before, and the path cannot be registered again.
\<close>

theorem vfs_memfile_roundtrip:
  assumes "vfs_register_memfile path data s = (Inr (), s1)"
    and "mount_find (g_mounts s) path = None" "path \<notin> set [''/'', ''/dev/console'', ''/dev/tty'', ''/dev/null'', ''/dev/zero'']"
    and "disk_lookup path (v_blk s) = None" "\<not> tmpfs_owns path" "procfs_lookup path = None"
  shows "(\<exists>v s2. vfs_open_err path flags s1 = (Inr v, s2) \<and>
      (\<forall>count offset. 0 \<le> offset \<longrightarrow>
        vfs_read ops drv env v count offset s2 = (Some (Inr (take count (drop (nat offset) data))), s2)) \<and>
      (\<forall>heap bs offset. vfs_write ops drv heap v bs offset s2 = (Inl EBADF, s2)) \<and>
      st_size (vfs_stat_vnode ops v s2) = length data) \<and>
    (\<forall>p. vfs_read_file p s1 = (if p = path then Inr data else vfs_read_file p s)) \<and>
    (\<forall>data'. fst (vfs_register_memfile path data' s1) \<noteq> Inr ()) \<and>
    (\<forall>dir c. path = dir @ ''/'' @ c \<and> dir \<noteq> [] \<and> last dir \<noteq> CHR ''/'' \<and> c \<noteq> [] \<and> hd c \<noteq> CHR ''/'' \<longrightarrow> is_directory s1 dir)"
proof (intro conjI allI impI)
  note reg = vfs_register_ok [OF assms(1)]
  let ?n = "length (g_memfiles s)"
  have found: "memfile_find path (g_memfiles s1) = Some ?n" by (simp add: reg(1,2) memfile_find_append)
  define s2 where "s2 = s1\<lparr>v_refs := (v_refs s1)(V_memfile ?n := v_refs s1 (V_memfile ?n) + 1)\<rparr>"
  have "vfs_lookup path flags s1 = (Inr (Some (V_memfile ?n)), s1)"
    using assms(3-6) found by (simp add: vfs_lookup_def reg(6))
  then have "vfs_open_err path flags s1 = (Inr (V_memfile ?n), s2)"
    using assms(2) by (simp add: vfs_open_err_def reg(5) vfs_finish_open_def s2_def)
  moreover have "g_memfiles s2 ! ?n = \<lparr>mf_path = path, mf_data = data\<rparr>" by (simp add: s2_def reg(1))
  moreover have "take (min k (length data - j)) (drop j data) = take k (drop j data)" for j k by (simp add: min_def)
  ultimately show "\<exists>v s2. vfs_open_err path flags s1 = (Inr v, s2) \<and>
      (\<forall>count offset. 0 \<le> offset \<longrightarrow>
        vfs_read ops drv env v count offset s2 = (Some (Inr (take count (drop (nat offset) data))), s2)) \<and>
      (\<forall>heap bs offset. vfs_write ops drv heap v bs offset s2 = (Inl EBADF, s2)) \<and>
      st_size (vfs_stat_vnode ops v s2) = length data"
    by (intro exI [of _ "V_memfile ?n"] exI [of _ s2]) (auto simp: memfile_read_def vfs_stat_vnode_def Let_def)
  show "vfs_read_file p s1 = (if p = path then Inr data else vfs_read_file p s)" for p
    using memfile_find_Some [of p "g_memfiles s"] reg(2)
    by (auto simp: vfs_read_file_def reg(1) memfile_find_append nth_append split: option.splits)
  show "fst (vfs_register_memfile path data' s1) \<noteq> Inr ()" for data'
    by (auto simp: vfs_register_memfile_def reg(1))
  fix dir c
  assume p: "path = dir @ ''/'' @ c \<and> dir \<noteq> [] \<and> last dir \<noteq> CHR ''/'' \<and> c \<noteq> [] \<and> hd c \<noteq> CHR ''/''"
  then have "hd dir = CHR ''/''" using reg(3) by (cases dir) (auto simp: char_at_def)
  with p reg(4) show "is_directory s1 dir"
    by (intro memfile_parent [of ?n s1 dir c]) (auto simp: reg(1))
qed

definition demo_drv :: "unit driver" where
  "demo_drv = \<lparr>dv_read = (\<lambda>_ _ _ w. (Inl EIO, w)), dv_write = (\<lambda>_ _ _ _ w. (Inl EIO, w)), dv_flush = (\<lambda>_ w. (Inr (), w))\<rparr>"

definition demo_env :: proc_env where
  "demo_env = \<lparr>pe_arch = ''x86_64'', pe_total_pages = 0, pe_free_pages = 0, pe_current = None, pe_procs = [], pe_syscalls = [],
    pe_mounts = []\<rparr>"

theorem vfs_memfile_roundtrip_witness:
  "\<exists>v s2. vfs_open_err ''/bin/sh'' 0 (snd (vfs_register_memfile ''/bin/sh'' [1, 2, 3] demo_vfs)) = (Inr v, s2) \<and>
    vfs_read demo_ops demo_drv demo_env v 2 1 s2 = (Some (Inr [2, 3]), s2)"
proof -
  obtain s1 where s1: "vfs_register_memfile ''/bin/sh'' [1, 2, 3] demo_vfs = (Inr (), s1)"
    by (simp add: vfs_register_memfile_def demo_vfs_def vfs_init_def char_at_def VNODE_PATH_SIZE_def VFS_MAX_MEMFILES_def)
  have "mount_find (g_mounts demo_vfs) ''/bin/sh'' = None"
    by (simp add: demo_vfs_def vfs_init_def VFS_MAX_MOUNTS_def mount_find_def numeral_eq_Suc)
  moreover have "procfs_lookup ''/bin/sh'' = None"
    by (simp add: procfs_lookup_def PROCFS_FILE_COUNT_def procfs_table_def upt_rec)
  moreover have "\<not> tmpfs_owns ''/bin/sh''" by (simp add: tmpfs_owns_def TMPFS_PREFIX_def)
  ultimately obtain v s2 where "vfs_open_err ''/bin/sh'' 0 s1 = (Inr v, s2)"
      "\<And>count offset. 0 \<le> offset \<Longrightarrow>
        vfs_read demo_ops demo_drv demo_env v count offset s2 = (Some (Inr (take count (drop (nat offset) [1, 2, 3]))), s2)"
    using vfs_memfile_roundtrip [OF s1, of 0 demo_ops demo_drv demo_env] by (auto simp: disk_lookup_def)
  with s1 show ?thesis by (intro exI [of _ v] exI [of _ s2]) simp
qed

end
