(* ===== verification/BlkPart.thy ===== *)
theory BlkPart
  imports BlkStore FatField
begin

text \<open>
  Partition discovery, \<^verbatim>\<open>src/drivers/block/blk_part.c\<close>: the CRC-32, the MBR with its chain of
  extended boot records, and the GPT.  Partitions become devices of the block layer.
  \<open>rd16\<close> and \<open>rd32\<close> of the source are \<open>le16\<close> and \<open>le32\<close>.
\<close>

section \<open>Checksum and names\<close>

definition MBR_TABLE_OFFSET :: nat where "MBR_TABLE_OFFSET = 446"
definition MBR_ENTRY_SIZE :: nat where "MBR_ENTRY_SIZE = 16"
definition MBR_EXT_MAX :: nat where "MBR_EXT_MAX = 32"
definition GPT_MAX_ENTRIES :: nat where "GPT_MAX_ENTRIES = 1024"

definition rd64 :: "u8 list \<Rightarrow> nat \<Rightarrow> nat" where
  "rd64 p i = le32 p i + le32 p (i + 4) * 2 ^ 32"

definition crc_bit :: "u32 \<Rightarrow> u32" where
  "crc_bit crc = drop_bit 1 crc XOR (0xEDB88320 AND - (crc AND 1))"

definition crc_byte :: "u8 \<Rightarrow> u32 \<Rightarrow> u32" where
  "crc_byte b crc = (crc_bit ^^ 8) (crc XOR ucast b)"

definition blk_crc32 :: "u32 \<Rightarrow> u8 list \<Rightarrow> u32" where
  "blk_crc32 crc data = NOT (fold crc_byte data (NOT crc))"

text \<open>The decimal digits, most significant first; a 32-bit number has at most ten of the eleven the buffer takes.\<close>

fun part_digits :: "nat \<Rightarrow> string" where
  "part_digits v = (if v < 10 then [] else part_digits (v div 10)) @ [char_of (48 + v mod 10)]"

declare part_digits.simps [simp del]

definition part_name :: "string \<Rightarrow> nat \<Rightarrow> string" where
  "part_name disk number =
    (let sep = disk \<noteq> [] \<and> 48 \<le> (of_char (last disk) :: nat) \<and> (of_char (last disk) :: nat) \<le> 57
     in take (BLK_NAME_MAX - 1) (disk @ (if sep then ''p'' else []) @ part_digits number))"

section \<open>Creating partitions\<close>

text \<open>
  The fields of a device that only partitions have, and the state of discovery: the block layer, those
  fields, and the number of allocations made.  The heap is a parameter: its answer to an allocation
  is the number and the address of a new device structure, or none.
\<close>

record part_info =
  bd_part_type :: u8
  bd_part_guid :: "u8 list option"

record 'w parts =
  pt_blk :: "'w blk"
  pt_info :: "nat \<Rightarrow> part_info"
  pt_allocs :: nat

type_synonym 'w dev_heap = "nat \<Rightarrow> 'w blk \<Rightarrow> (nat \<times> u64) option"

definition add_partition ::
    "'w dev_heap \<Rightarrow> nat \<Rightarrow> nat \<Rightarrow> nat \<Rightarrow> nat \<Rightarrow> u8 \<Rightarrow> u8 list option \<Rightarrow> 'w parts \<Rightarrow> unit res \<times> 'w parts" where
  "add_partition heap disk number start sectors type guid s =
    (let dev = g_devinfo (pt_blk s) disk;
         s1 = s\<lparr>pt_allocs := pt_allocs s + 1\<rparr>
     in if sectors = 0 \<or> start > bd_sectors dev \<or> sectors > bd_sectors dev - start then (Inl EINVAL, s)
        else case heap (pt_allocs s) (pt_blk s) of
               None \<Rightarrow> (Inl ENOMEM, s1)
             | Some (d, address) \<Rightarrow>
                 let part = \<lparr>bd_name = part_name (bd_name dev) number, bd_sectors = sectors, bd_readonly = bd_readonly dev,
                             bd_has_read = False, bd_has_write = False, bd_has_flush = False,
                             bd_parent = Some disk, bd_start = start, bd_owned = True, bd_address = address\<rparr>;
                     b1 = (pt_blk s)\<lparr>g_devinfo := (g_devinfo (pt_blk s))(d := part)\<rparr>
                 in case blk_register d b1 of
                      (Inl e, _) \<Rightarrow> (Inl e, s1)
                    | (Inr _, b2) \<Rightarrow>
                        (Inr (), s1\<lparr>pt_blk := b2, pt_info := (pt_info s)(d := \<lparr>bd_part_type = type, bd_part_guid = guid\<rparr>)\<rparr>))"

definition looks_like_fat_vbr :: "u8 list \<Rightarrow> bool" where
  "looks_like_fat_vbr s \<longleftrightarrow>
    (s ! 0 = 0xEB \<or> s ! 0 = 0xE9) \<and>
    le16 s 11 = 512 \<and> s ! 13 \<noteq> 0 \<and> s ! 13 AND (s ! 13 - 1) = 0 \<and>
    s ! 16 \<noteq> 0 \<and> s ! 16 \<le> 2 \<and> le16 s 14 \<noteq> 0"

text \<open>A read of sector \<open>lba\<close> through the byte interface; the offset is computed in 64 bits.\<close>

definition part_read :: "'w driver \<Rightarrow> nat \<Rightarrow> nat \<Rightarrow> 'w parts \<Rightarrow> u8 list res \<times> 'w parts" where
  "part_read drv disk lba s =
    (let (r, b) = blk_read_bytes drv disk (lba * BLK_SECTOR_SIZE mod 2 ^ 64) BLK_SECTOR_SIZE (pt_blk s)
     in (r, s\<lparr>pt_blk := b\<rparr>))"

section \<open>GPT\<close>

record gpt_head =
  gh_first_usable :: nat
  gh_last_usable :: nat
  gh_entries_lba :: nat
  gh_count :: nat
  gh_entry_size :: nat
  gh_entries_crc :: u32

definition gh_table_bytes :: "gpt_head \<Rightarrow> nat" where
  "gh_table_bytes g = gh_count g * gh_entry_size g"

text \<open>The header of a GPT in the sector \<open>h\<close>, when it passes all checks on a disk with this many sectors.\<close>

definition gpt_header :: "u8 list \<Rightarrow> nat \<Rightarrow> gpt_head option" where
  "gpt_header h sectors =
    (let header_size = le32 h 12;
         g = \<lparr>gh_first_usable = rd64 h 40, gh_last_usable = rd64 h 48, gh_entries_lba = rd64 h 72,
              gh_count = le32 h 80, gh_entry_size = le32 h 84, gh_entries_crc = of_nat (le32 h 88)\<rparr>;
         table_sectors = (gh_table_bytes g + BLK_SECTOR_SIZE - 1) div BLK_SECTOR_SIZE
     in if take 8 h \<noteq> [0x45, 0x46, 0x49, 0x20, 0x50, 0x41, 0x52, 0x54] then None
        else if header_size < 92 \<or> header_size > BLK_SECTOR_SIZE then None
        else if blk_crc32 0 (take header_size (h[16 := 0, 17 := 0, 18 := 0, 19 := 0])) \<noteq> of_nat (le32 h 16) then None
        else if gh_count g = 0 \<or> gh_count g > GPT_MAX_ENTRIES then None
        else if gh_entry_size g \<noteq> 128 \<and> gh_entry_size g \<noteq> 256 \<and> gh_entry_size g \<noteq> 512 then None
        else if gh_first_usable g > gh_last_usable g \<or> gh_last_usable g \<ge> sectors then None
        else if gh_entries_lba g < 2 \<or> gh_entries_lba g > sectors \<or> table_sectors > sectors - gh_entries_lba g then None
        else Some g)"

text \<open>The first pass over the table; \<open>remaining\<close> bytes are still to be summed.\<close>

partial_function (option) gpt_crc_loop ::
    "'w driver \<Rightarrow> nat \<Rightarrow> nat \<Rightarrow> nat \<Rightarrow> u32 \<Rightarrow> nat \<Rightarrow> 'w parts \<Rightarrow> (u32 res \<times> 'w parts) option" where
  "gpt_crc_loop drv disk entries_lba i crc remaining s =
    (if remaining = 0 then Some (Inr crc, s)
     else let chunk = (if remaining < BLK_SECTOR_SIZE then remaining else BLK_SECTOR_SIZE)
          in case part_read drv disk (entries_lba + i) s of
               (Inl _, s1) \<Rightarrow> Some (Inl EIO, s1)
             | (Inr sector, s1) \<Rightarrow>
                 gpt_crc_loop drv disk entries_lba (i + 1) (blk_crc32 crc (take chunk sector)) (remaining - chunk) s1)"

text \<open>One entry: a partition is made when the type is not zero and the range is usable.\<close>

definition gpt_entry :: "'w dev_heap \<Rightarrow> nat \<Rightarrow> gpt_head \<Rightarrow> nat \<Rightarrow> u8 list \<Rightarrow> nat \<Rightarrow> 'w parts \<Rightarrow> nat \<times> 'w parts" where
  "gpt_entry heap disk g index e created s =
    (let first = rd64 e 32; last = rd64 e 40
     in if \<forall>b \<in> set (take 16 e). b = 0 then (created, s)
        else if first < gh_first_usable g \<or> last > gh_last_usable g \<or> last < first then (created, s)
        else case add_partition heap disk (index + 1) first (last - first + 1) 0 (Some (take 16 e)) s of
               (Inr _, s1) \<Rightarrow> (created + 1, s1) | (Inl _, s1) \<Rightarrow> (created, s1))"

text \<open>The second pass, from entry \<open>index\<close> with \<open>n\<close> entries to go and the last sector read.\<close>

fun gpt_entries ::
    "'w driver \<Rightarrow> 'w dev_heap \<Rightarrow> nat \<Rightarrow> gpt_head \<Rightarrow> nat \<Rightarrow> nat \<Rightarrow> u8 list \<Rightarrow> nat \<Rightarrow> 'w parts \<Rightarrow> nat res \<times> 'w parts" where
  "gpt_entries drv heap disk g 0 index sector created s = (Inr created, s)"
| "gpt_entries drv heap disk g (Suc n) index sector created s =
    (let per_sector = BLK_SECTOR_SIZE div gh_entry_size g
     in case (if index mod per_sector = 0 then part_read drv disk (gh_entries_lba g + index div per_sector) s
              else (Inr sector, s)) of
          (Inl _, s1) \<Rightarrow> (Inl EIO, s1)
        | (Inr sector1, s1) \<Rightarrow>
            let (created1, s2) = gpt_entry heap disk g index (drop (index mod per_sector * gh_entry_size g) sector1) created s1
            in gpt_entries drv heap disk g n (index + 1) sector1 created1 s2)"

definition scan_gpt :: "'w driver \<Rightarrow> 'w dev_heap \<Rightarrow> nat \<Rightarrow> 'w parts \<Rightarrow> (nat res \<times> 'w parts) option" where
  "scan_gpt drv heap disk s =
    (case part_read drv disk 1 s of
       (Inl _, s1) \<Rightarrow> Some (Inl EIO, s1)
     | (Inr h, s1) \<Rightarrow>
         (case gpt_header h (bd_sectors (g_devinfo (pt_blk s1) disk)) of
            None \<Rightarrow> Some (Inl EINVAL, s1)
          | Some g \<Rightarrow>
              Option.bind (gpt_crc_loop drv disk (gh_entries_lba g) 0 0 (gh_table_bytes g) s1) (\<lambda>(r, s2).
                case r of
                  Inl e \<Rightarrow> Some (Inl e, s2)
                | Inr crc \<Rightarrow>
                    if crc \<noteq> gh_entries_crc g then Some (Inl EINVAL, s2)
                    else Some (gpt_entries drv heap disk g (gh_count g) 0 [] 0 s2))))"

section \<open>MBR\<close>

definition is_extended :: "u8 \<Rightarrow> bool" where
  "is_extended type \<longleftrightarrow> type = 0x05 \<or> type = 0x0F \<or> type = 0x85"

text \<open>The chain of extended boot records, with the hops that are left.\<close>

fun ebr_loop ::
    "nat \<Rightarrow> 'w driver \<Rightarrow> 'w dev_heap \<Rightarrow> nat \<Rightarrow> nat \<Rightarrow> nat \<Rightarrow> nat \<Rightarrow> nat \<Rightarrow> nat \<Rightarrow> 'w parts \<Rightarrow> nat \<times> 'w parts" where
  "ebr_loop 0 drv heap disk ext_start ext_sectors ebr number created s = (created, s)"
| "ebr_loop (Suc hops) drv heap disk ext_start ext_sectors ebr number created s =
    (if ebr \<ge> bd_sectors (g_devinfo (pt_blk s) disk) then (created, s)
     else case part_read drv disk ebr s of
            (Inl _, s1) \<Rightarrow> (created, s1)
          | (Inr sec, s1) \<Rightarrow>
              let logical = MBR_TABLE_OFFSET; next = logical + MBR_ENTRY_SIZE;
                  start = le32 sec (logical + 8); count = le32 sec (logical + 12);
                  (ok, s2) = (if sec ! (logical + 4) \<noteq> 0 \<and> count \<noteq> 0
                              then (case add_partition heap disk number (ebr + start) count (sec ! (logical + 4)) None s1 of
                                      (r, s2) \<Rightarrow> (r = Inr (), s2))
                              else (False, s1));
                  created1 = (if ok then created + 1 else created);
                  number1 = (if ok then number + 1 else number);
                  link = le32 sec (next + 8)
              in if le16 sec 510 \<noteq> 0xAA55 then (created, s1)
                 else if link = 0 \<or> \<not> is_extended (sec ! (next + 4)) then (created1, s2)
                 else if link \<ge> ext_sectors then (created1, s2)
                 else ebr_loop hops drv heap disk ext_start ext_sectors (ext_start + link) number1 created1 s2)"

definition scan_extended ::
    "'w driver \<Rightarrow> 'w dev_heap \<Rightarrow> nat \<Rightarrow> nat \<Rightarrow> nat \<Rightarrow> nat \<Rightarrow> 'w parts \<Rightarrow> nat \<times> 'w parts" where
  "scan_extended drv heap disk ext_start ext_sectors created s =
    ebr_loop MBR_EXT_MAX drv heap disk ext_start ext_sectors ext_start 5 created s"

text \<open>Entry \<open>i\<close> of the table of the boot sector.\<close>

definition mbr_entry :: "'w driver \<Rightarrow> 'w dev_heap \<Rightarrow> nat \<Rightarrow> u8 list \<Rightarrow> nat \<Rightarrow> nat \<times> 'w parts \<Rightarrow> nat \<times> 'w parts" where
  "mbr_entry drv heap disk sec i cs =
    (let (created, s) = cs; e = MBR_TABLE_OFFSET + i * MBR_ENTRY_SIZE;
         boot = sec ! e; type = sec ! (e + 4); start = le32 sec (e + 8); count = le32 sec (e + 12)
     in if (boot \<noteq> 0x00 \<and> boot \<noteq> 0x80) \<or> type = 0 \<or> count = 0 then (created, s)
        else if type = 0xEE then (created, s)
        else if is_extended type then scan_extended drv heap disk start count created s
        else case add_partition heap disk (i + 1) start count type None s of
               (Inr _, s1) \<Rightarrow> (created + 1, s1) | (Inl _, s1) \<Rightarrow> (created, s1))"

definition blk_scan_partitions :: "'w driver \<Rightarrow> 'w dev_heap \<Rightarrow> nat \<Rightarrow> 'w parts \<Rightarrow> (nat res \<times> 'w parts) option" where
  "blk_scan_partitions drv heap disk s =
    (if bd_parent (g_devinfo (pt_blk s) disk) \<noteq> None then Some (Inl EINVAL, s)
     else if bd_sectors (g_devinfo (pt_blk s) disk) < 2 then Some (Inr 0, s)
     else case part_read drv disk 0 s of
            (Inl e, s1) \<Rightarrow> Some (Inl e, s1)
          | (Inr sec, s1) \<Rightarrow>
              if le16 sec 510 \<noteq> 0xAA55 then Some (Inr 0, s1)
              else if looks_like_fat_vbr sec then Some (Inr 0, s1)
              else Option.bind (if sec ! (MBR_TABLE_OFFSET + 4) = 0xEE then scan_gpt drv heap disk s1 else Some (Inl EINVAL, s1))
                     (\<lambda>(r, s2). case r of
                        Inr created \<Rightarrow> Some (Inr created, s2)
                      | Inl _ \<Rightarrow> (let (created, s3) = fold (mbr_entry drv heap disk sec) [0..<4] (0, s2) in Some (Inr created, s3))))"

end
