(* ===== verification/BlkPartSpec.thy ===== *)
theory BlkPartSpec
  imports BlkPart Ramdisk
begin

text \<open>
  Correctness of partition discovery: the checksum of a partition table is computed completely, the
  scan always ends, and what it registers are windows of the disk.
\<close>

section \<open>Reading leaves the registry alone\<close>

definition same_devs :: "'w blk \<Rightarrow> 'w blk \<Rightarrow> bool" where
  "same_devs s s' \<longleftrightarrow> g_devs s' = g_devs s \<and> g_devinfo s' = g_devinfo s"

lemma same_devs_refl [simp]: "same_devs s s"
  by (simp add: same_devs_def)

lemma same_devs_trans: "same_devs s s1 \<Longrightarrow> same_devs s1 s2 \<Longrightarrow> same_devs s s2"
  by (simp add: same_devs_def)

lemma same_devs_simps [simp]:
  "same_devs s (upd_buf b f s') = same_devs s s'" "same_devs s (lru_touch b s') = same_devs s s'"
  "same_devs s (hash_remove b s') = same_devs s s'" "same_devs s (s'\<lparr>g_world := w\<rparr>) = same_devs s s'"
  "same_devs s (brelse b s') = same_devs s s'" "same_devs s (install_buf b root lba data s') = same_devs s s'"
  by (simp_all add: same_devs_def brelse_def install_buf_def Let_def)

lemma same_devs_drv:
  "drv_read drv root lba n s = (r, s') \<Longrightarrow> same_devs s s'"
  "drv_write drv root lba n bs s = (q, s'') \<Longrightarrow> same_devs s s''"
  by (auto simp: drv_read_def drv_write_def split: if_splits prod.splits)

lemma same_devs_write_back: "write_back drv b s = (r, s') \<Longrightarrow> same_devs s s'"
  by (auto simp: write_back_def dest: same_devs_drv(2) split: if_splits option.splits prod.splits sum.splits)

lemma same_devs_take_victim: "take_victim drv s = (r, s') \<Longrightarrow> same_devs s s'"
  by (auto simp: take_victim_def dest: same_devs_write_back split: option.splits prod.splits sum.splits)

lemma same_devs_get_buf:
  assumes "get_buf drv root lba rd s = (r, s')"
  shows "same_devs s s'"
proof (cases "blk_lookup root lba s")
  case (Some b)
  with assms show ?thesis by (auto simp: get_buf_def)
next
  case None
  obtain v s1 where v: "take_victim drv s = (v, s1)" by fastforce
  note s1 = same_devs_take_victim [OF v]
  obtain q s2 where q: "drv_read drv root lba 1 s1 = (q, s2)" by fastforce
  note s2 = same_devs_trans [OF s1 same_devs_drv(1) [OF q]]
  from assms None v q s1 s2 show ?thesis
    by (auto simp: get_buf_def split: sum.splits if_splits)
qed

lemma same_devs_buf_copy:
  assumes "buf_copy drv d lba s = (r, s')"
  shows "same_devs s s'"
proof -
  obtain root pos where root: "root_of s d lba = (root, pos)" by fastforce
  obtain q s1 where q: "get_buf drv root pos True s = (q, s1)" by fastforce
  from assms root q same_devs_get_buf [OF q] show ?thesis
    by (auto simp: buf_copy_def bread_def buf_get_def split: if_splits sum.splits)
qed

lemma same_devs_read_bytes_loop: "read_bytes_loop drv d off len out s = (r, s') \<Longrightarrow> same_devs s s'"
proof (induction drv d off len out s rule: read_bytes_loop.induct)
  case (1 drv d off len out s)
  obtain q s1 where q: "buf_copy drv d (off div BLK_SECTOR_SIZE) s = (q, s1)" by fastforce
  note s1 = same_devs_buf_copy [OF q]
  show ?case
  proof (cases "len = 0 \<or> (\<exists>e. q = Inl e)")
    case True
    with "1.prems" q s1 show ?thesis by (auto simp: read_bytes_loop.simps [of drv d off len] split: if_splits)
  next
    case False
    then obtain sec where sec: "q = Inr sec" by (cases q) auto
    have "same_devs s1 s'"
      using "1.IH" [OF _ q [symmetric] sec refl refl] "1.prems" False q sec
      by (simp add: read_bytes_loop.simps [of drv d off len] Let_def)
    with s1 show ?thesis by (rule same_devs_trans)
  qed
qed

lemma same_devs_part_read: "part_read drv disk lba s = (r, s') \<Longrightarrow> same_devs (pt_blk s) (pt_blk s')"
  by (auto simp: part_read_def blk_read_bytes_def dest: same_devs_read_bytes_loop split: prod.splits if_splits)

section \<open>The checksum\<close>

lemma blk_crc32_append: "blk_crc32 (blk_crc32 crc a) b = blk_crc32 crc (a @ b)"
  by (simp add: blk_crc32_def)

lemma gpt_crc_loop_total:
  assumes "disk_driver drv medium" and "store_inv medium disk root base (pt_blk s)"
    and "\<And>j. j * BLK_SECTOR_SIZE < remaining \<Longrightarrow> (entries_lba + i + j) * BLK_SECTOR_SIZE < 2 ^ 64"
  shows "\<exists>r s'. gpt_crc_loop drv disk entries_lba i crc remaining s = Some (r, s') \<and>
    store_inv medium disk root base (pt_blk s') \<and> blk_view medium (pt_blk s') = blk_view medium (pt_blk s) \<and>
    (r = Inl EIO \<or> r = Inr (blk_crc32 crc (map (dev_byte medium root base (pt_blk s))
      [(entries_lba + i) * BLK_SECTOR_SIZE..<(entries_lba + i) * BLK_SECTOR_SIZE + remaining])))"
  using assms(2,3)
proof (induction remaining arbitrary: i crc s rule: less_induct)
  case (less remaining)
  show ?case
  proof (cases "remaining = 0")
    case True
    with less.prems show ?thesis by (subst gpt_crc_loop.simps) (simp add: blk_crc32_def)
  next
    case False
    define chunk where "chunk = (if remaining < BLK_SECTOR_SIZE then remaining else BLK_SECTOR_SIZE)"
    have chunk: "0 < chunk" "chunk \<le> remaining" "chunk \<le> BLK_SECTOR_SIZE"
      using False by (auto simp: chunk_def BLK_SECTOR_SIZE_def)
    let ?off = "(entries_lba + i) * BLK_SECTOR_SIZE"
    obtain q s1 where q: "part_read drv disk (entries_lba + i) s = (q, s1)" by fastforce
    have off: "?off mod 2 ^ 64 = ?off" using less.prems(2) [of 0] False by simp
    have rd: "store_inv medium disk root base (pt_blk s1) \<and> blk_view medium (pt_blk s1) = blk_view medium (pt_blk s) \<and>
        (\<forall>bs. q = Inr bs \<longrightarrow> bs = map (dev_byte medium root base (pt_blk s)) [?off..<?off + BLK_SECTOR_SIZE])"
      using q less.prems(1) disk_driver.read_bytes_loop_ok [OF assms(1) less.prems(1), of ?off BLK_SECTOR_SIZE "[]" q "pt_blk s1"]
      unfolding part_read_def off by (auto simp: blk_read_bytes_def split: prod.splits if_splits)
    have step: "gpt_crc_loop drv disk entries_lba i crc remaining s =
        (case q of Inl _ \<Rightarrow> Some (Inl EIO, s1)
         | Inr sector \<Rightarrow> gpt_crc_loop drv disk entries_lba (i + 1) (blk_crc32 crc (take chunk sector)) (remaining - chunk) s1)"
      using False q by (subst gpt_crc_loop.simps) (simp add: Let_def chunk_def split: sum.splits)
    show ?thesis
    proof (cases q)
      case (Inl e)
      with step rd show ?thesis by simp
    next
      case (Inr sector)
      let ?f = "dev_byte medium root base (pt_blk s)" and ?next = "(entries_lba + (i + 1)) * BLK_SECTOR_SIZE"
      have same: "dev_byte medium root base (pt_blk s1) = ?f" using rd dev_byte_cong by blast
      have bound: "(entries_lba + (i + 1) + j) * BLK_SECTOR_SIZE < 2 ^ 64" if "j * BLK_SECTOR_SIZE < remaining - chunk" for j
      proof -
        have "(j + 1) * BLK_SECTOR_SIZE < remaining" using that by (auto simp: chunk_def split: if_splits)
        with less.prems(2) [of "j + 1"] show ?thesis by (simp add: add.assoc add.left_commute)
      qed
      have "take chunk sector = map ?f [?off..<?off + chunk]" using rd Inr chunk(3) by (simp add: take_map take_upt)
      moreover have "[?off..<?off + chunk] @ [?next..<?next + (remaining - chunk)] = [?off..<?off + remaining]"
      proof (cases "remaining < BLK_SECTOR_SIZE")
        case False
        then have nx: "?next = ?off + chunk" by (simp add: chunk_def algebra_simps)
        show ?thesis unfolding nx using chunk(2) upt_add_eq_append [of ?off "?off + chunk" "remaining - chunk"] by simp
      qed (simp add: chunk_def)
      ultimately have app: "blk_crc32 (blk_crc32 crc (take chunk sector)) (map ?f [?next..<?next + (remaining - chunk)]) =
          blk_crc32 crc (map ?f [?off..<?off + remaining])"
        by (simp add: blk_crc32_append flip: map_append)
      from less.IH [of "remaining - chunk" s1 "i + 1" "blk_crc32 crc (take chunk sector)"] rd bound chunk step Inr
      show ?thesis unfolding same app by simp
    qed
  qed
qed

section \<open>What discovery registers\<close>

text \<open>
  The heap gives structures that no registered device uses.  A device is a window of the disk when it is
  a partition of it with at least one sector that ends within it.
\<close>

definition heap_ok :: "'w dev_heap \<Rightarrow> bool" where
  "heap_ok heap \<longleftrightarrow> (\<forall>n b d a. heap n b = Some (d, a) \<longrightarrow> (\<forall>i < BLK_MAX_DEVICES. g_devs b i \<noteq> Some d))"

definition on_bus :: "'w blk \<Rightarrow> nat \<Rightarrow> bool" where
  "on_bus s d \<longleftrightarrow> (\<exists>i < BLK_MAX_DEVICES. g_devs s i = Some d)"

definition is_window :: "'w blk \<Rightarrow> nat \<Rightarrow> nat \<Rightarrow> bool" where
  "is_window s disk d \<longleftrightarrow>
    bd_parent (g_devinfo s d) = Some disk \<and> 0 < bd_sectors (g_devinfo s d) \<and>
    bd_start (g_devinfo s d) + bd_sectors (g_devinfo s d) \<le> bd_sectors (g_devinfo s disk)"

definition new_slots :: "'w blk \<Rightarrow> 'w blk \<Rightarrow> nat set" where
  "new_slots s s' = {i. i < BLK_MAX_DEVICES \<and> g_devs s i = None \<and> g_devs s' i \<noteq> None}"

definition names_apart :: "'w blk \<Rightarrow> bool" where
  "names_apart s \<longleftrightarrow> (\<forall>i j d e. i < BLK_MAX_DEVICES \<longrightarrow> j < BLK_MAX_DEVICES \<longrightarrow> g_devs s i = Some d \<longrightarrow> g_devs s j = Some e \<longrightarrow>
    bd_name (g_devinfo s d) = bd_name (g_devinfo s e) \<longrightarrow> i = j)"

text \<open>The registry after a part of the scan that counted \<open>k\<close> new partitions.\<close>

definition grows :: "nat \<Rightarrow> 'w blk \<Rightarrow> nat \<Rightarrow> 'w blk \<Rightarrow> bool" where
  "grows disk s k s' \<longleftrightarrow>
    (\<forall>i < BLK_MAX_DEVICES. \<forall>d. g_devs s i = Some d \<longrightarrow> g_devs s' i = Some d \<and> g_devinfo s' d = g_devinfo s d) \<and>
    (\<forall>i d. i < BLK_MAX_DEVICES \<and> g_devs s i = None \<and> g_devs s' i = Some d \<longrightarrow> is_window s' disk d) \<and>
    (names_apart s \<longrightarrow> names_apart s') \<and> k \<le> card (new_slots s s')"

lemma finite_new_slots [simp]: "finite (new_slots s s')"
  by (simp add: new_slots_def)

lemma grows_same: "same_devs s s' \<Longrightarrow> grows disk s 0 s'"
  by (auto simp: grows_def same_devs_def names_apart_def)

lemma grows_le: "grows disk s k s' \<Longrightarrow> j \<le> k \<Longrightarrow> grows disk s j s'"
  by (auto simp: grows_def)

lemma grows_disk: "grows disk s k s' \<Longrightarrow> on_bus s d \<Longrightarrow> on_bus s' d \<and> g_devinfo s' d = g_devinfo s d"
  unfolding grows_def on_bus_def by blast

lemma grows_trans:
  assumes "grows disk s j s1" "grows disk s1 k s2" "on_bus s disk"
  shows "grows disk s (j + k) s2"
proof -
  have disk: "g_devinfo s1 disk = g_devinfo s disk" "g_devinfo s2 disk = g_devinfo s1 disk"
    using grows_disk [OF assms(1,3)] grows_disk [OF assms(2)] by auto
  have "is_window s2 disk d" if "i < BLK_MAX_DEVICES" "g_devs s i = None" "g_devs s2 i = Some d" for i d
  proof (cases "g_devs s1 i")
    case None
    with that assms(2) show ?thesis unfolding grows_def by blast
  next
    case (Some d')
    then have "g_devs s2 i = Some d'" "g_devinfo s2 d' = g_devinfo s1 d'" "is_window s1 disk d'"
      using that(1,2) assms(1,2) unfolding grows_def by blast+
    with that(3) disk(2) show ?thesis by (simp add: is_window_def)
  qed
  moreover have "g_devs s2 i = Some d \<and> g_devinfo s2 d = g_devinfo s d" if "i < BLK_MAX_DEVICES" "g_devs s i = Some d" for i d
    using that assms(1,2) unfolding grows_def by metis
  moreover have "j + k \<le> card (new_slots s s2)"
  proof -
    have kept: "g_devs s1 i \<noteq> None" "g_devs s2 i \<noteq> None" if "i < BLK_MAX_DEVICES" "g_devs s i \<noteq> None \<or> g_devs s1 i \<noteq> None" for i
      using that assms(1,2) unfolding grows_def by (metis option.exhaust, metis option.exhaust)
    have "new_slots s s1 \<union> new_slots s1 s2 \<subseteq> new_slots s s2" "new_slots s s1 \<inter> new_slots s1 s2 = {}"
      using kept unfolding new_slots_def by blast+
    then have "card (new_slots s s1) + card (new_slots s1 s2) \<le> card (new_slots s s2)"
      by (metis card_Un_disjoint card_mono finite_new_slots)
    then show ?thesis using assms(1,2) unfolding grows_def by linarith
  qed
  ultimately show ?thesis using assms(1,2) unfolding grows_def by blast
qed

lemma blk_register_cases:
  assumes "blk_register d s = (Inr (), s')"
  obtains i where "i < BLK_MAX_DEVICES" "g_devs s i = None" "s' = s\<lparr>g_devs := (g_devs s)(i := Some d)\<rparr>"
    "\<And>j e. j < BLK_MAX_DEVICES \<Longrightarrow> g_devs s j = Some e \<Longrightarrow> bd_name (g_devinfo s e) \<noteq> bd_name (g_devinfo s d)"
proof -
  obtain i where i: "find (\<lambda>i. g_devs s i = None) [0..<BLK_MAX_DEVICES] = Some i" "s' = s\<lparr>g_devs := (g_devs s)(i := Some d)\<rparr>"
      "\<not> registered s (bd_name (g_devinfo s d))"
    using assms by (auto simp: blk_register_def Let_def split: if_splits option.splits)
  have "bd_name (g_devinfo s e) \<noteq> bd_name (g_devinfo s d)" if "j < BLK_MAX_DEVICES" "g_devs s j = Some e" for j e
    using i(3) that unfolding registered_def by force
  with that i(2) find_SomeD [OF i(1)] show thesis by auto
qed

lemma add_partition_grows:
  assumes "add_partition heap disk number start sectors type guid s = (r, s')" "heap_ok heap" "on_bus (pt_blk s) disk"
  shows "grows disk (pt_blk s) (of_bool (r = Inr ())) (pt_blk s')"
proof (cases "r = Inr ()")
  case False
  then have "pt_blk s' = pt_blk s"
    using assms(1) by (auto simp: add_partition_def Let_def split: if_splits option.splits prod.splits sum.splits)
  with False grows_same [of "pt_blk s" "pt_blk s'" disk] show ?thesis by simp
next
  case True
  let ?b = "pt_blk s"
  define dev where "dev = g_devinfo ?b disk"
  have range: "\<not> (sectors = 0 \<or> start > bd_sectors dev \<or> sectors > bd_sectors dev - start)"
    using assms(1) True by (auto simp: add_partition_def Let_def dev_def split: if_splits)
  obtain d a where h: "heap (pt_allocs s) ?b = Some (d, a)"
    using assms(1) True range by (cases "heap (pt_allocs s) ?b") (auto simp: add_partition_def Let_def dev_def)
  define part where "part = \<lparr>bd_name = part_name (bd_name dev) number, bd_sectors = sectors, bd_readonly = bd_readonly dev,
    bd_has_read = False, bd_has_write = False, bd_has_flush = False,
    bd_parent = Some disk, bd_start = start, bd_owned = True, bd_address = a\<rparr>"
  define b1 where "b1 = ?b\<lparr>g_devinfo := (g_devinfo ?b)(d := part)\<rparr>"
  obtain q b2 where reg: "blk_register d b1 = (q, b2)" by fastforce
  have res: "q = Inr ()" "pt_blk s' = b2"
    using assms(1) True range h reg
    by (auto simp: add_partition_def Let_def dev_def [symmetric] part_def [symmetric] b1_def [symmetric] split: sum.splits)
  have fresh: "g_devs ?b i \<noteq> Some d" if "i < BLK_MAX_DEVICES" for i using assms(2) h that unfolding heap_ok_def by blast
  obtain i where i: "i < BLK_MAX_DEVICES" "g_devs b1 i = None" "b2 = b1\<lparr>g_devs := (g_devs b1)(i := Some d)\<rparr>"
      "\<And>j e. j < BLK_MAX_DEVICES \<Longrightarrow> g_devs b1 j = Some e \<Longrightarrow> bd_name (g_devinfo b1 e) \<noteq> bd_name (g_devinfo b1 d)"
    using blk_register_cases [OF reg [unfolded res(1)]] by metis
  have b2: "g_devs b2 = (g_devs ?b)(i := Some d)" "g_devinfo b2 = (g_devinfo ?b)(d := part)" "g_devs ?b i = None"
    using i(2,3) by (simp_all add: b1_def)
  have "d \<noteq> disk" using fresh assms(3) unfolding on_bus_def by blast
  then have win: "is_window b2 disk d" using range b2(2) by (auto simp: is_window_def dev_def part_def)
  have new: "new_slots ?b b2 = {i}" using b2 i(1) unfolding new_slots_def by auto
  have other: "g_devinfo b2 e = g_devinfo ?b e" "e \<noteq> d" if "j < BLK_MAX_DEVICES" "g_devs ?b j = Some e" for j e
    using fresh that b2(2) by auto
  have name: "bd_name (g_devinfo ?b e) \<noteq> bd_name part" if "j < BLK_MAX_DEVICES" "g_devs ?b j = Some e" for j e
    using i(4) [of j e] that other [OF that] by (simp add: b1_def)
  have apart: "names_apart b2" if a: "names_apart ?b"
    unfolding names_apart_def
  proof (intro allI impI)
    fix j k x y
    assume jk: "j < BLK_MAX_DEVICES" "k < BLK_MAX_DEVICES" "g_devs b2 j = Some x" "g_devs b2 k = Some y"
      "bd_name (g_devinfo b2 x) = bd_name (g_devinfo b2 y)"
    have new: "bd_name (g_devinfo b2 d) = bd_name part" using b2(2) by simp
    consider "j = i" "k = i" | "j = i" "k \<noteq> i" | "j \<noteq> i" "k = i" | "j \<noteq> i" "k \<noteq> i" by blast
    then show "j = k"
    proof cases
      case 2
      with jk b2(1) have "x = d" "g_devs ?b k = Some y" by auto
      with name [OF jk(2)] other(1) [OF jk(2)] jk(5) new show ?thesis by metis
    next
      case 3
      with jk b2(1) have "y = d" "g_devs ?b j = Some x" by auto
      with name [OF jk(1)] other(1) [OF jk(1)] jk(5) new show ?thesis by metis
    next
      case 4
      with jk b2(1) have "g_devs ?b j = Some x" "g_devs ?b k = Some y" by auto
      with a jk(1,2,5) other(1) [OF jk(1)] other(1) [OF jk(2)] show ?thesis unfolding names_apart_def by metis
    qed simp
  qed
  show ?thesis
    unfolding grows_def res(2)
  proof (intro conjI allI impI)
    show "g_devs b2 j = Some e" if "j < BLK_MAX_DEVICES" "g_devs ?b j = Some e" for j e
      using that b2(1,3) by auto
    show "is_window b2 disk e" if "j < BLK_MAX_DEVICES \<and> g_devs ?b j = None \<and> g_devs b2 j = Some e" for j e
      using that win b2(1) by (auto split: if_splits)
  qed (use True new apart other in auto)
qed

text \<open>A part of the scan goes on counting from \<open>created\<close>.\<close>

definition counts :: "nat \<Rightarrow> nat \<times> 'w parts \<Rightarrow> nat \<times> 'w parts \<Rightarrow> bool" where
  "counts disk = (\<lambda>(n, s) (n', s'). n \<le> n' \<and> grows disk (pt_blk s) (n' - n) (pt_blk s'))"

lemma counts_refl [simp]: "counts disk cs cs"
  by (auto simp: counts_def grows_same split: prod.splits)

lemma counts_trans: "counts disk (n, s) (n1, s1) \<Longrightarrow> counts disk (n1, s1) cs \<Longrightarrow> on_bus (pt_blk s) disk \<Longrightarrow> counts disk (n, s) cs"
  using grows_trans [of disk "pt_blk s" "n1 - n" "pt_blk s1" "fst cs - n1" "pt_blk (snd cs)"]
  by (auto simp: counts_def split: prod.splits)

lemma grows_cong: "same_devs s s1 \<Longrightarrow> grows disk s1 k s2 \<longleftrightarrow> grows disk s k s2"
proof -
  assume "same_devs s s1"
  then have eq: "g_devs s1 = g_devs s" "g_devinfo s1 = g_devinfo s" by (simp_all add: same_devs_def)
  then have "new_slots s1 s2 = new_slots s s2" "names_apart s1 = names_apart s" by (simp_all add: new_slots_def names_apart_def)
  then show ?thesis by (simp only: grows_def eq)
qed

lemma counts_bus: "counts disk (n, s) (n', s') \<Longrightarrow> on_bus (pt_blk s) disk \<Longrightarrow> on_bus (pt_blk s') disk"
  unfolding counts_def using grows_disk by blast

lemma counts_read: "part_read drv disk lba s = (r, s') \<Longrightarrow> counts disk (n, s) (n, s')"
  using same_devs_part_read grows_same by (fastforce simp: counts_def)

lemma counts_add:
  assumes "add_partition heap disk number start sectors type guid s = (r, s')" "heap_ok heap" "on_bus (pt_blk s) disk"
  shows "counts disk (n, s) (n + of_bool (r = Inr ()), s')"
  using add_partition_grows [OF assms] by (simp add: counts_def)

lemma gpt_entry_counts:
  assumes "heap_ok heap" "on_bus (pt_blk s) disk"
  shows "counts disk (n, s) (gpt_entry heap disk g index e n s)"
proof -
  obtain r s1 where a: "add_partition heap disk (index + 1) (rd64 e 32) (rd64 e 40 - rd64 e 32 + 1) 0 (Some (take 16 e)) s = (r, s1)"
    by fastforce
  from counts_add [OF a assms, of n] a show ?thesis
    by (cases r) (simp_all add: gpt_entry_def Let_def)
qed

lemma gpt_entries_counts:
  assumes "gpt_entries drv heap disk g k index sector n s = (r, s')" "heap_ok heap" "on_bus (pt_blk s) disk"
  shows "counts disk (n, s) (case r of Inr n' \<Rightarrow> n' | Inl _ \<Rightarrow> n, s')"
  using assms(1,3)
proof (induction k arbitrary: index sector n s)
  case (Suc k)
  define per where "per = BLK_SECTOR_SIZE div gh_entry_size g"
  obtain q s1 where q: "(if index mod per = 0 then part_read drv disk (gh_entries_lba g + index div per) s else (Inr sector, s)) = (q, s1)"
    by fastforce
  have c1: "counts disk (m, s) (m, s1)" for m using q counts_read by (auto split: if_splits)
  note bus1 = counts_bus [OF c1 Suc.prems(2)]
  show ?case
  proof (cases q)
    case (Inl e)
    with Suc.prems q c1 show ?thesis by (auto simp: Let_def per_def [symmetric])
  next
    case (Inr sec)
    obtain n1 s2 where e: "gpt_entry heap disk g index (drop (index mod per * gh_entry_size g) sec) n s1 = (n1, s2)" by fastforce
    have c2: "counts disk (n, s1) (n1, s2)" using gpt_entry_counts [OF assms(2) bus1] e by metis
    have "gpt_entries drv heap disk g k (index + 1) sec n1 s2 = (r, s')"
      using Suc.prems(1) q Inr e by (simp add: Let_def per_def [symmetric])
    from Suc.IH [OF this counts_bus [OF c2 bus1]]
    have c3: "counts disk (n1, s2) (case r of Inr n' \<Rightarrow> n' | Inl _ \<Rightarrow> n1, s')" .
    have all: "counts disk (n, s) (case r of Inr n' \<Rightarrow> n' | Inl _ \<Rightarrow> n1, s')"
      using counts_trans [OF counts_trans [OF c1 c2 Suc.prems(2)] c3 Suc.prems(2)] .
    show ?thesis
    proof (cases r)
      case (Inl e)
      with all show ?thesis using grows_le by (fastforce simp: counts_def)
    qed (use all in simp)
  qed
qed auto

lemma gpt_crc_loop_returns:
  "\<exists>r s'. gpt_crc_loop drv disk entries_lba i crc remaining s = Some (r, s') \<and> counts disk (0, s) (0, s')"
proof (induction remaining arbitrary: i crc s rule: less_induct)
  case (less remaining)
  show ?case
  proof (cases "remaining = 0")
    case True
    then show ?thesis by (subst gpt_crc_loop.simps) simp
  next
    case False
    obtain q s1 where q: "part_read drv disk (entries_lba + i) s = (q, s1)" by fastforce
    note s1 = same_devs_part_read [OF q]
    show ?thesis
    proof (cases q)
      case (Inl e)
      with False q counts_read [OF q] show ?thesis by (subst gpt_crc_loop.simps) (simp add: Let_def)
    next
      case (Inr sector)
      define chunk where "chunk = (if remaining < BLK_SECTOR_SIZE then remaining else BLK_SECTOR_SIZE)"
      have "remaining - chunk < remaining" using False by (auto simp: chunk_def BLK_SECTOR_SIZE_def)
      then obtain r s' where
        "gpt_crc_loop drv disk entries_lba (i + 1) (blk_crc32 crc (take chunk sector)) (remaining - chunk) s1 = Some (r, s')"
        "counts disk (0, s1) (0, s')"
        using less.IH by blast
      moreover have "counts disk (0, s) (0, s')"
        using calculation(2) grows_cong [OF s1] by (simp add: counts_def)
      ultimately show ?thesis
        using False q Inr by (subst gpt_crc_loop.simps) (simp add: Let_def chunk_def)
    qed
  qed
qed

lemma scan_gpt_counts:
  assumes "heap_ok heap" "on_bus (pt_blk s) disk"
  shows "\<exists>r s'. scan_gpt drv heap disk s = Some (r, s') \<and> counts disk (0, s) (case r of Inr n \<Rightarrow> n | Inl _ \<Rightarrow> 0, s')"
proof -
  obtain q s1 where q: "part_read drv disk 1 s = (q, s1)" by fastforce
  have c1: "counts disk (0, s) (0, s1)" using counts_read [OF q] .
  show ?thesis
  proof (cases "\<exists>h g. q = Inr h \<and> gpt_header h (bd_sectors (g_devinfo (pt_blk s1) disk)) = Some g")
    case False
    with q c1 show ?thesis by (cases q) (auto simp: scan_gpt_def split: option.splits)
  next
    case True
    then obtain h g where h: "q = Inr h" "gpt_header h (bd_sectors (g_devinfo (pt_blk s1) disk)) = Some g" by blast
    obtain r s2 where l: "gpt_crc_loop drv disk (gh_entries_lba g) 0 0 (gh_table_bytes g) s1 = Some (r, s2)"
        "counts disk (0, s1) (0, s2)"
      using gpt_crc_loop_returns by blast
    have c2: "counts disk (0, s) (0, s2)" using counts_trans [OF c1 l(2) assms(2)] .
    note bus2 = counts_bus [OF c2 assms(2)]
    obtain q3 s3 where e: "gpt_entries drv heap disk g (gh_count g) 0 [] 0 s2 = (q3, s3)" by fastforce
    note c3 = counts_trans [OF c2 gpt_entries_counts [OF e assms(1) bus2] assms(2)]
    show ?thesis
    proof (cases "r = Inr (gh_entries_crc g)")
      case True
      with q h l e c3 show ?thesis by (simp add: scan_gpt_def)
    next
      case False
      with q h l c2 show ?thesis by (cases r) (auto simp: scan_gpt_def)
    qed
  qed
qed

lemma ebr_loop_counts:
  assumes "heap_ok heap" "on_bus (pt_blk s) disk"
  shows "counts disk (n, s) (ebr_loop hops drv heap disk ext_start ext_sectors ebr number n s)"
  using assms(2)
proof (induction hops arbitrary: ebr number n s)
  case (Suc hops)
  show ?case
  proof (cases "ebr \<ge> bd_sectors (g_devinfo (pt_blk s) disk)")
    case False
    obtain q s1 where q: "part_read drv disk ebr s = (q, s1)" by fastforce
    have c1: "counts disk (n, s) (n, s1)" using counts_read [OF q] .
    note bus1 = counts_bus [OF c1 Suc.prems]
    show ?thesis
    proof (cases q)
      case (Inl e)
      with False q c1 show ?thesis by simp
    next
      case (Inr sec)
      let ?t = MBR_TABLE_OFFSET
      obtain ok s2 where ok: "(if sec ! (?t + 4) \<noteq> 0 \<and> le32 sec (?t + 12) \<noteq> 0
          then (case add_partition heap disk number (ebr + le32 sec (?t + 8)) (le32 sec (?t + 12)) (sec ! (?t + 4)) None s1 of
                  (r, s2) \<Rightarrow> (r = Inr (), s2))
          else (False, s1)) = (ok, s2)" by fastforce
      have c2: "counts disk (n, s1) (n + of_bool ok, s2)"
      proof -
        obtain r s3 where a: "add_partition heap disk number (ebr + le32 sec (?t + 8)) (le32 sec (?t + 12)) (sec ! (?t + 4)) None s1 = (r, s3)"
          by fastforce
        from ok a counts_add [OF a assms(1) bus1, of n] show ?thesis by (cases "sec ! (?t + 4) \<noteq> 0 \<and> le32 sec (?t + 12) \<noteq> 0") auto
      qed
      note c2 = counts_trans [OF c1 c2 Suc.prems]
      note ih = counts_trans [OF c2 Suc.IH [OF counts_bus [OF c2 Suc.prems]] Suc.prems]
      have "(if ok then n + 1 else n) = n + of_bool ok" by simp
      with False q Inr ok c1 c2 ih show ?thesis
        unfolding ebr_loop.simps Let_def by (simp add: add.assoc)
    qed
  qed simp
qed simp

lemma mbr_entry_counts:
  assumes "heap_ok heap" "on_bus (pt_blk s) disk"
  shows "counts disk (n, s) (mbr_entry drv heap disk sec i (n, s))"
proof -
  let ?e = "MBR_TABLE_OFFSET + i * MBR_ENTRY_SIZE"
  obtain r s1 where a: "add_partition heap disk (i + 1) (le32 sec (?e + 8)) (le32 sec (?e + 12)) (sec ! (?e + 4)) None s = (r, s1)"
    by fastforce
  from counts_add [OF a assms, of n] a ebr_loop_counts [OF assms] show ?thesis
    by (cases r) (simp_all add: mbr_entry_def scan_extended_def Let_def)
qed

lemma mbr_fold_counts:
  assumes "heap_ok heap" "on_bus (pt_blk s) disk"
  shows "counts disk (n, s) (fold (mbr_entry drv heap disk sec) is (n, s))"
  using assms(2)
proof (induction "is" arbitrary: n s)
  case (Cons i "is")
  obtain n1 s1 where e: "mbr_entry drv heap disk sec i (n, s) = (n1, s1)" by fastforce
  have c1: "counts disk (n, s) (n1, s1)" using mbr_entry_counts [OF assms(1) Cons.prems] e by metis
  from counts_trans [OF c1 Cons.IH [OF counts_bus [OF c1 Cons.prems]] Cons.prems] e show ?case by simp
qed simp

lemma blk_scan_counts:
  assumes "heap_ok heap" "on_bus (pt_blk s) disk"
  shows "\<exists>r s'. blk_scan_partitions drv heap disk s = Some (r, s') \<and> counts disk (0, s) (case r of Inr n \<Rightarrow> n | Inl _ \<Rightarrow> 0, s')"
proof -
  obtain q s1 where q: "part_read drv disk 0 s = (q, s1)" by fastforce
  have c1: "counts disk (0, s) (0, s1)" using counts_read [OF q] .
  note bus1 = counts_bus [OF c1 assms(2)]
  show ?thesis
  proof (cases "bd_parent (g_devinfo (pt_blk s) disk) \<noteq> None \<or> bd_sectors (g_devinfo (pt_blk s) disk) < 2 \<or>
      (\<nexists>sec. q = Inr sec \<and> le16 sec 510 = 0xAA55 \<and> \<not> looks_like_fat_vbr sec)")
    case True
    with q c1 show ?thesis by (cases q) (auto simp: blk_scan_partitions_def)
  next
    case False
    then obtain sec where sec: "q = Inr sec" "le16 sec 510 = 0xAA55" "\<not> looks_like_fat_vbr sec" by blast
    obtain r s2 where g: "(if sec ! (MBR_TABLE_OFFSET + 4) = 0xEE then scan_gpt drv heap disk s1 else Some (Inl EINVAL, s1)) = Some (r, s2)"
        "counts disk (0, s1) (case r of Inr n \<Rightarrow> n | Inl _ \<Rightarrow> 0, s2)"
    proof (cases "sec ! (MBR_TABLE_OFFSET + 4) = 0xEE")
      case True
      with scan_gpt_counts [OF assms(1) bus1] that show thesis by fastforce
    qed (use that [of "Inl EINVAL" s1] in simp)
    note c2 = counts_trans [OF c1 g(2) assms(2)]
    show ?thesis
    proof (cases r)
      case (Inr n)
      with False q sec g c2 show ?thesis by (simp add: blk_scan_partitions_def)
    next
      case (Inl e)
      obtain n s3 where f: "fold (mbr_entry drv heap disk sec) [0..<4] (0, s2) = (n, s3)" by fastforce
      have c2': "counts disk (0, s) (0, s2)" using c2 Inl by simp
      have "counts disk (0, s2) (n, s3)" using mbr_fold_counts [OF assms(1) counts_bus [OF c2' assms(2)]] f by metis
      from counts_trans [OF c2' this assms(2)] False q sec g(1) Inl f show ?thesis
        by (simp add: blk_scan_partitions_def)
    qed
  qed
qed

section \<open>A disk with one partition\<close>

definition mbr_byte :: "nat \<Rightarrow> u8" where
  "mbr_byte i = (if i = 450 then 0x0C else if i = 454 then 1 else if i = 458 then 8 else
    if i = 510 then 0x55 else if i = 511 then 0xAA else 0)"

definition mbr_disk :: "ramdisks parts" where
  "mbr_disk =
    \<lparr>pt_blk = snd (ramdisk_create True 0 0xFFFF800000100000 ''ram0'' (Some mbr_byte) 16384 False (blk_init True boot_blk)),
     pt_info = (\<lambda>_. \<lparr>bd_part_type = 0, bd_part_guid = None\<rparr>), pt_allocs = 0\<rparr>"

definition mbr_heap :: "ramdisks dev_heap" where
  "mbr_heap n b = (if on_bus b 5 then None else Some (5, 0xFFFF800000200000))"

lemma mbr_heap_ok: "heap_ok mbr_heap"
  by (auto simp: heap_ok_def mbr_heap_def on_bus_def)

lemma mbr_disk_fields [simp]:
  "g_devinfo (pt_blk mbr_disk) 0 = \<lparr>bd_name = ''ram0'', bd_sectors = 32, bd_readonly = False, bd_has_read = True,
     bd_has_write = True, bd_has_flush = False, bd_parent = None, bd_start = 0, bd_owned = True,
     bd_address = 0xFFFF800000100000\<rparr>"
  "g_pool (pt_blk mbr_disk) b = \<lparr>bb_dev = None, bb_lba = 0, bb_refs = 0, bb_dirty = False, bb_data = replicate BLK_SECTOR_SIZE 0\<rparr>"
  "g_buckets (pt_blk mbr_disk) = (\<lambda>_. [])" "g_lru (pt_blk mbr_disk) = rev [0..<BCACHE_BUFFERS]" "g_ready (pt_blk mbr_disk)"
  "g_devs (pt_blk mbr_disk) = (\<lambda>_. None)(0 := Some 0)" "rd_mem (g_world (pt_blk mbr_disk) 0) = mbr_byte" "pt_allocs mbr_disk = 0"
  by (simp_all add: mbr_disk_def ramdisk_create_def blk_register_def blk_init_def boot_blk_def
      BLK_SECTOR_SIZE_def BLK_NAME_MAX_def registered_def BLK_MAX_DEVICES_def upt_rec)

lemma mbr_disk_bus: "on_bus (pt_blk mbr_disk) 0" "names_apart (pt_blk mbr_disk)"
  by (auto simp: on_bus_def names_apart_def BLK_MAX_DEVICES_def split: if_splits)

lemma mbr_disk_read:
  obtains s1 where "part_read g_ram_ops 0 0 mbr_disk = (Inr (map mbr_byte [0..<512]), s1)" "pt_allocs s1 = 0"
proof -
  let ?b = "pt_blk mbr_disk"
  have cons: "[0..<BCACHE_BUFFERS] = 0 # [Suc 0..<BCACHE_BUFFERS]"
    by (rule upt_conv_Cons) (simp add: BCACHE_BUFFERS_def)
  have "root_of ?b 0 0 = (0, 0)" by (simp add: root_of_root)
  moreover have "take_victim g_ram_ops ?b = (Inr 0, upd_buf 0 (\<lambda>x. x\<lparr>bb_dev := None\<rparr>) ?b)"
    using cons by (simp add: take_victim_def write_back_def hash_remove_def)
  ultimately obtain b1 where "buf_copy g_ram_ops 0 0 ?b = (Inr (map mbr_byte [0..<512]), b1)"
    by (simp add: buf_copy_def bread_def buf_get_def range_ok_def get_buf_def blk_lookup_def drv_read_def dv_read_ram ram_read_def
        install_buf_def Let_def BLK_SECTOR_SIZE_def)
  then have "blk_read_bytes g_ram_ops 0 0 512 ?b = (Inr (map mbr_byte [0..<512]), b1)"
    by (simp add: blk_read_bytes_def bytes_ok_def BLK_SECTOR_SIZE_def read_bytes_loop.simps sec_get_def)
  then show thesis using that [of "mbr_disk\<lparr>pt_blk := b1\<rparr>"] by (simp add: part_read_def BLK_SECTOR_SIZE_def)
qed

lemma mbr_disk_scan: "\<exists>s'. blk_scan_partitions g_ram_ops mbr_heap 0 mbr_disk = Some (Inr 1, s')"
proof -
  define sec where "sec = map mbr_byte [0..<512]"
  have at: "sec ! i = mbr_byte i" if "i < 512" for i using that by (simp add: sec_def)
  obtain s1 where s1: "part_read g_ram_ops 0 0 mbr_disk = (Inr sec, s1)" "pt_allocs s1 = 0"
    using mbr_disk_read unfolding sec_def by metis
  have devs: "g_devs (pt_blk s1) = (\<lambda>_. None)(0 := Some 0)" "g_devinfo (pt_blk s1) 0 = g_devinfo (pt_blk mbr_disk) 0"
    using same_devs_part_read [OF s1(1)] by (simp_all add: same_devs_def)
  obtain s2 where s2: "add_partition mbr_heap 0 1 1 8 0x0C None s1 = (Inr (), s2)"
    by (simp add: add_partition_def Let_def devs s1(2) mbr_heap_def on_bus_def blk_register_def registered_def part_name_def
        BLK_NAME_MAX_def add64_def BLK_MAX_DEVICES_def upt_rec part_digits.simps)
  have "mbr_entry g_ram_ops mbr_heap 0 sec 0 (0, s1) = (1, s2)"
    using s2 by (simp add: mbr_entry_def Let_def MBR_TABLE_OFFSET_def MBR_ENTRY_SIZE_def le32_def at mbr_byte_def is_extended_def)
  moreover have "mbr_entry g_ram_ops mbr_heap 0 sec i (n, s) = (n, s)" if "i \<in> {1, 2, 3}" for i n s
    using that by (auto simp: mbr_entry_def Let_def MBR_TABLE_OFFSET_def MBR_ENTRY_SIZE_def at mbr_byte_def)
  moreover have "[0..<4] = [0, 1, 2, 3 :: nat]" by (simp add: upt_rec)
  ultimately have "fold (mbr_entry g_ram_ops mbr_heap 0 sec) [0..<4] (0, s1) = (1, s2)" by simp
  then show ?thesis
    using s1(1) by (simp add: blk_scan_partitions_def le16_def at mbr_byte_def looks_like_fat_vbr_def MBR_TABLE_OFFSET_def)
qed

section \<open>Properties\<close>



text \<open>
  (C22) Scanning a disk always ends, whatever its sectors hold (the chain of extended boot records may be
  a cycle).  Devices that were registered stay as they were; every new one is a partition of the disk
  with at least one sector, lies within it, and its sectors are the sectors of the disk from its
  start on; the names stay different; and no more partitions are counted than were registered.
\<close>

theorem blk_scan_partitions_windows:
  assumes "heap_ok heap" and "on_bus (pt_blk s) disk" and "names_apart (pt_blk s)"
    and "bd_sectors (g_devinfo (pt_blk s) disk) < 2 ^ 64"
  shows "\<exists>r s'. blk_scan_partitions drv heap disk s = Some (r, s') \<and>
    (\<forall>i d. i < BLK_MAX_DEVICES \<and> g_devs (pt_blk s) i = Some d \<longrightarrow>
      g_devs (pt_blk s') i = Some d \<and> g_devinfo (pt_blk s') d = g_devinfo (pt_blk s) d) \<and>
    (\<forall>i d. i < BLK_MAX_DEVICES \<and> g_devs (pt_blk s) i = None \<and> g_devs (pt_blk s') i = Some d \<longrightarrow>
      is_window (pt_blk s') disk d \<and>
      dev_flat (pt_blk s') d disk (bd_start (g_devinfo (pt_blk s') d))) \<and>
    names_apart (pt_blk s') \<and> (\<forall>n. r = Inr n \<longrightarrow> n \<le> card (new_slots (pt_blk s) (pt_blk s')))"
proof -
  obtain r s' where scan: "blk_scan_partitions drv heap disk s = Some (r, s')"
      "counts disk (0, s) (case r of Inr n \<Rightarrow> n | Inl _ \<Rightarrow> 0, s')"
    using blk_scan_counts [OF assms(1,2)] by blast
  have g: "grows disk (pt_blk s) (case r of Inr n \<Rightarrow> n | Inl _ \<Rightarrow> 0) (pt_blk s')" using scan(2) by (simp add: counts_def)
  have disk: "g_devinfo (pt_blk s') disk = g_devinfo (pt_blk s) disk" using grows_disk [OF g assms(2)] by simp
  have "is_window (pt_blk s') disk d \<and> dev_flat (pt_blk s') d disk (bd_start (g_devinfo (pt_blk s') d))"
    if new: "i < BLK_MAX_DEVICES" "g_devs (pt_blk s) i = None" "g_devs (pt_blk s') i = Some d" for i d
  proof -
    have w: "is_window (pt_blk s') disk d" using g new unfolding grows_def by blast
    have "s' \<noteq> s" using new by auto
    then have "bd_parent (g_devinfo (pt_blk s) disk) = None"
      using scan(1) by (auto simp: blk_scan_partitions_def split: if_splits)
    with w disk assms(4) have "dev_flat (pt_blk s') d disk (bd_start (g_devinfo (pt_blk s') d))"
      unfolding dev_flat_def is_window_def by (auto intro!: root_of_partition)
    with w show ?thesis by blast
  qed
  moreover have "n \<le> card (new_slots (pt_blk s) (pt_blk s'))" if "r = Inr n" for n using g that by (simp add: grows_def)
  ultimately show ?thesis using scan(1) g assms(3) unfolding grows_def by blast
qed

theorem blk_scan_partitions_windows_witness:
  "\<exists>s'. blk_scan_partitions g_ram_ops mbr_heap 0 mbr_disk = Some (Inr 1, s') \<and> names_apart (pt_blk s') \<and>
    1 \<le> card (new_slots (pt_blk mbr_disk) (pt_blk s'))"
proof -
  obtain s' where s': "blk_scan_partitions g_ram_ops mbr_heap 0 mbr_disk = Some (Inr 1, s')" using mbr_disk_scan by blast
  with blk_scan_partitions_windows [OF mbr_heap_ok mbr_disk_bus, of g_ram_ops] show ?thesis by auto
qed

end
