(* ===== verification/Sched.thy ===== *)
theory Sched
  imports Prelude
begin

text \<open>
  The scheduler, \<^verbatim>\<open>src/proc/scheduler.c\<close>, with the life of a process as it reaches the scheduler: creating, starting,
  signalling, terminating and destroying (\<^verbatim>\<open>src/proc/process.c\<close>, \<^verbatim>\<open>src/proc/signal.c\<close>).  Processes are
  the indices of \<open>g_processes\<close>; each function takes the CPU it runs on.  A switch ends in
  \<open>task_switch\<close>; the incoming context then runs \<open>scheduler_finish_switch\<close>, which is a step of its own.  Functions that hold
  locks are atomic.  Address spaces, stacks and descriptors are left out.
\<close>

section \<open>State\<close>

definition MAX_PROCESSES :: nat where "MAX_PROCESSES = 32"
definition MAX_CPUS :: nat where "MAX_CPUS = 256"

datatype pstate =
    PROCESS_STATE_UNUSED | PROCESS_STATE_RUNNING | PROCESS_STATE_SLEEPING | PROCESS_STATE_STOPPED
  | PROCESS_STATE_ZOMBIE | PROCESS_STATE_BLOCKED

record sproc =
  sp_pid :: u32
  sp_ppid :: u32
  sp_exit_code :: int
  sp_signal_pending :: u32
  sp_state :: pstate
  sp_runtime_ticks :: u64
  sp_cpu_id :: nat
  sp_on_cpu :: bool
  sp_queued :: bool
  sp_block_reason :: "nat option"

definition proc_blank :: sproc where
  "proc_blank = \<lparr>sp_pid = 0, sp_ppid = 0, sp_exit_code = 0, sp_signal_pending = 0, sp_state = PROCESS_STATE_UNUSED, sp_runtime_ticks = 0, sp_cpu_id = 0, sp_on_cpu = False, sp_queued = False,
    sp_block_reason = None\<rparr>"

text \<open>The first \<open>count\<close> entries of \<open>processes\<close>, and \<open>next\<close>.\<close>

record cpu_runqueue =
  rq_processes :: "nat list"
  rq_next :: nat

text \<open>\<open>sd_cpus\<close> is the number of CPUs that \<open>hal_smp_cpu_count\<close> reports.\<close>

record sched =
  g_procs :: "nat \<Rightarrow> sproc"
  g_process_used :: "nat \<Rightarrow> bool"
  g_next_pid :: u32
  g_runqueues :: "nat \<Rightarrow> cpu_runqueue"
  g_current :: "nat \<Rightarrow> nat option"
  g_switched_from :: "nat \<Rightarrow> nat option"
  sd_cpus :: nat

definition upd_proc :: "nat \<Rightarrow> (sproc \<Rightarrow> sproc) \<Rightarrow> sched \<Rightarrow> sched" where
  "upd_proc p f s = s\<lparr>g_procs := (g_procs s)(p := f (g_procs s p))\<rparr>"

definition upd_queue :: "nat \<Rightarrow> (cpu_runqueue \<Rightarrow> cpu_runqueue) \<Rightarrow> sched \<Rightarrow> sched" where
  "upd_queue c f s = s\<lparr>g_runqueues := (g_runqueues s)(c := f (g_runqueues s c))\<rparr>"

section \<open>Operations\<close>

definition process_set_current :: "nat \<Rightarrow> nat option \<Rightarrow> sched \<Rightarrow> sched" where
  "process_set_current cpu proc s =
    (let s1 = s\<lparr>g_current := (g_current s)(cpu := proc)\<rparr>
     in case proc of None \<Rightarrow> s1 | Some p \<Rightarrow> upd_proc p (\<lambda>x. x\<lparr>sp_cpu_id := cpu, sp_on_cpu := True\<rparr>) s1)"

definition scheduler_finish_switch :: "nat \<Rightarrow> sched \<Rightarrow> sched" where
  "scheduler_finish_switch cpu s =
    (case g_switched_from s cpu of
       None \<Rightarrow> s
     | Some prev \<Rightarrow>
         upd_proc prev (\<lambda>x. x\<lparr>sp_on_cpu := False\<rparr>) (s\<lparr>g_switched_from := (g_switched_from s)(cpu := None)\<rparr>))"

definition process_init :: "sched \<Rightarrow> sched" where
  "process_init s =
    s\<lparr>g_procs := (\<lambda>_. proc_blank), g_process_used := (\<lambda>_. False), g_current := (\<lambda>_. None), g_next_pid := 1\<rparr>"

definition scheduler_init :: "sched \<Rightarrow> sched" where
  "scheduler_init s = process_init (s\<lparr>g_runqueues := (\<lambda>_. \<lparr>rq_processes = [], rq_next = 0\<rparr>)\<rparr>)"

definition scheduler_init_cpu :: "nat \<Rightarrow> nat \<Rightarrow> sched \<Rightarrow> sched" where
  "scheduler_init_cpu cpu cpu_id s = (if cpu_id \<ge> MAX_CPUS then s else process_set_current cpu None s)"

text \<open>The CPU with the shortest queue, the first of them.\<close>

definition lightest_cpu :: "sched \<Rightarrow> nat" where
  "lightest_cpu s =
    fst (fold (\<lambda>cpu (target, lightest).
           let count = length (rq_processes (g_runqueues s cpu))
           in if count < lightest then (cpu, count) else (target, lightest))
         [0..<sd_cpus s] (0, 2 ^ 64 - 1))"

definition scheduler_add :: "nat \<Rightarrow> sched \<Rightarrow> sched" where
  "scheduler_add p s =
    (if sp_queued (g_procs s p) then s
     else let target = lightest_cpu s; procs = rq_processes (g_runqueues s target)
          in if p \<in> set procs then s
             else if length procs < MAX_PROCESSES
             then upd_proc p (\<lambda>x. x\<lparr>sp_cpu_id := target, sp_queued := True\<rparr>)
                    (upd_queue target (\<lambda>q. q\<lparr>rq_processes := rq_processes q @ [p]\<rparr>) s)
             else s)"

definition scheduler_remove :: "nat \<Rightarrow> sched \<Rightarrow> sched" where
  "scheduler_remove p s =
    (let cpu = (if sp_cpu_id (g_procs s p) < MAX_CPUS then sp_cpu_id (g_procs s p) else 0);
         procs = remove1 p (rq_processes (g_runqueues s cpu))
     in if p \<notin> set (rq_processes (g_runqueues s cpu)) then s
        else upd_proc p (\<lambda>x. x\<lparr>sp_queued := False\<rparr>)
               (upd_queue cpu (\<lambda>q. q\<lparr>rq_processes := procs, rq_next := (if rq_next q \<ge> length procs then 0 else rq_next q)\<rparr>) s))"

definition can_run :: "sproc \<Rightarrow> bool" where
  "can_run x \<longleftrightarrow> sp_state x = PROCESS_STATE_RUNNING \<and> \<not> sp_on_cpu x"

text \<open>The loop of \<open>scheduler_pick_next\<close> with the entries still to check: the choice and the new \<open>next\<close>.\<close>

fun pick_loop :: "nat \<Rightarrow> (nat \<Rightarrow> sproc) \<Rightarrow> nat list \<Rightarrow> nat \<Rightarrow> nat option \<times> nat" where
  "pick_loop 0 procs q nxt = (None, nxt)"
| "pick_loop (Suc k) procs q nxt =
    (let nxt1 = (if nxt + 1 \<ge> length q then 0 else nxt + 1)
     in if can_run (procs (q ! nxt)) then (Some (q ! nxt), nxt1) else pick_loop k procs q nxt1)"

definition scheduler_pick_next :: "nat \<Rightarrow> sched \<Rightarrow> nat option \<times> sched" where
  "scheduler_pick_next cpu s =
    (let q = g_runqueues s cpu;
         (choice, nxt) = pick_loop (length (rq_processes q)) (g_procs s) (rq_processes q) (rq_next q)
     in (choice, upd_queue cpu (\<lambda>q. q\<lparr>rq_next := nxt\<rparr>) s))"

text \<open>The first half of a switch, up to \<open>task_switch\<close>.\<close>

definition scheduler_context_switch :: "nat \<Rightarrow> nat option \<Rightarrow> nat \<Rightarrow> sched \<Rightarrow> sched" where
  "scheduler_context_switch cpu from to s =
    (if from = Some to then s
     else process_set_current cpu (Some to) (s\<lparr>g_switched_from := (g_switched_from s)(cpu := from)\<rparr>))"

definition scheduler_switch_to_idle :: "nat \<Rightarrow> nat \<Rightarrow> sched \<Rightarrow> sched" where
  "scheduler_switch_to_idle cpu from s =
    process_set_current cpu None (s\<lparr>g_switched_from := (g_switched_from s)(cpu := Some from)\<rparr>)"

definition scheduler_yield :: "nat \<Rightarrow> sched \<Rightarrow> sched" where
  "scheduler_yield cpu s =
    (let from = g_current s cpu; (to, s1) = scheduler_pick_next cpu s
     in case to of
          None \<Rightarrow>
            (case from of
               None \<Rightarrow> s1
             | Some p \<Rightarrow> if sp_state (g_procs s1 p) \<noteq> PROCESS_STATE_RUNNING then scheduler_switch_to_idle cpu p s1 else s1)
        | Some t \<Rightarrow> if Some t \<noteq> from then scheduler_context_switch cpu from t s1 else s1)"

definition scheduler_block_current :: "nat \<Rightarrow> nat option \<Rightarrow> sched \<Rightarrow> sched" where
  "scheduler_block_current cpu reason s =
    (case g_current s cpu of
       None \<Rightarrow> s
     | Some p \<Rightarrow>
         scheduler_yield cpu (upd_proc p (\<lambda>x. x\<lparr>sp_block_reason := reason, sp_state := PROCESS_STATE_BLOCKED\<rparr>) s))"

definition scheduler_wake :: "nat \<Rightarrow> sched \<Rightarrow> sched" where
  "scheduler_wake p s =
    (if sp_state (g_procs s p) \<noteq> PROCESS_STATE_BLOCKED then s
     else scheduler_add p (upd_proc p (\<lambda>x. x\<lparr>sp_block_reason := None, sp_state := PROCESS_STATE_RUNNING\<rparr>) s))"

definition scheduler_tick :: "nat \<Rightarrow> sched \<Rightarrow> sched" where
  "scheduler_tick cpu s =
    scheduler_yield cpu
      (case g_current s cpu of
         None \<Rightarrow> s | Some p \<Rightarrow> upd_proc p (\<lambda>x. x\<lparr>sp_runtime_ticks := sp_runtime_ticks x + 1\<rparr>) s)"

section \<open>Processes\<close>

definition process_get :: "u32 \<Rightarrow> sched \<Rightarrow> nat option" where
  "process_get pid s = List.find (\<lambda>i. g_process_used s i \<and> sp_pid (g_procs s i) = pid) [0..<MAX_PROCESSES]"

text \<open>
  The slot that is taken and its first contents; \<open>fds\<close> and \<open>vm\<close> say whether the descriptor table
  and the address space could be created.
\<close>

definition process_create :: "nat \<Rightarrow> string \<Rightarrow> bool \<Rightarrow> bool \<Rightarrow> sched \<Rightarrow> nat option \<times> sched" where
  "process_create cpu name fds vm s =
    (if name = [] then (None, s)
     else case List.find (\<lambda>i. \<not> g_process_used s i) [0..<MAX_PROCESSES] of
            None \<Rightarrow> (None, s)
          | Some i \<Rightarrow>
              if \<not> fds \<or> \<not> vm then (None, s)
              else let s1 = upd_proc i (\<lambda>_. proc_blank) s;
                       ppid = (case g_current s1 cpu of None \<Rightarrow> 0 | Some p \<Rightarrow> sp_pid (g_procs s1 p))
                   in (Some i,
                       upd_proc i (\<lambda>x. x\<lparr>sp_pid := g_next_pid s1, sp_ppid := ppid, sp_state := PROCESS_STATE_STOPPED\<rparr>)
                         (s1\<lparr>g_process_used := (g_process_used s1)(i := True), g_next_pid := g_next_pid s1 + 1\<rparr>)))"

text \<open>What \<open>process_destroy\<close> does to the table, the queues and the current processes.\<close>

definition process_destroy :: "nat \<Rightarrow> sched \<Rightarrow> sched" where
  "process_destroy p s =
    (if \<not> (p < MAX_PROCESSES \<and> g_process_used s p) then s
     else let s1 = scheduler_remove p s;
              s2 = s1\<lparr>g_current := (\<lambda>c. if c < MAX_CPUS \<and> g_current s1 c = Some p then None else g_current s1 c)\<rparr>
          in (upd_proc p (\<lambda>_. proc_blank) s2)\<lparr>g_process_used := (g_process_used s2)(p := False)\<rparr>)"

text \<open>Starting a kernel process; \<open>stack\<close> says whether its stack could be allocated.\<close>

definition process_start :: "nat \<Rightarrow> bool \<Rightarrow> bool \<Rightarrow> sched \<Rightarrow> unit res \<times> sched" where
  "process_start p entry stack s =
    (if \<not> entry then (Inl EINVAL, s)
     else if \<not> stack then (Inl ENOMEM, s)
     else (Inr (), scheduler_add p (upd_proc p (\<lambda>x. x\<lparr>sp_state := PROCESS_STATE_RUNNING\<rparr>) s)))"

abbreviation SIGKILL :: int where "SIGKILL \<equiv> 9"
abbreviation SIGCHLD :: int where "SIGCHLD \<equiv> 17"
abbreviation SIGCONT :: int where "SIGCONT \<equiv> 18"

definition valid_signal :: "int \<Rightarrow> bool" where
  "valid_signal sig \<longleftrightarrow> sig > 0 \<and> sig < 32"

definition signal_bit :: "int \<Rightarrow> u32" where
  "signal_bit sig = push_bit (nat sig) 1"

text \<open>The part of \<open>signal_send\<close> after \<open>SIGKILL\<close> is dealt with.\<close>

definition signal_post :: "nat \<Rightarrow> int \<Rightarrow> sched \<Rightarrow> sched" where
  "signal_post p sig s =
    (let s1 = (if sig = SIGCONT \<and> sp_state (g_procs s p) = PROCESS_STATE_STOPPED
               then scheduler_add p (upd_proc p (\<lambda>x. x\<lparr>sp_state := PROCESS_STATE_RUNNING\<rparr>) s) else s);
         s2 = upd_proc p (\<lambda>x. x\<lparr>sp_signal_pending := sp_signal_pending x OR signal_bit sig\<rparr>) s1
     in if sp_state (g_procs s2 p) = PROCESS_STATE_BLOCKED then scheduler_wake p s2 else s2)"

text \<open>\<open>process_terminate\<close> sends \<open>SIGCHLD\<close>, so its \<open>signal_send\<close> does not come back to it.\<close>

definition process_terminate :: "nat \<Rightarrow> int \<Rightarrow> sched \<Rightarrow> sched" where
  "process_terminate p code s =
    (if sp_state (g_procs s p) = PROCESS_STATE_ZOMBIE then s
     else let s1 = scheduler_remove p (upd_proc p (\<lambda>x. x\<lparr>sp_exit_code := code, sp_state := PROCESS_STATE_ZOMBIE\<rparr>) s)
          in case process_get (sp_ppid (g_procs s1 p)) s1 of
               None \<Rightarrow> s1
             | Some parent \<Rightarrow>
                 let s2 = (case process_get (sp_pid (g_procs s1 parent)) s1 of None \<Rightarrow> s1 | Some q \<Rightarrow> signal_post q SIGCHLD s1)
                 in if sp_state (g_procs s2 parent) = PROCESS_STATE_BLOCKED then scheduler_wake parent s2 else s2)"

definition signal_send :: "u32 \<Rightarrow> int \<Rightarrow> sched \<Rightarrow> unit res \<times> sched" where
  "signal_send pid sig s =
    (if \<not> valid_signal sig then (Inl EINVAL, s)
     else case process_get pid s of
            None \<Rightarrow> (Inl ESRCH, s)
          | Some p \<Rightarrow> (Inr (), if sig = SIGKILL then process_terminate p (128 + sig) s else signal_post p sig s))"

section \<open>Steps\<close>

text \<open>
  What can happen on a machine: code on any CPU creates, starts, stops, wakes, signals, terminates and destroys processes and
  changes their states; a CPU that is not in the middle of a switch ticks, yields or blocks; a CPU in a switch
  finishes it.  A process is destroyed only when it is not on a CPU: \<open>process_waitpid\<close> relies on this without
  checking it.
\<close>

inductive sched_step :: "sched \<Rightarrow> sched \<Rightarrow> bool" where
  step_create: "sched_step s (snd (process_create c name fds vm s))"
| step_start: "g_process_used s p \<Longrightarrow> sched_step s (snd (process_start p entry stack s))"
| step_signal: "sched_step s (snd (signal_send pid sig s))"
| step_terminate: "g_process_used s p \<Longrightarrow> sched_step s (process_terminate p code s)"
| step_destroy: "\<not> sp_on_cpu (g_procs s p) \<Longrightarrow> sched_step s (process_destroy p s)"
| step_add: "g_process_used s p \<Longrightarrow> sched_step s (scheduler_add p s)"
| step_remove: "sched_step s (scheduler_remove p s)"
| step_state: "sched_step s (upd_proc p (\<lambda>x. x\<lparr>sp_state := st\<rparr>) s)"
| step_wake: "g_process_used s p \<Longrightarrow> sched_step s (scheduler_wake p s)"
| step_yield: "c < sd_cpus s \<Longrightarrow> g_switched_from s c = None \<Longrightarrow> sched_step s (scheduler_yield c s)"
| step_tick: "c < sd_cpus s \<Longrightarrow> g_switched_from s c = None \<Longrightarrow> sched_step s (scheduler_tick c s)"
| step_block: "c < sd_cpus s \<Longrightarrow> g_switched_from s c = None \<Longrightarrow> sched_step s (scheduler_block_current c reason s)"
| step_finish: "c < sd_cpus s \<Longrightarrow> sched_step s (scheduler_finish_switch c s)"

text \<open>The machine starts with the static data cleared.\<close>

definition sched_bss :: "nat \<Rightarrow> sched" where
  "sched_bss cpus =
    \<lparr>g_procs = (\<lambda>_. proc_blank), g_process_used = (\<lambda>_. False), g_next_pid = 0,
     g_runqueues = (\<lambda>_. \<lparr>rq_processes = [], rq_next = 0\<rparr>), g_current = (\<lambda>_. None), g_switched_from = (\<lambda>_. None), sd_cpus = cpus\<rparr>"

inductive sched_reach :: "nat \<Rightarrow> sched \<Rightarrow> bool" where
  reach_start: "0 < cpus \<Longrightarrow> cpus \<le> MAX_CPUS \<Longrightarrow> sched_reach cpus (scheduler_init (sched_bss cpus))"
| reach_next: "sched_reach cpus s \<Longrightarrow> sched_step s s' \<Longrightarrow> sched_reach cpus s'"

end
