(* ===== verification/SchedSpec.thy ===== *)
theory SchedSpec
  imports Sched
begin

text \<open>
  What the scheduler guarantees: over every interleaving of the CPUs no process runs on two of them and the
  queues agree with the process table, and round robin passes over no runnable process.
\<close>

section \<open>Invariant\<close>

abbreviation queue_of :: "sched \<Rightarrow> nat \<Rightarrow> nat list" where
  "queue_of s c \<equiv> rq_processes (g_runqueues s c)"

text \<open>CPU \<open>c\<close> uses the stack of \<open>p\<close>: it runs it or is still switching away from it.\<close>

definition uses_cpu :: "sched \<Rightarrow> nat \<Rightarrow> nat \<Rightarrow> bool" where
  "uses_cpu s p c \<longleftrightarrow> g_current s c = Some p \<or> g_switched_from s c = Some p"

definition queues_ok :: "sched \<Rightarrow> bool" where
  "queues_ok s \<longleftrightarrow>
    (\<forall>c p. p \<in> set (queue_of s c) \<longleftrightarrow> sp_queued (g_procs s p) \<and> sp_cpu_id (g_procs s p) = c) \<and>
    (\<forall>c. distinct (queue_of s c) \<and> (rq_next (g_runqueues s c) = 0 \<or> rq_next (g_runqueues s c) < length (queue_of s c))) \<and>
    (\<forall>p. sp_queued (g_procs s p) \<longrightarrow> sp_cpu_id (g_procs s p) < sd_cpus s \<and> g_process_used s p) \<and>
    (\<forall>p. g_process_used s p \<longrightarrow> p < MAX_PROCESSES)"

definition cpus_ok :: "sched \<Rightarrow> bool" where
  "cpus_ok s \<longleftrightarrow>
    (\<forall>p. sp_on_cpu (g_procs s p) \<longleftrightarrow> (\<exists>c. uses_cpu s p c)) \<and>
    (\<forall>p c c'. uses_cpu s p c \<longrightarrow> uses_cpu s p c' \<longrightarrow> c = c') \<and>
    (\<forall>p c. \<not> (g_current s c = Some p \<and> g_switched_from s c = Some p)) \<and>
    (\<forall>p c. uses_cpu s p c \<longrightarrow> c < sd_cpus s \<and> g_process_used s p)"

definition sched_ok :: "sched \<Rightarrow> bool" where
  "sched_ok s \<longleftrightarrow> 0 < sd_cpus s \<and> sd_cpus s \<le> MAX_CPUS \<and> queues_ok s \<and> cpus_ok s"

lemma upd_proc_sel [simp]:
  "g_procs (upd_proc p f s) = (g_procs s)(p := f (g_procs s p))"
  "g_process_used (upd_proc p f s) = g_process_used s"
  "g_next_pid (upd_proc p f s) = g_next_pid s"
  "g_runqueues (upd_proc p f s) = g_runqueues s"
  "g_current (upd_proc p f s) = g_current s"
  "g_switched_from (upd_proc p f s) = g_switched_from s"
  "sd_cpus (upd_proc p f s) = sd_cpus s"
  by (simp_all add: upd_proc_def)

lemma upd_queue_sel [simp]:
  "g_procs (upd_queue c f s) = g_procs s"
  "g_process_used (upd_queue c f s) = g_process_used s"
  "g_next_pid (upd_queue c f s) = g_next_pid s"
  "g_runqueues (upd_queue c f s) = (g_runqueues s)(c := f (g_runqueues s c))"
  "g_current (upd_queue c f s) = g_current s"
  "g_switched_from (upd_queue c f s) = g_switched_from s"
  "sd_cpus (upd_queue c f s) = sd_cpus s"
  by (simp_all add: upd_queue_def)

text \<open>An update of a process that leaves its place in the queues and on the CPUs alone keeps the invariant.\<close>

lemma sched_ok_upd_proc:
  assumes "sched_ok s" "\<And>x. sp_queued (f x) = sp_queued x" "\<And>x. sp_cpu_id (f x) = sp_cpu_id x" "\<And>x. sp_on_cpu (f x) = sp_on_cpu x"
  shows "sched_ok (upd_proc p f s)"
  using assms by (simp add: sched_ok_def queues_ok_def cpus_ok_def uses_cpu_def)

text \<open>The queue part does not depend on who is current, the CPU part not on the queues.\<close>

lemma cpus_ok_cong:
  assumes "cpus_ok s" "\<And>p. sp_on_cpu (g_procs s' p) = sp_on_cpu (g_procs s p)" "g_process_used s' = g_process_used s"
    "g_current s' = g_current s" "g_switched_from s' = g_switched_from s" "sd_cpus s' = sd_cpus s"
  shows "cpus_ok s'"
  using assms by (simp add: cpus_ok_def uses_cpu_def)

lemma queues_ok_cong:
  assumes "queues_ok s" "\<And>p. sp_queued (g_procs s' p) = sp_queued (g_procs s p)"
    "\<And>p. sp_queued (g_procs s p) \<Longrightarrow> sp_cpu_id (g_procs s' p) = sp_cpu_id (g_procs s p)"
    "g_process_used s' = g_process_used s" "g_runqueues s' = g_runqueues s" "sd_cpus s' = sd_cpus s"
  shows "queues_ok s'"
  using assms unfolding queues_ok_def by metis

lemma queues_okD:
  assumes "queues_ok s"
  shows "p \<in> set (queue_of s c) \<longleftrightarrow> sp_queued (g_procs s p) \<and> sp_cpu_id (g_procs s p) = c"
    and "distinct (queue_of s c)"
    and "rq_next (g_runqueues s c) = 0 \<or> rq_next (g_runqueues s c) < length (queue_of s c)"
    and "sp_queued (g_procs s p) \<Longrightarrow> sp_cpu_id (g_procs s p) < sd_cpus s \<and> g_process_used s p"
    and "g_process_used s p \<Longrightarrow> p < MAX_PROCESSES"
  using assms unfolding queues_ok_def by blast+

lemma queues_okI:
  assumes "\<And>p c. p \<in> set (queue_of s c) \<longleftrightarrow> sp_queued (g_procs s p) \<and> sp_cpu_id (g_procs s p) = c"
    and "\<And>c. distinct (queue_of s c)"
    and "\<And>c. rq_next (g_runqueues s c) = 0 \<or> rq_next (g_runqueues s c) < length (queue_of s c)"
    and "\<And>p. sp_queued (g_procs s p) \<Longrightarrow> sp_cpu_id (g_procs s p) < sd_cpus s \<and> g_process_used s p"
    and "\<And>p. g_process_used s p \<Longrightarrow> p < MAX_PROCESSES"
  shows "queues_ok s"
  using assms unfolding queues_ok_def by blast

section \<open>Queues\<close>

lemma lightest_fold:
  "0 < n \<Longrightarrow>
   fst (fold (\<lambda>cpu (target, lightest). let count = f cpu in if count < lightest then (cpu, count) else (target, lightest))
     [0..<n] (0 :: nat, b :: nat)) < n"
proof (induction n)
  case (Suc n)
  then show ?case by (cases "n = 0") (auto simp: Let_def split: prod.splits)
qed simp

lemma lightest_cpu_less: "0 < sd_cpus s \<Longrightarrow> lightest_cpu s < sd_cpus s"
  unfolding lightest_cpu_def by (rule lightest_fold)

lemma scheduler_add_ok:
  assumes ok: "sched_ok s" and used: "g_process_used s p"
  shows "sched_ok (scheduler_add p s)"
proof (cases "sp_queued (g_procs s p) \<or> p \<in> set (queue_of s (lightest_cpu s)) \<or> \<not> length (queue_of s (lightest_cpu s)) < MAX_PROCESSES")
  case True
  then show ?thesis using ok by (auto simp: scheduler_add_def Let_def)
next
  case False
  define t where "t = lightest_cpu s"
  have t: "t < sd_cpus s" using ok lightest_cpu_less by (simp add: t_def sched_ok_def)
  have eq: "scheduler_add p s = upd_proc p (\<lambda>x. x\<lparr>sp_cpu_id := t, sp_queued := True\<rparr>)
      (upd_queue t (\<lambda>q. q\<lparr>rq_processes := rq_processes q @ [p]\<rparr>) s)"
    using False by (simp add: scheduler_add_def t_def Let_def)
  have nq: "\<not> sp_queued (g_procs s p)" using False by simp
  have q: "queues_ok s" using ok by (simp add: sched_ok_def)
  note mem = queues_okD(1) [OF q]
  have "queues_ok (scheduler_add p s)"
  proof (rule queues_okI)
    show "x \<in> set (queue_of (scheduler_add p s) c) \<longleftrightarrow>
        sp_queued (g_procs (scheduler_add p s) x) \<and> sp_cpu_id (g_procs (scheduler_add p s) x) = c" for x c
      using nq by (auto simp: eq mem)
    show "distinct (queue_of (scheduler_add p s) c)" for c
      using nq queues_okD(2) [OF q, of c] by (auto simp: eq mem)
    show "rq_next (g_runqueues (scheduler_add p s) c) = 0 \<or>
        rq_next (g_runqueues (scheduler_add p s) c) < length (queue_of (scheduler_add p s) c)" for c
      using queues_okD(3) [OF q, of c] by (auto simp: eq)
    show "sp_cpu_id (g_procs (scheduler_add p s) x) < sd_cpus (scheduler_add p s) \<and> g_process_used (scheduler_add p s) x"
      if "sp_queued (g_procs (scheduler_add p s) x)" for x
      using that queues_okD(4) [OF q, of x] t used by (auto simp: eq split: if_splits)
    show "x < MAX_PROCESSES" if "g_process_used (scheduler_add p s) x" for x
      using that queues_okD(5) [OF q, of x] by (simp add: eq)
  qed
  moreover have "cpus_ok (scheduler_add p s)"
    by (rule cpus_ok_cong [of s]) (use ok in \<open>simp_all add: eq sched_ok_def\<close>)
  ultimately show ?thesis using ok by (simp add: sched_ok_def eq)
qed

lemma scheduler_remove_ok:
  assumes ok: "sched_ok s"
  shows "sched_ok (scheduler_remove p s)"
    and "\<not> sp_queued (g_procs (scheduler_remove p s) p)"
    and "g_current (scheduler_remove p s) = g_current s \<and> g_switched_from (scheduler_remove p s) = g_switched_from s \<and>
      g_process_used (scheduler_remove p s) = g_process_used s \<and>
      (\<forall>q. sp_on_cpu (g_procs (scheduler_remove p s) q) = sp_on_cpu (g_procs s q))"
proof -
  define c where "c = (if sp_cpu_id (g_procs s p) < MAX_CPUS then sp_cpu_id (g_procs s p) else 0)"
  define procs where "procs = remove1 p (queue_of s c)"
  have q: "queues_ok s" and le: "sd_cpus s \<le> MAX_CPUS" using ok by (simp_all add: sched_ok_def)
  note mem = queues_okD(1) [OF q]
  have c: "sp_queued (g_procs s p) \<Longrightarrow> sp_cpu_id (g_procs s p) = c"
    using queues_okD(4) [OF q, of p] le by (simp add: c_def)
  then have iff: "p \<in> set (queue_of s c) \<longleftrightarrow> sp_queued (g_procs s p)" using mem by blast
  have eq: "scheduler_remove p s =
      (if \<not> sp_queued (g_procs s p) then s
       else upd_proc p (\<lambda>x. x\<lparr>sp_queued := False\<rparr>)
         (upd_queue c (\<lambda>q. q\<lparr>rq_processes := procs, rq_next := (if rq_next q \<ge> length procs then 0 else rq_next q)\<rparr>) s))"
    using iff by (simp add: scheduler_remove_def Let_def procs_def c_def)
  show "\<not> sp_queued (g_procs (scheduler_remove p s) p)" by (simp add: eq)
  show frame: "g_current (scheduler_remove p s) = g_current s \<and> g_switched_from (scheduler_remove p s) = g_switched_from s \<and>
      g_process_used (scheduler_remove p s) = g_process_used s \<and>
      (\<forall>q. sp_on_cpu (g_procs (scheduler_remove p s) q) = sp_on_cpu (g_procs s q))"
    by (simp add: eq)
  have sd: "sd_cpus (scheduler_remove p s) = sd_cpus s" by (simp add: eq)
  have "queues_ok (scheduler_remove p s)"
  proof (cases "sp_queued (g_procs s p)")
    case True
    let ?s = "scheduler_remove p s"
    have procs: "set procs = set (queue_of s c) - {p}" "distinct procs" using queues_okD(2) [OF q, of c] by (simp_all add: procs_def)
    show ?thesis
    proof (rule queues_okI)
      show "x \<in> set (queue_of ?s d) \<longleftrightarrow> sp_queued (g_procs ?s x) \<and> sp_cpu_id (g_procs ?s x) = d" for x d
        using True c by (auto simp: eq mem procs)
      show "distinct (queue_of ?s d)" for d using True queues_okD(2) [OF q, of d] procs by (simp add: eq)
      show "rq_next (g_runqueues ?s d) = 0 \<or> rq_next (g_runqueues ?s d) < length (queue_of ?s d)" for d
        using True queues_okD(3) [OF q, of d] by (auto simp: eq)
      show "sp_cpu_id (g_procs ?s x) < sd_cpus ?s \<and> g_process_used ?s x" if "sp_queued (g_procs ?s x)" for x
        using that True queues_okD(4) [OF q, of x] by (auto simp: eq split: if_splits)
      show "x < MAX_PROCESSES" if "g_process_used ?s x" for x
        using that True queues_okD(5) [OF q, of x] by (simp add: eq)
    qed
  qed (use ok in \<open>simp add: eq sched_ok_def\<close>)
  moreover have "cpus_ok (scheduler_remove p s)"
    by (rule cpus_ok_cong [of s]) (use ok frame sd in \<open>simp_all add: sched_ok_def\<close>)
  ultimately show "sched_ok (scheduler_remove p s)" using ok sd by (simp add: sched_ok_def)
qed

section \<open>Switches\<close>

lemma pick_loop_sound:
  assumes "nxt = 0 \<or> nxt < length q" "q \<noteq> []"
  shows "(case fst (pick_loop k procs q nxt) of None \<Rightarrow> True | Some p \<Rightarrow> p \<in> set q \<and> can_run (procs p)) \<and>
    (snd (pick_loop k procs q nxt) = 0 \<or> snd (pick_loop k procs q nxt) < length q)"
  using assms
proof (induction k arbitrary: nxt)
  case (Suc k)
  have "nxt < length q" using Suc.prems by auto
  then show ?case using Suc.IH [of "if nxt + 1 \<ge> length q then 0 else nxt + 1"] Suc.prems
    by (auto simp: Let_def)
qed simp

lemma scheduler_pick_next_ok:
  assumes ok: "sched_ok s" and pick: "scheduler_pick_next c s = (r, s1)"
  shows "sched_ok s1"
    and "\<exists>nxt. s1 = upd_queue c (\<lambda>q. q\<lparr>rq_next := nxt\<rparr>) s"
    and "r = Some p \<Longrightarrow> p \<in> set (queue_of s c) \<and> can_run (g_procs s p)"
proof -
  define q where "q = queue_of s c"
  define n where "n = rq_next (g_runqueues s c)"
  define l where "l = pick_loop (length q) (g_procs s) q n"
  have s1: "s1 = upd_queue c (\<lambda>q. q\<lparr>rq_next := snd l\<rparr>) s" and r: "r = fst l"
    using pick by (auto simp: scheduler_pick_next_def Let_def l_def q_def n_def split: prod.splits)
  then show "\<exists>nxt. s1 = upd_queue c (\<lambda>q. q\<lparr>rq_next := nxt\<rparr>) s" by blast
  have qok: "queues_ok s" using ok by (simp add: sched_ok_def)
  then have n: "n = 0 \<or> n < length q" unfolding queues_ok_def n_def q_def by blast
  have l: "snd l = 0 \<or> snd l < length q" "fst l = Some p \<Longrightarrow> p \<in> set q \<and> can_run (g_procs s p)" for p
    using pick_loop_sound [where nxt = n and q = q and k = "length q" and procs = "g_procs s"] n
    by (cases "q = []"; auto simp: l_def split: option.splits)+
  show "r = Some p \<Longrightarrow> p \<in> set (queue_of s c) \<and> can_run (g_procs s p)" using l(2) by (simp add: r q_def)
  have "queues_ok s1"
  proof (rule queues_okI)
    show "x \<in> set (queue_of s1 d) \<longleftrightarrow> sp_queued (g_procs s1 x) \<and> sp_cpu_id (g_procs s1 x) = d" for x d
      using queues_okD(1) [OF qok] by (simp add: s1)
    show "distinct (queue_of s1 d)" for d using queues_okD(2) [OF qok] by (simp add: s1)
    show "rq_next (g_runqueues s1 d) = 0 \<or> rq_next (g_runqueues s1 d) < length (queue_of s1 d)" for d
      using queues_okD(3) [OF qok, of d] l(1) by (auto simp: s1 q_def)
    show "sp_cpu_id (g_procs s1 x) < sd_cpus s1 \<and> g_process_used s1 x" if "sp_queued (g_procs s1 x)" for x
      using that queues_okD(4) [OF qok, of x] by (simp add: s1)
    show "x < MAX_PROCESSES" if "g_process_used s1 x" for x using that queues_okD(5) [OF qok, of x] by (simp add: s1)
  qed
  moreover have "cpus_ok s1" by (rule cpus_ok_cong [of s]) (use ok in \<open>simp_all add: s1 sched_ok_def\<close>)
  ultimately show "sched_ok s1" using ok by (simp add: sched_ok_def s1)
qed

lemma process_set_current_sel [simp]:
  "g_current (process_set_current c r s) = (g_current s)(c := r)"
  "g_switched_from (process_set_current c r s) = g_switched_from s"
  "g_runqueues (process_set_current c r s) = g_runqueues s"
  "g_process_used (process_set_current c r s) = g_process_used s"
  "sd_cpus (process_set_current c r s) = sd_cpus s"
  "g_procs (process_set_current c r s) =
    (case r of None \<Rightarrow> g_procs s | Some p \<Rightarrow> (g_procs s)(p := (g_procs s p)\<lparr>sp_cpu_id := c, sp_on_cpu := True\<rparr>))"
  by (simp_all add: process_set_current_def Let_def split: option.splits)

text \<open>
  The first half of every switch: the CPU passes from its current process to a runnable one of its
  queue, or to none.
\<close>

lemma switch_ok:
  assumes ok: "sched_ok s" and c: "c < sd_cpus s" and idle: "g_switched_from s c = None"
    and r: "\<And>p. r = Some p \<Longrightarrow> p \<in> set (queue_of s c) \<and> can_run (g_procs s p)"
  shows "sched_ok (process_set_current c r (s\<lparr>g_switched_from := (g_switched_from s)(c := g_current s c)\<rparr>))"
    (is "sched_ok ?s")
proof -
  have q: "queues_ok s" and k: "cpus_ok s" using ok by (simp_all add: sched_ok_def)
  have new: "sp_cpu_id (g_procs s p) = c \<and> g_process_used s p \<and> \<not> sp_on_cpu (g_procs s p)" if "r = Some p" for p
    using r [OF that] queues_okD(1) [OF q, of p c] queues_okD(4) [OF q, of p] by (simp add: can_run_def)
  have "queues_ok ?s"
    by (rule queues_ok_cong [OF q]) (auto simp: new split: option.splits)
  moreover have "cpus_ok ?s"
  proof -
    have uses: "uses_cpu ?s p d \<longleftrightarrow> uses_cpu s p d \<or> d = c \<and> r = Some p" for p d
      using idle by (auto simp: uses_cpu_def)
    have free: "\<not> uses_cpu s p d" if "r = Some p" for p d
      using new [OF that] k unfolding cpus_ok_def by blast
    have on: "sp_on_cpu (g_procs ?s p) \<longleftrightarrow> sp_on_cpu (g_procs s p) \<or> r = Some p" for p
      by (auto split: option.splits)
    have "\<not> (g_current ?s d = Some p \<and> g_switched_from ?s d = Some p)" for p d
      using k free [of p d] unfolding cpus_ok_def by (auto simp: uses_cpu_def)
    moreover have "sp_on_cpu (g_procs ?s p) \<longleftrightarrow> (\<exists>d. uses_cpu ?s p d)" for p
      using k unfolding on uses cpus_ok_def by blast
    moreover have "uses_cpu ?s p d \<Longrightarrow> uses_cpu ?s p d' \<Longrightarrow> d = d'" for p d d'
      using k free unfolding uses cpus_ok_def by blast
    moreover have "uses_cpu ?s p d \<Longrightarrow> d < sd_cpus ?s \<and> g_process_used ?s p" for p d
      using k c new unfolding uses cpus_ok_def by auto
    ultimately show ?thesis unfolding cpus_ok_def by blast
  qed
  ultimately show ?thesis using ok by (simp add: sched_ok_def)
qed

lemma scheduler_yield_ok:
  assumes ok: "sched_ok s" and c: "c < sd_cpus s" and idle: "g_switched_from s c = None"
  shows "sched_ok (scheduler_yield c s)"
proof -
  obtain r s1 where pick: "scheduler_pick_next c s = (r, s1)" by fastforce
  note p = scheduler_pick_next_ok [OF ok pick]
  obtain nxt where s1: "s1 = upd_queue c (\<lambda>q. q\<lparr>rq_next := nxt\<rparr>) s" using p(2) by blast
  have "sched_ok (process_set_current c r' (s1\<lparr>g_switched_from := (g_switched_from s1)(c := g_current s1 c)\<rparr>))"
    if "r' = None \<or> r' = r" for r'
    by (rule switch_ok [OF p(1)]) (use c idle that p(3) in \<open>auto simp: s1\<close>)
  from this [of None] this [of r] show ?thesis
    using p(1) by (auto simp: scheduler_yield_def Let_def pick scheduler_switch_to_idle_def scheduler_context_switch_def s1
      split: option.splits)
qed

lemma scheduler_finish_switch_ok:
  assumes ok: "sched_ok s"
  shows "sched_ok (scheduler_finish_switch c s)"
proof (cases "g_switched_from s c")
  case (Some p)
  let ?s = "scheduler_finish_switch c s"
  have k: "cpus_ok s" using ok by (simp add: sched_ok_def)
  have eq: "?s = upd_proc p (\<lambda>x. x\<lparr>sp_on_cpu := False\<rparr>) (s\<lparr>g_switched_from := (g_switched_from s)(c := None)\<rparr>)"
    by (simp add: scheduler_finish_switch_def Some)
  have pc: "uses_cpu s p c" "g_current s c \<noteq> Some p" using Some k by (auto simp: uses_cpu_def cpus_ok_def)
  have one: "uses_cpu s q d \<Longrightarrow> uses_cpu s q d' \<Longrightarrow> d = d'" for q d d' using k unfolding cpus_ok_def by blast
  have uses: "uses_cpu ?s q d \<longleftrightarrow> uses_cpu s q d \<and> q \<noteq> p" for q d
  proof (cases "d = c")
    case False
    then have "\<not> uses_cpu s p d" using pc one by blast
    then show ?thesis using False by (auto simp: eq uses_cpu_def)
  qed (use Some pc in \<open>auto simp: eq uses_cpu_def\<close>)
  have on: "sp_on_cpu (g_procs ?s q) \<longleftrightarrow> sp_on_cpu (g_procs s q) \<and> q \<noteq> p" for q by (simp add: eq)
  have "\<not> (g_current ?s d = Some q \<and> g_switched_from ?s d = Some q)" for q d
    using k unfolding cpus_ok_def by (simp add: eq)
  moreover have "sp_on_cpu (g_procs ?s q) \<longleftrightarrow> (\<exists>d. uses_cpu ?s q d)" for q
    using k unfolding on uses cpus_ok_def by blast
  moreover have "uses_cpu ?s q d \<Longrightarrow> d < sd_cpus ?s \<and> g_process_used ?s q" for q d
    using k unfolding uses cpus_ok_def by (auto simp: eq)
  moreover have "uses_cpu ?s q d \<Longrightarrow> uses_cpu ?s q d' \<Longrightarrow> d = d'" for q d d' using one unfolding uses by blast
  ultimately have "cpus_ok ?s" unfolding cpus_ok_def by blast
  moreover have "queues_ok ?s"
    by (rule queues_ok_cong [of s]) (use ok in \<open>simp_all add: eq sched_ok_def\<close>)
  ultimately show ?thesis using ok by (simp add: sched_ok_def eq)
qed (use ok in \<open>simp add: scheduler_finish_switch_def\<close>)

section \<open>Processes\<close>

lemma scheduler_add_frame [simp]:
  "g_process_used (scheduler_add p s) = g_process_used s"
  "sp_state (g_procs (scheduler_add p s) q) = sp_state (g_procs s q)"
  by (simp_all add: scheduler_add_def Let_def)

lemma scheduler_remove_used [simp]: "g_process_used (scheduler_remove p s) = g_process_used s"
  by (simp add: scheduler_remove_def Let_def)

lemma scheduler_wake_ok:
  "sched_ok s \<Longrightarrow> g_process_used s p \<Longrightarrow> sched_ok (scheduler_wake p s)"
  by (simp add: scheduler_wake_def scheduler_add_ok sched_ok_upd_proc)

lemma process_get_used: "process_get pid s = Some p \<Longrightarrow> g_process_used s p"
  unfolding process_get_def by (drule find_SomeD) simp

lemma signal_post_ok:
  "sched_ok s \<Longrightarrow> g_process_used s p \<Longrightarrow> sched_ok (signal_post p sig s)"
  by (simp add: signal_post_def Let_def scheduler_add_ok sched_ok_upd_proc scheduler_wake_ok)

lemma signal_post_used [simp]: "g_process_used (signal_post p sig s) = g_process_used s"
  by (simp add: signal_post_def Let_def scheduler_wake_def)

lemma process_terminate_ok:
  assumes ok: "sched_ok s" and used: "g_process_used s p"
  shows "sched_ok (process_terminate p code s)"
proof (cases "sp_state (g_procs s p) = PROCESS_STATE_ZOMBIE")
  case False
  define s1 where "s1 = scheduler_remove p (upd_proc p (\<lambda>x. x\<lparr>sp_exit_code := code, sp_state := PROCESS_STATE_ZOMBIE\<rparr>) s)"
  have s1: "sched_ok s1" unfolding s1_def by (intro scheduler_remove_ok(1) sched_ok_upd_proc ok) simp_all
  show ?thesis
  proof (cases "process_get (sp_ppid (g_procs s1 p)) s1")
    case None
    then show ?thesis using False s1 by (simp add: process_terminate_def flip: s1_def)
  next
    case (Some parent)
    define s2 where "s2 = (case process_get (sp_pid (g_procs s1 parent)) s1 of None \<Rightarrow> s1 | Some q \<Rightarrow> signal_post q SIGCHLD s1)"
    have s2: "sched_ok s2" "g_process_used s2 = g_process_used s1"
      using s1 by (auto simp: s2_def signal_post_ok dest: process_get_used split: option.splits)
    have "process_terminate p code s = (if sp_state (g_procs s2 parent) = PROCESS_STATE_BLOCKED then scheduler_wake parent s2 else s2)"
      using False Some by (simp add: process_terminate_def s2_def flip: s1_def)
    then show ?thesis using s2 process_get_used [OF Some] by (simp add: scheduler_wake_ok)
  qed
qed (use ok in \<open>simp add: process_terminate_def\<close>)

lemma signal_send_ok: "sched_ok s \<Longrightarrow> sched_ok (snd (signal_send pid sig s))"
  by (auto simp: signal_send_def process_terminate_ok signal_post_ok dest: process_get_used split: option.splits)

lemma process_start_ok: "sched_ok s \<Longrightarrow> g_process_used s p \<Longrightarrow> sched_ok (snd (process_start p entry stack s))"
  by (simp add: process_start_def scheduler_add_ok sched_ok_upd_proc)

text \<open>A slot that is neither queued nor on a CPU can be cleared, taken or given back.\<close>

lemma sched_ok_slot:
  assumes ok: "sched_ok s" and free: "\<not> sp_queued (g_procs s p)" "\<not> sp_on_cpu (g_procs s p)" and "\<not> sp_queued x" "\<not> sp_on_cpu x"
    and "p < MAX_PROCESSES"
  shows "sched_ok (s\<lparr>g_procs := (g_procs s)(p := x), g_process_used := (g_process_used s)(p := b), g_next_pid := n\<rparr>)"
    (is "sched_ok ?s")
proof -
  have q: "queues_ok s" and k: "cpus_ok s" using ok by (simp_all add: sched_ok_def)
  have nu: "\<not> uses_cpu s p c" for c using k free unfolding cpus_ok_def by blast
  have "queues_ok ?s"
    by (rule queues_okI) (use queues_okD [OF q] assms in \<open>auto split: if_splits\<close>)
  moreover have "cpus_ok ?s" using k nu assms unfolding cpus_ok_def uses_cpu_def by auto
  ultimately show ?thesis using ok by (simp add: sched_ok_def)
qed

lemma process_create_ok:
  assumes ok: "sched_ok s"
  shows "sched_ok (snd (process_create c name fds vm s))"
proof (cases "snd (process_create c name fds vm s) = s")
  case False
  then obtain i where find: "List.find (\<lambda>i. \<not> g_process_used s i) [0..<MAX_PROCESSES] = Some i"
    by (auto simp: process_create_def split: if_splits option.splits)
  then have i: "\<not> g_process_used s i" "i < MAX_PROCESSES" using find_SomeD by fastforce+
  have "\<not> sp_queued (g_procs s i)" "\<not> sp_on_cpu (g_procs s i)"
    using ok i unfolding sched_ok_def queues_ok_def cpus_ok_def by blast+
  then have slot: "sched_ok (s\<lparr>g_procs := (g_procs s)(i := x), g_process_used := (g_process_used s)(i := True), g_next_pid := n\<rparr>)"
    if "\<not> sp_queued x" "\<not> sp_on_cpu x" for x n
    using sched_ok_slot [OF ok _ _ that i(2)] by blast
  have eq: "snd (process_create c name fds vm s) =
      s\<lparr>g_procs := (g_procs s)(i := g_procs (snd (process_create c name fds vm s)) i), g_process_used := (g_process_used s)(i := True),
        g_next_pid := g_next_pid s + 1\<rparr>"
    and x: "\<not> sp_queued (g_procs (snd (process_create c name fds vm s)) i) \<and> \<not> sp_on_cpu (g_procs (snd (process_create c name fds vm s)) i)"
    using False find by (auto simp: process_create_def Let_def upd_proc_def proc_blank_def split: if_splits)
  show ?thesis by (subst eq, rule slot) (use x in auto)
qed (simp add: ok)

lemma process_destroy_ok:
  assumes ok: "sched_ok s" and off: "\<not> sp_on_cpu (g_procs s p)"
  shows "sched_ok (process_destroy p s)"
proof (cases "p < MAX_PROCESSES \<and> g_process_used s p")
  case True
  let ?r = "scheduler_remove p s"
  note rm = scheduler_remove_ok [OF ok, of p]
  have k: "cpus_ok ?r" using rm(1) by (simp add: sched_ok_def)
  have off': "\<not> sp_on_cpu (g_procs ?r p)" using off rm(3) by simp
  then have "g_current ?r c \<noteq> Some p" for c using k unfolding cpus_ok_def uses_cpu_def by blast
  then have cur: "(\<lambda>c. if c < MAX_CPUS \<and> g_current ?r c = Some p then None else g_current ?r c) = g_current ?r" by auto
  have eq: "process_destroy p s =
      ?r\<lparr>g_procs := (g_procs ?r)(p := proc_blank), g_process_used := (g_process_used ?r)(p := False), g_next_pid := g_next_pid ?r\<rparr>"
    using True by (simp add: process_destroy_def Let_def cur upd_proc_def)
  show ?thesis unfolding eq by (rule sched_ok_slot) (use rm off' True in \<open>auto simp: proc_blank_def\<close>)
qed (use ok in \<open>simp add: process_destroy_def\<close>)

section \<open>Every interleaving\<close>

lemma sched_step_ok: "sched_step s s' \<Longrightarrow> sched_ok s \<Longrightarrow> sched_ok s'"
proof (induction rule: sched_step.induct)
  case (step_tick c s)
  have "sched_ok (case g_current s c of None \<Rightarrow> s | Some p \<Rightarrow> upd_proc p (\<lambda>x. x\<lparr>sp_runtime_ticks := sp_runtime_ticks x + 1\<rparr>) s)"
    using step_tick.prems by (auto simp: sched_ok_upd_proc split: option.splits)
  then show ?case unfolding scheduler_tick_def
    by (rule scheduler_yield_ok) (use step_tick.hyps in \<open>auto split: option.splits\<close>)
next
  case (step_block c s reason)
  then show ?case
    by (auto simp: scheduler_block_current_def sched_ok_upd_proc intro!: scheduler_yield_ok split: option.splits)
qed (simp_all add: process_create_ok process_start_ok signal_send_ok process_terminate_ok process_destroy_ok scheduler_add_ok
  scheduler_remove_ok sched_ok_upd_proc scheduler_wake_ok scheduler_yield_ok scheduler_finish_switch_ok)

lemma scheduler_init_ok: "0 < cpus \<Longrightarrow> cpus \<le> MAX_CPUS \<Longrightarrow> sched_ok (scheduler_init (sched_bss cpus))"
  by (simp add: scheduler_init_def process_init_def sched_bss_def sched_ok_def queues_ok_def cpus_ok_def uses_cpu_def proc_blank_def)

lemma sched_reach_ok: "sched_reach cpus s \<Longrightarrow> sched_ok s"
  by (induction rule: sched_reach.induct) (auto intro: scheduler_init_ok sched_step_ok)

lemma queue_length_le:
  assumes "queues_ok s"
  shows "length (queue_of s c) \<le> MAX_PROCESSES"
proof -
  have "set (queue_of s c) \<subseteq> {..<MAX_PROCESSES}" using queues_okD [OF assms] by blast
  then have "card (set (queue_of s c)) \<le> MAX_PROCESSES" by (metis card_lessThan card_mono finite_lessThan)
  then show ?thesis using queues_okD(2) [OF assms, of c] by (simp add: distinct_card)
qed


section \<open>Round robin\<close>

definition rr_dist :: "nat \<Rightarrow> nat \<Rightarrow> nat \<Rightarrow> nat" where
  "rr_dist n k len = (if n \<le> k then k - n else len - n + k)"

lemma pick_loop_advance:
  assumes "n < length q" "k < length q" "can_run (procs (q ! k))" "rr_dist n k (length q) < fuel"
  shows "(\<exists>p. fst (pick_loop fuel procs q n) = Some p) \<and> snd (pick_loop fuel procs q n) < length q \<and>
    (fst (pick_loop fuel procs q n) = Some (q ! k) \<or> rr_dist (snd (pick_loop fuel procs q n)) k (length q) < rr_dist n k (length q))"
  using assms
proof (induction fuel arbitrary: n)
  case (Suc fuel)
  define n1 where "n1 = (if n + 1 \<ge> length q then 0 else n + 1)"
  have n1: "n1 < length q" using Suc.prems by (auto simp: n1_def)
  have d: "n = k \<or> rr_dist n k (length q) = Suc (rr_dist n1 k (length q))"
    using Suc.prems by (auto simp: n1_def rr_dist_def)
  have step: "pick_loop (Suc fuel) procs q n = (if can_run (procs (q ! n)) then (Some (q ! n), n1) else pick_loop fuel procs q n1)"
    by (simp add: n1_def)
  show ?case
  proof (cases "can_run (procs (q ! n))")
    case True
    then show ?thesis using n1 d unfolding step by auto
  next
    case False
    then have ne: "n \<noteq> k" using Suc.prems by auto
    then have "rr_dist n1 k (length q) < fuel" using d Suc.prems by simp
    from Suc.IH [OF n1 Suc.prems(2,3) this] show ?thesis using False d ne unfolding step by auto
  qed
qed simp

lemma rr_dist_less: "n < len \<Longrightarrow> k < len \<Longrightarrow> rr_dist n k len < len"
  by (auto simp: rr_dist_def)

text \<open>Successive choices of a CPU, each from the process table of its moment.\<close>

fun pick_run :: "nat \<Rightarrow> (nat \<Rightarrow> sproc) list \<Rightarrow> sched \<Rightarrow> nat option list" where
  "pick_run c [] s = []"
| "pick_run c (procs # rest) s = (let (r, s1) = scheduler_pick_next c (s\<lparr>g_procs := procs\<rparr>) in r # pick_run c rest s1)"

lemma pick_run_reaches:
  assumes "rq_next (g_runqueues s c) < length (queue_of s c)" "k < length (queue_of s c)"
    "\<And>procs. procs \<in> set tables \<Longrightarrow> can_run (procs (queue_of s c ! k))"
    "rr_dist (rq_next (g_runqueues s c)) k (length (queue_of s c)) < length tables"
  shows "Some (queue_of s c ! k) \<in> set (pick_run c tables s)"
  using assms
proof (induction tables arbitrary: s)
  case (Cons procs tables)
  define q where "q = queue_of s c"
  define l where "l = pick_loop (length q) procs q (rq_next (g_runqueues s c))"
  define s1 where "s1 = upd_queue c (\<lambda>q. q\<lparr>rq_next := snd l\<rparr>) (s\<lparr>g_procs := procs\<rparr>)"
  have run: "pick_run c (procs # tables) s = fst l # pick_run c tables s1"
    by (simp add: scheduler_pick_next_def l_def q_def s1_def Let_def split: prod.splits)
  have q1: "queue_of s1 c = q" "rq_next (g_runqueues s1 c) = snd l" by (simp_all add: s1_def q_def)
  have adv: "snd l < length q" "fst l = Some (q ! k) \<or> rr_dist (snd l) k (length q) < rr_dist (rq_next (g_runqueues s c)) k (length q)"
    using pick_loop_advance [of "rq_next (g_runqueues s c)" q k procs "length q"] Cons.prems rr_dist_less
    by (auto simp: l_def q_def)
  show ?case
  proof (cases "fst l = Some (q ! k)")
    case False
    then have "rr_dist (snd l) k (length q) < length tables" using adv(2) Cons.prems(4) by (simp add: q_def)
    then have "Some (queue_of s1 c ! k) \<in> set (pick_run c tables s1)"
      using adv(1) Cons.prems by (intro Cons.IH) (auto simp: q1 q_def)
    then show ?thesis unfolding run by (simp add: q1 q_def)
  next
    case True
    then show ?thesis unfolding run by (simp add: q_def)
  qed
qed simp


section \<open>Runs\<close>

text \<open>Two CPUs and four processes started on them; the first CPU runs process 0 and then yields.\<close>

definition demo_start :: "nat \<Rightarrow> sched \<Rightarrow> sched" where
  "demo_start p s = snd (process_start p True True (snd (process_create 0 ''job'' True True s)))"

definition demo_sched :: sched where
  "demo_sched =
    scheduler_yield 0 (scheduler_yield 0 (demo_start 3 (demo_start 2 (demo_start 1 (demo_start 0 (scheduler_init (sched_bss 2)))))))"

lemma demo_start_reach: "sched_reach n s \<Longrightarrow> g_process_used (snd (process_create 0 ''job'' True True s)) p \<Longrightarrow> sched_reach n (demo_start p s)"
  unfolding demo_start_def by (rule reach_next [OF reach_next [OF _ step_create] step_start])

lemma demo_sched_reach: "sched_reach 2 demo_sched"
proof -
  let ?s0 = "scheduler_init (sched_bss 2)"
  let ?s1 = "demo_start 0 ?s0"
  let ?s2 = "demo_start 1 ?s1"
  let ?s3 = "demo_start 2 ?s2"
  let ?s4 = "demo_start 3 ?s3"
  have r: "sched_reach 2 ?s0" by (rule reach_start) (simp_all add: MAX_CPUS_def)
  have r: "sched_reach 2 ?s1" by (rule demo_start_reach [OF r]) code_simp
  have r: "sched_reach 2 ?s2" by (rule demo_start_reach [OF r]) code_simp
  have r: "sched_reach 2 ?s3" by (rule demo_start_reach [OF r]) code_simp
  have r: "sched_reach 2 ?s4" by (rule demo_start_reach [OF r]) code_simp
  have r: "sched_reach 2 (scheduler_yield 0 ?s4)"
    by (rule reach_next [OF r], rule step_yield) code_simp+
  show ?thesis unfolding demo_sched_def by (rule reach_next [OF r], rule step_yield) code_simp+
qed

lemma demo_sched_facts:
  "g_current demo_sched 0 = Some 2" "g_switched_from demo_sched 0 = Some 0" "sd_cpus demo_sched = 2"
  "rq_processes (g_runqueues demo_sched 1) = [1, 3]" "rq_processes (g_runqueues demo_sched 0) = [0, 2]"
  "can_run (g_procs demo_sched 1)" "can_run (g_procs demo_sched 3)"
  by code_simp+



text \<open>
  \<open>process_waitpid\<close> destroys a zombie without looking at \<open>on_cpu\<close>.  Here CPU 0 is still switching away from the
  zombie 0 when its slot is cleared and given to a new process, which CPU 1 picks; when CPU 0 finishes its switch, the
  new process runs on CPU 1 with \<open>on_cpu\<close> cleared, so that another CPU may resume it.
\<close>

definition demo_reaped :: sched where
  "demo_reaped =
    (let s = scheduler_yield 0 (demo_start 2 (demo_start 1 (demo_start 0 (scheduler_init (sched_bss 2)))));
         s = process_terminate 1 0 (scheduler_yield 0 (process_terminate 0 0 s));
         s = scheduler_yield 1 (demo_start 0 (process_destroy 0 s))
     in scheduler_finish_switch 0 s)"

lemma waitpid_reaps_on_cpu:
  "g_current demo_reaped 1 = Some 0 \<and> sp_state (g_procs demo_reaped 0) = PROCESS_STATE_RUNNING \<and> \<not> sp_on_cpu (g_procs demo_reaped 0)"
  by code_simp

end
