(* ===== verification/Spec2Isabelle.thy ===== *)
theory Spec2Isabelle
  imports PipeFd Tmpfs Ramdisk FatEntry FatMount FatVnode KheapSpec VfsSpec VfsDir BlkPartSpec SchedSpec
begin

text \<open>
  A verification development for the tach kernel: memory management, scheduling, pipes and descriptors,
  the block layer with partitions, and the file systems.  Paths of files below are relative to \<^verbatim>\<open>src/\<close>.

  \<^bold>\<open>Parts and how they interact.\<close>  The frame allocator owns physical memory; the kernel heap carves blocks out
  of an arena and asks the frame allocator for large ones.  Processes run under the scheduler and
  hold descriptor tables; a descriptor names a vnode, and its hooks tell pipes and tmpfs files when
  they are duplicated and released.  The virtual file system normalises paths and routes them to
  mounted file systems, tmpfs, procfs, memory files or devices.  FAT32 works on sectors through the
  block layer, which caches the sectors of disks; partitions are windows of disks.

  \<^bold>\<open>Conventions.\<close>  Functions of the code keep their names.  A structure is a record, global variables are fields of
  the state of their component, and a function that changes them takes the state and gives it
  back.  An error return is \<open>Inl\<close> of an error code.  Words keep their width where overflow
  matters; addresses and sizes are naturals otherwise.  What a component asks of code that is
  not modelled (heap, clock, driver, boot loader, other CPUs) is an argument.  Functions that
  hold a lock throughout are atomic.

  \<^bold>\<open>Theories.\<close>
  \<^item> \<open>Prelude\<close>: integer types, error codes, open flags, the collections of simplification rules and
    generic lemmas.  \<open>Io\<close>: sequencing of operations that may fail, with their rules.
  \<^item> \<open>Pmm\<close>: the frame allocator, \<^verbatim>\<open>src/mm/pmm.c\<close>, with its bitmap, reference counts and counters.  The invariant
    relates them under every sequence of calls; allocation is complete; references balance; the
    free frames after \<open>pmm_init\<close> are those of the memory map.  The locale \<open>frame_allocator\<close> is the contract that
    sharers of frames use.
  \<^item> \<open>Kheap\<close>, \<open>KheapSpec\<close>: the heap, \<^verbatim>\<open>src/mm/kheap.c\<close>, with its list of block headers as a map from addresses.  The list
    always tiles the arena; allocation, release and resizing against their contracts; a wrap-around of sizes.
  \<^item> \<open>Sched\<close>, \<open>SchedSpec\<close>: the scheduler, \<^verbatim>\<open>src/proc/scheduler.c\<close>, and the life of processes as it sees them,
    \<^verbatim>\<open>src/proc/process.c\<close> and \<^verbatim>\<open>src/proc/signal.c\<close>.  A step relation interleaves the CPUs, with the two halves of a
    switch as separate steps; no process is on two CPUs, and round robin is fair.
  \<^item> \<open>Fifo\<close>, \<open>Pipe\<close>, \<open>Fd\<close>, \<open>PipeFd\<close>: pipes, \<^verbatim>\<open>src/proc/pipe.c\<close>, and descriptor tables, \<^verbatim>\<open>src/proc/fd.c\<close>.  The locale \<open>byte_fifo\<close> gives
    the history of a queue under every interleaving; the locale \<open>descriptor_hooks\<close> says that hooks count
    descriptors, once for pipe ends and once for tmpfs files.
  \<^item> \<open>Tmpfs\<close>: \<^verbatim>\<open>src/fs/tmpfs.c\<close> with \<open>sys_open\<close>, \<open>sys_close\<close> and \<open>sys_unlink\<close> of \<^verbatim>\<open>src/proc/syscall.c\<close> on its files.  Writes refine
    writes to byte sequences; files in use are not removed; the leak of a failed open is proved.
  \<^item> \<open>Blk\<close>, \<open>BlkCache\<close>, \<open>BlkStore\<close>, \<open>Ramdisk\<close>: the block layer, \<^verbatim>\<open>src/drivers/block/blk.c\<close>, and the memory-backed disk,
    \<^verbatim>\<open>src/drivers/block/ramdisk.c\<close>.  The locale \<open>disk_driver\<close> is what a driver promises; the cache is proved coherent and durable for
    every such driver, and the RAM disk interprets it.
  \<^item> \<open>BlkPart\<close>, \<open>BlkPartSpec\<close>: partition tables, \<^verbatim>\<open>src/drivers/block/blk_part.c\<close>.  Scanning ends whatever the disk holds, and
    registers windows inside the disk.
  \<^item> \<open>Store\<close>: the locale \<open>sector_store\<close>, what file systems rely on in the block layer; every \<open>disk_driver\<close> provides it.
  \<^item> \<open>FatField\<close>, \<open>FatName\<close>, \<open>FatEntry\<close>, \<open>Fat\<close>, \<open>FatDir\<close>, \<open>FatFile\<close>, \<open>FatOps\<close>, \<open>FatVnode\<close>, \<open>FatAlloc\<close>, \<open>FatChain\<close>, \<open>FatMount\<close>:
    \<^verbatim>\<open>src/fs/fat32.c\<close>.  Names round-trip through directory entries; allocation and freeing of clusters
    change exactly what they should and keep the free count exact; a volume that mounts has a consistent
    geometry.  The definitions of directories, file data, operations and vnodes are complete; their theorems are those of
    names, clusters and mounting.
  \<^item> \<open>VfsPath\<close>, \<open>Vfs\<close>, \<open>VfsSpec\<close>, \<open>VfsDir\<close>: the virtual file system, \<^verbatim>\<open>src/fs/vfs.c\<close>.  Normalisation computes canonical
    paths; the mount table stays well formed and routes to the longest mount; listings
    enumerate directories; memory files can be read back.
  \<^item> \<open>Printf\<close>, \<open>Procfs\<close>: formatted output, \<^verbatim>\<open>src/lib/printf.c\<close>, and the files generated with it, \<^verbatim>\<open>src/fs/procfs.c\<close>.
  \<^item> This theory joins FAT32 to the block layer on the RAM disk.

  \<^bold>\<open>Loops and bounds.\<close>  Loops are structural or have a termination proof, with these exceptions.  \<open>find_fit\<close> (the walk over
  the heap's list) and \<open>gpt_crc_loop\<close> are partial functions; both are proved to return on the states that occur.
  The parent chain of a block device and the recursion of \<open>blk_unregister\<close> use the size of the device registry as fuel: parents
  are registered before their partitions, so that no chain is longer.  Blocking reads and
  writes of pipes take the list of what happens at each \<open>scheduler_yield\<close>, and their theorems say when a call waits
  at the end of it.  \<open>pick_loop\<close> counts down the entries of the queue as the code does.

  \<^bold>\<open>Not modelled.\<close>  Page tables and address spaces (\<^verbatim>\<open>src/mm/vmm.c\<close>), the ELF loader and \<open>exec\<close>, architectures, boot, hardware
  discovery and device drivers work on page tables, registers and ports that have no model here;
  drivers of disks are parameters.  Locks and atomic operations are compiler builtins; races inside functions
  that do not hold their lock throughout, such as the test at the start of \<open>scheduler_add\<close>, are therefore outside
  the model.  Of processes, \<open>fork\<close>, \<open>exec\<close>, the loop of \<open>process_waitpid\<close> and the delivery of signals to user
  handlers are left out, as they act on user memory; that a process is destroyed only when no CPU uses it is a condition
  of the step relation, and \<open>waitpid_reaps_on_cpu\<close> shows what happens without it.  The direct use of
  \<open>process_set_current\<close> by the embedded runtime (\<^verbatim>\<open>src/userland/runtime.c\<close>) is not a step.  The slab allocator has no
  client among the modelled parts.  Semaphores, ports, timers and the watchdog are not modelled; they
  appear to the scheduler as changes of state and wakes.  Of the virtual file system, \<open>vfs_mount\<close> has no caller and
  \<open>st_ino\<close> is a pointer.  The terminal, the kernel's shell and the programs under \<^verbatim>\<open>user/\<close> are not modelled:
  they use the kernel only through its interfaces.
\<close>

section \<open>FAT32 on the cached RAM disk\<close>

text \<open>
  The block cache over the RAM disk provides what FAT32 relies on, for a disk or any partition of
  one, so the lemmas on volumes hold for the sectors clients of the cache see.
\<close>

interpretation ramvol: fat_volume "blk_store g_ram_ops d" "store_inv ram_medium d root base" "dev_view ram_medium root base" demo_geom
  for d root base
  by (rule fat_volumeI) (rule ram.dev.sector_store_axioms, rule demo_geom_ok)

lemma ram_cluster_alloc:
  assumes "store_inv ram_medium d root base (fs_dev s)" and "cluster_alloc (blk_store g_ram_ops d) demo_geom s = (Inr c, s')"
  shows "c \<in> free_set demo_geom (dev_view ram_medium root base (fs_dev s)) \<and> store_inv ram_medium d root base (fs_dev s') \<and>
    only_fat demo_geom {c} (dev_view ram_medium root base (fs_dev s)) (dev_view ram_medium root base (fs_dev s'))"
  using ramvol.cluster_alloc_ok [OF assms(2,1)] by blast

end
